(* ===== verification/Prelude.thy ===== *)
theory Prelude
  imports Main "HOL-Library.Word" "HOL-Library.List_Lexorder" "HOL-Library.Product_Lexorder"
begin

text \<open>
  Shared ground of the development: the machine types of the C++ code, its 32-byte array
  type, the little-endian byte view of machine integers, and the collections of rules the
  component theories use.

  \<^item> A \<^verbatim>\<open>uint8_t\<close>, \<^verbatim>\<open>uint32_t\<close>, \<^verbatim>\<open>uint64_t\<close> is a word of that width; a
    \<^verbatim>\<open>std::vector<uint8_t>\<close> is a list of bytes.
  \<^item> \<^verbatim>\<open>uint256\<close> (\<^verbatim>\<open>std::array<uint8_t, 32>\<close>) is the type of byte lists of length 32.
  \<^item> A \<^verbatim>\<open>memcpy\<close> between an integer and a buffer is the little-endian view of the
    integer: the code is built for little-endian hosts.
\<close>

unbundle bit_operations_syntax

named_theorems codec_simps \<open>encoders of machine integers as little-endian byte lists\<close>
named_theorems reader_intro \<open>composition rules of readers\<close>
named_theorems codec_rt \<open>decoding what was encoded, followed by anything\<close>

type_synonym byte = "8 word"
type_synonym bytes = "8 word list"
type_synonym u16 = "16 word"
type_synonym u32 = "32 word"
type_synonym u64 = "64 word"


section \<open>Fixed arrays of 32 bytes\<close>

typedef uint256 = "{bs :: bytes. length bs = 32}"
  morphisms bytes_of uint256_of
  by (rule exI [of _ "replicate 32 0"]) simp

lemma uint256_abstype [code abstype]: "uint256_of (bytes_of h) = h"
  by (rule bytes_of_inverse)

text \<open>
  \<open>mk_uint256\<close> fills an array from a byte list; the callers give it exactly 32 bytes.
\<close>

definition mk_uint256 :: "bytes \<Rightarrow> uint256" where
  "mk_uint256 bs = uint256_of (take 32 (bs @ replicate 32 0))"

lemma bytes_of_mk_gen [code abstract]:
  "bytes_of (mk_uint256 bs) = take 32 (bs @ replicate 32 0)"
  by (simp add: mk_uint256_def uint256_of_inverse)

text \<open>\<^verbatim>\<open>uint256{}\<close>: every byte is zero.\<close>

definition uint256_zero :: uint256 where
  "uint256_zero = mk_uint256 []"

lemma length_bytes_of [simp]: "length (bytes_of h) = 32"
  using bytes_of [of h] by simp

lemma bytes_of_mk [simp]: "length bs = 32 \<Longrightarrow> bytes_of (mk_uint256 bs) = bs"
  by (simp add: bytes_of_mk_gen)

lemma mk_bytes_of [simp]: "mk_uint256 (bytes_of h) = h"
  by (simp add: bytes_of_inject [symmetric])

lemma bytes_of_zero [simp]: "bytes_of uint256_zero = replicate 32 0"
  by (simp add: uint256_zero_def bytes_of_mk_gen)

lemma uint256_eqI: "bytes_of a = bytes_of b \<Longrightarrow> a = b"
  by (simp add: bytes_of_inject)

lemma bytes_of_nonempty [simp]: "bytes_of h \<noteq> []"
  using length_bytes_of [of h] by (auto simp del: length_bytes_of)

lemma mk_uint256_inject:
  "length a = 32 \<Longrightarrow> length b = 32 \<Longrightarrow> mk_uint256 a = mk_uint256 b \<longleftrightarrow> a = b"
  by (metis bytes_of_mk)

text \<open>
  \<^verbatim>\<open>operator<\<close> of \<^verbatim>\<open>std::array<uint8_t, 32>\<close> is the lexicographic order of the bytes; it is
  the key order of the \<^verbatim>\<open>std::map<uint256, _>\<close>s of the program.
\<close>

instantiation uint256 :: equal
begin

definition equal_uint256 :: "uint256 \<Rightarrow> uint256 \<Rightarrow> bool" where
  "equal_uint256 a b \<longleftrightarrow> bytes_of a = bytes_of b"

instance
  by standard (simp add: equal_uint256_def bytes_of_inject)

end

instantiation uint256 :: linorder
begin

definition less_eq_uint256 :: "uint256 \<Rightarrow> uint256 \<Rightarrow> bool" where
  "less_eq_uint256 a b \<longleftrightarrow> bytes_of a \<le> bytes_of b"

definition less_uint256 :: "uint256 \<Rightarrow> uint256 \<Rightarrow> bool" where
  "less_uint256 a b \<longleftrightarrow> bytes_of a < bytes_of b"

instance
  by standard
    (auto simp: less_eq_uint256_def less_uint256_def bytes_of_inject intro: order.trans)

end


section \<open>The little-endian view of an integer\<close>

primrec le_bytes :: "nat \<Rightarrow> nat \<Rightarrow> bytes" where
  "le_bytes 0 v = []"
| "le_bytes (Suc n) v = word_of_nat v # le_bytes n (v div 256)"

primrec le_val :: "bytes \<Rightarrow> nat" where
  "le_val [] = 0"
| "le_val (b # bs) = unat b + 256 * le_val bs"

lemma length_le_bytes [simp]: "length (le_bytes n v) = n"
  by (induction n arbitrary: v) auto

lemma unat_byte_of_nat: "unat (word_of_nat v :: byte) = v mod 256"
  by (simp add: unat_of_nat)

lemma unat_byte_id: "v < 256 \<Longrightarrow> unat (word_of_nat v :: byte) = v"
  by (simp add: unat_byte_of_nat)

lemma unat_byte_less [simp]: "unat (b :: byte) < 256"
  using unsigned_less [of b] by simp

lemma byte_div_256 [simp]: "unat (b :: byte) div 256 = 0"
  by simp

lemma byte_mod_256 [simp]: "unat (b :: byte) mod 256 = unat b"
  by simp

lemma le_bytes_add: "le_bytes (m + n) v = le_bytes m v @ le_bytes n (v div 256 ^ m)"
  by (induction m arbitrary: v) (simp_all add: div_mult2_eq)

lemma le_val_le_bytes: "le_val (le_bytes n v) = v mod 256 ^ n"
proof (induction n arbitrary: v)
  case 0
  then show ?case by simp
next
  case (Suc n)
  have "v mod (256 * 256 ^ n) = 256 * (v div 256 mod 256 ^ n) + v mod 256"
    by (rule mod_mult2_eq)
  then show ?case by (simp add: Suc unat_byte_of_nat)
qed

lemma le_val_bound: "le_val bs < 256 ^ length bs"
proof (induction bs)
  case Nil
  then show ?case by simp
next
  case (Cons b bs)
  have "unat b + 256 * le_val bs < 256 * (le_val bs + 1)"
    using unat_byte_less [of b] by simp
  also have "\<dots> \<le> 256 * 256 ^ length bs"
    using Cons by (intro mult_le_mono2) simp
  finally show ?case by simp
qed

lemma le_bytes_le_val: "length bs = n \<Longrightarrow> le_bytes n (le_val bs) = bs"
proof (induction bs arbitrary: n)
  case Nil
  then show ?case by simp
next
  case (Cons b bs)
  have "(word_of_nat (unat b + 256 * le_val bs) :: byte) = b"
    by (rule word_unat_eq_iff [THEN iffD2])
      (simp add: unat_of_nat mod_add_right_eq del: of_nat_add of_nat_mult word_of_nat_eq_iff)
  moreover have "(unat b + 256 * le_val bs) div 256 = le_val bs"
    by simp
  ultimately show ?case using Cons by auto
qed

lemma le_val_inject: "length a = length b \<Longrightarrow> le_val a = le_val b \<longleftrightarrow> a = b"
  by (metis le_bytes_le_val)

lemma le_val_append: "le_val (xs @ ys) = le_val xs + 256 ^ length xs * le_val ys"
  by (induction xs) (simp_all add: algebra_simps)

lemma le_val_replicate_0 [simp]: "le_val (replicate n 0) = 0"
  by (induction n) simp_all

lemma ucast_of_unat: "(ucast (w :: 'a::len word) :: 'b::len word) = word_of_nat (unat w)"
  by (rule word_unat_eq_iff [THEN iffD2]) (simp add: unat_of_nat unsigned_ucast_eq take_bit_eq_mod)

lemma unat_u32_u64 [simp]: "unat (ucast (c :: u32) :: u64) = unat c"
proof -
  have "unat c < 2 ^ 64"
    using unsigned_less [of c, where 'a = nat] by simp
  then show ?thesis by (simp add: unsigned_ucast_eq take_bit_nat_eq_self)
qed

lemma unat_byte_u32 [simp]: "unat (ucast (b :: byte) :: u32) = unat b"
proof -
  have "unat b < 2 ^ 32"
    by (rule less_trans [OF unat_byte_less]) simp
  then show ?thesis by (simp add: unsigned_ucast_eq take_bit_nat_eq_self)
qed

lemma word_div_nat: "(w :: 'a::len word) div v = word_of_nat (unat w div unat v)"
  by (rule word_unat_eq_iff [THEN iffD2])
    (simp add: unat_div unat_of_nat less_imp_diff_less order.strict_trans1 [OF div_le_dividend unsigned_less])

lemma ucast_byte_of_nat: "(ucast (w :: 'a::len word) :: byte) = word_of_nat (unat w)"
  by (rule word_unat_eq_iff [THEN iffD2]) (simp add: unat_of_nat unsigned_ucast_eq)

lemma and_ff_byte: "(ucast ((w :: 'a::len word) AND mask 8) :: byte) = ucast w"
  by (intro bit_word_eqI) (auto simp: bit_simps dest: bit_imp_le_length)

lemma unat_drop_bit_div: "unat (drop_bit k (w :: 'a::len word)) = unat w div 2 ^ k"
  by (subst unat_drop_bit_eq) (rule drop_bit_eq_div)

lemma byte_shift:
  "(ucast (drop_bit k (w :: 'a::len word) AND mask 8) :: byte) = word_of_nat (unat w div 2 ^ k)"
proof -
  have "(ucast (drop_bit k w AND mask 8) :: byte) = ucast (drop_bit k w)"
    by (rule and_ff_byte)
  also have "\<dots> = word_of_nat (unat (drop_bit k w))"
    by (rule ucast_byte_of_nat)
  also have "unat (drop_bit k w) = unat w div 2 ^ k"
    by (rule unat_drop_bit_div)
  finally show ?thesis .
qed

text \<open>A word counter that has not come back to 0 has gone up by one.\<close>

lemma unat_plus_1: "w + 1 \<noteq> 0 \<Longrightarrow> unat ((w :: 'a::len word) + 1) = Suc (unat w)"
  using unatSuc [of w] by (simp add: add.commute)

text \<open>A loop that appends to a buffer builds the concatenation.\<close>

lemma fold_append_concat:
  "(\<And>x out. f x out = out @ g x) \<Longrightarrow> fold f xs out = out @ concat (map g xs)"
  by (induction xs arbitrary: out) simp_all

end
