(* ===== verification/StdMap.thy ===== *)
theory StdMap
  imports Prelude
begin

text \<open>
  \<^verbatim>\<open>std::map<K, V>\<close> as the program uses it: the list of its elements in key order.
  Insertion by \<^verbatim>\<open>m[k] = v\<close>, \<^verbatim>\<open>erase\<close>, \<^verbatim>\<open>find\<close>, \<^verbatim>\<open>size\<close>, and iteration, which is the list
  itself. The interface \<open>key_value\<close> states what a client relies on; the proofs of the
  UTXO set, the mempool, the block cache and the stores use its lemmas through the
  interpretation at the end.
\<close>

type_synonym ('k, 'v) std_map = "('k \<times> 'v) list"

fun map_put :: "'k::linorder \<Rightarrow> 'v \<Rightarrow> ('k, 'v) std_map \<Rightarrow> ('k, 'v) std_map" where
  "map_put k v [] = [(k, v)]"
| "map_put k v ((a, b) # m) =
     (if k < a then (k, v) # (a, b) # m
      else if k = a then (k, v) # m
      else (a, b) # map_put k v m)"

fun map_erase :: "'k::linorder \<Rightarrow> ('k, 'v) std_map \<Rightarrow> ('k, 'v) std_map" where
  "map_erase k [] = []"
| "map_erase k ((a, b) # m) = (if k = a then m else (a, b) # map_erase k m)"

fun map_find :: "('k, 'v) std_map \<Rightarrow> 'k \<Rightarrow> 'v option" where
  "map_find [] k = None"
| "map_find ((a, b) # m) k = (if k = a then Some b else map_find m k)"

definition map_ok :: "('k::linorder, 'v) std_map \<Rightarrow> bool" where
  "map_ok m \<longleftrightarrow> sorted_wrt (<) (map fst m)"

lemma map_ok_Nil [simp]: "map_ok []"
  by (simp add: map_ok_def)

lemma map_ok_Cons: "map_ok ((a, b) # m) \<longleftrightarrow> (\<forall>k \<in> fst ` set m. a < k) \<and> map_ok m"
  by (auto simp: map_ok_def)

lemma map_find_map_of: "map_find m = map_of m"
  by (rule ext, rename_tac k, induct_tac m) auto

lemma keys_map_put: "fst ` set (map_put k v m) = insert k (fst ` set m)"
  by (induction k v m rule: map_put.induct) auto

lemma map_find_put: "map_find (map_put k v m) = (map_find m)(k \<mapsto> v)"
  by (induction k v m rule: map_put.induct) (auto simp: fun_eq_iff)

lemma map_ok_put: "map_ok m \<Longrightarrow> map_ok (map_put k v m)"
  by (induction k v m rule: map_put.induct) (auto simp: map_ok_Cons keys_map_put)

lemma keys_map_erase: "fst ` set (map_erase k m) \<subseteq> fst ` set m"
  by (induction k m rule: map_erase.induct) auto

lemma map_find_None: "map_find m k = None \<longleftrightarrow> k \<notin> fst ` set m"
  by (induction m k rule: map_find.induct) auto

lemma map_ok_erase: "map_ok m \<Longrightarrow> map_ok (map_erase k m)"
  using keys_map_erase by (induction k m rule: map_erase.induct) (force simp: map_ok_Cons)+

lemma map_find_erase: "map_ok m \<Longrightarrow> map_find (map_erase k m) = (map_find m)(k := None)"
proof (induction k m rule: map_erase.induct)
  case (1 k)
  then show ?case by (simp add: fun_eq_iff)
next
  case (2 k a b m)
  then have ok: "\<forall>x \<in> fst ` set m. a < x" "map_ok m"
    by (auto simp: map_ok_Cons)
  then have "map_find m a = None"
    by (auto simp: map_find_None)
  with 2 ok show ?case by (auto simp: fun_eq_iff)
qed

lemma map_add_submap: "m \<subseteq>\<^sub>m m' \<Longrightarrow> m' ++ m = m'"
proof (rule ext)
  fix x
  assume le: "m \<subseteq>\<^sub>m m'"
  show "(m' ++ m) x = m' x"
  proof (cases "m x")
    case (Some v)
    then have "m x = m' x" using le unfolding map_le_def by (blast intro: domI)
    with Some show ?thesis by (simp add: map_add_def)
  qed (simp add: map_add_def)
qed

lemma dom_map_find: "dom (map_find m) = fst ` set m"
  by (simp add: map_find_map_of dom_map_of_conv_image_fst)

lemma map_ok_distinct: "map_ok m \<Longrightarrow> distinct (map fst m)"
  by (auto simp: map_ok_def strict_sorted_iff)

lemma length_card: "map_ok m \<Longrightarrow> length m = card (dom (map_find m))"
  by (metis dom_map_find distinct_card length_map list.set_map map_ok_distinct)

lemma in_map_iff: "map_ok m \<Longrightarrow> (k, v) \<in> set m \<longleftrightarrow> map_find m k = Some v"
  by (simp add: map_find_map_of map_ok_distinct)

text \<open>Two maps with the same lookups are the same list, so iteration order is determined.\<close>

lemma map_ok_eqI:
  assumes "map_ok m" "map_ok m'" "map_find m = map_find m'"
  shows "m = m'"
proof -
  have eq: "set m' = set m"
    using assms by (auto simp: in_map_iff)
  have "map fst m' = map fst m"
    by (rule strict_sorted_equal) (use assms eq in \<open>simp_all add: map_ok_def\<close>)
  moreover have "map_of m' = map_of m"
    using assms(3) by (simp add: map_find_map_of)
  ultimately show ?thesis
    using assms by (metis map_ok_distinct map_of_zip_inject length_map zip_map_fst_snd)
qed


section \<open>The interface\<close>

locale key_value =
  fixes empty :: "'m"
    and put :: "'k \<Rightarrow> 'v \<Rightarrow> 'm \<Rightarrow> 'm"
    and erase :: "'k \<Rightarrow> 'm \<Rightarrow> 'm"
    and find :: "'m \<Rightarrow> 'k \<Rightarrow> 'v option"
    and count :: "'m \<Rightarrow> nat"
    and ok :: "'m \<Rightarrow> bool"
  assumes find_empty: "find empty = Map.empty"
    and find_put: "ok m \<Longrightarrow> find (put k v m) = (find m)(k \<mapsto> v)"
    and find_erase: "ok m \<Longrightarrow> find (erase k m) = (find m)(k := None)"
    and ok_empty: "ok empty"
    and ok_put: "ok m \<Longrightarrow> ok (put k v m)"
    and ok_erase: "ok m \<Longrightarrow> ok (erase k m)"
    and finite_find: "ok m \<Longrightarrow> finite (dom (find m))"
    and count_find: "ok m \<Longrightarrow> count m = card (dom (find m))"
begin

lemma put_all:
  "ok m \<Longrightarrow>
     ok (fold (\<lambda>(k, v). put k v) kvs m) \<and>
     find (fold (\<lambda>(k, v). put k v) kvs m) = find m ++ map_of (rev kvs)"
proof (induction kvs arbitrary: m)
  case Nil
  then show ?case by simp
next
  case (Cons kv kvs)
  obtain k v where [simp]: "kv = (k, v)" by (cases kv)
  have "ok (put k v m)" using Cons.prems by (rule ok_put)
  from Cons.IH [OF this] show ?case
    by (auto simp: find_put [OF Cons.prems] fun_eq_iff map_add_def split: option.splits)
qed

lemma erase_all:
  "ok m \<Longrightarrow> ok (fold erase ks m) \<and> find (fold erase ks m) = find m |` (- set ks)"
proof (induction ks arbitrary: m)
  case Nil
  then show ?case by simp
next
  case (Cons k ks)
  have "ok (erase k m)" using Cons.prems by (rule ok_erase)
  from Cons.IH [OF this] show ?case
    by (auto simp: find_erase [OF Cons.prems] restrict_map_def fun_eq_iff)
qed

lemma count_put:
  "ok m \<Longrightarrow> count (put k v m) = (if find m k = None then Suc (count m) else count m)"
  by (auto simp: count_find ok_put find_put finite_find card_insert_if domIff)

lemma count_erase:
  "ok m \<Longrightarrow> count (erase k m) = (if find m k = None then count m else count m - 1)"
  by (auto simp: count_find ok_erase find_erase finite_find domIff)

lemma erase_changes:
  assumes "ok m"
  shows "count (erase k m) < count m \<longleftrightarrow> find m k \<noteq> None"
proof (cases "find m k")
  case None
  then show ?thesis by (simp add: count_erase assms)
next
  case (Some v)
  then have "dom (find m) \<noteq> {}" by auto
  then have "0 < count m"
    by (simp add: count_find assms finite_find card_gt_0_iff)
  then show ?thesis by (simp add: count_erase assms Some)
qed

end

interpretation std_map: key_value "[] :: ('k::linorder, 'v) std_map"
  map_put map_erase map_find length map_ok
  by unfold_locales
    (auto simp: map_find_put map_find_erase map_ok_put map_ok_erase dom_map_find length_card
      fun_eq_iff)

lemmas std_map_simps =
  map_find_put map_find_erase map_ok_put map_ok_erase

end
