(* ===== verification/Serialize.thy ===== *)
theory Serialize
  imports Prelude "HOL-Library.Monad_Syntax"
begin

text \<open>
  The byte writers and readers of \<^verbatim>\<open>src/util/serialize.hpp\<close> and their copies in
  \<^verbatim>\<open>src/core/transaction.cpp\<close> and \<^verbatim>\<open>src/core/block.cpp\<close>.

  A writer takes the output vector and returns it extended. A reader of the code works on
  \<^verbatim>\<open>(data, len, pos)\<close> and moves \<^verbatim>\<open>pos\<close> forward; the model passes the unread suffix
  \<^verbatim>\<open>data[pos..len)\<close>, so \<^verbatim>\<open>pos + n > len\<close> is \<open>length rest < n\<close>. A \<^verbatim>\<open>size_t\<close> is a \<open>nat\<close>.
  The interface \<open>codec\<close> is the contract every encoder/decoder pair of the program is
  proved to satisfy; the lemmas for sequences are proved once in it.
\<close>


section \<open>Writers\<close>

definition writeU32 :: "bytes \<Rightarrow> u32 \<Rightarrow> bytes" where
  "writeU32 out v = out @
     [ucast (v AND 0xff), ucast (drop_bit 8 v AND 0xff),
      ucast (drop_bit 16 v AND 0xff), ucast (drop_bit 24 v AND 0xff)]"

definition writeU64 :: "bytes \<Rightarrow> u64 \<Rightarrow> bytes" where
  "writeU64 out v = fold (\<lambda>i o'. o' @ [ucast (drop_bit (i * 8) v AND 0xff)]) [0..<8] out"

definition writeVarInt :: "bytes \<Rightarrow> nat \<Rightarrow> bytes" where
  "writeVarInt out n =
     (if n < 0xfd then out @ [word_of_nat n]
      else if n \<le> 0xffff then
        out @ [0xfd, word_of_nat (n AND 0xff), word_of_nat (drop_bit 8 n AND 0xff)]
      else
        out @ [0xfe, word_of_nat (n AND 0xff), word_of_nat (drop_bit 8 n AND 0xff),
               word_of_nat (drop_bit 16 n AND 0xff), word_of_nat (drop_bit 24 n AND 0xff)])"

text \<open>The copies in \<^verbatim>\<open>block.cpp\<close> and the inline functions of \<^verbatim>\<open>serialize.hpp\<close>.\<close>

definition block_writeU32 :: "bytes \<Rightarrow> u32 \<Rightarrow> bytes" where
  "block_writeU32 out v = out @
     [ucast (v AND 0xff), ucast (drop_bit 8 v AND 0xff),
      ucast (drop_bit 16 v AND 0xff), ucast (drop_bit 24 v AND 0xff)]"

definition block_writeU64 :: "bytes \<Rightarrow> u64 \<Rightarrow> bytes" where
  "block_writeU64 out v = fold (\<lambda>i o'. o' @ [ucast (drop_bit (i * 8) v AND 0xff)]) [0..<8] out"

definition block_writeVarInt :: "bytes \<Rightarrow> nat \<Rightarrow> bytes" where
  "block_writeVarInt out n =
     (if n < 0xfd then out @ [word_of_nat n]
      else if n \<le> 0xffff then
        out @ [0xfd, word_of_nat (n AND 0xff), word_of_nat (drop_bit 8 n AND 0xff)]
      else
        out @ [0xfe, word_of_nat (n AND 0xff), word_of_nat (drop_bit 8 n AND 0xff),
               word_of_nat (drop_bit 16 n AND 0xff), word_of_nat (drop_bit 24 n AND 0xff)])"

definition serializeU32 :: "bytes \<Rightarrow> u32 \<Rightarrow> bytes" where
  "serializeU32 out v = out @
     [ucast (v AND 0xff), ucast (drop_bit 8 v AND 0xff),
      ucast (drop_bit 16 v AND 0xff), ucast (drop_bit 24 v AND 0xff)]"

definition serializeU64 :: "bytes \<Rightarrow> u64 \<Rightarrow> bytes" where
  "serializeU64 out v = fold (\<lambda>i o'. o' @ [ucast (drop_bit (i * 8) v AND 0xff)]) [0..<8] out"

definition serializeVarInt :: "bytes \<Rightarrow> nat \<Rightarrow> bytes" where
  "serializeVarInt out n =
     (if n < 0xfd then out @ [word_of_nat n]
      else if n \<le> 0xffff then
        out @ [0xfd, word_of_nat (n AND 0xff), word_of_nat (drop_bit 8 n AND 0xff)]
      else
        out @ [0xfe, word_of_nat (n AND 0xff), word_of_nat (drop_bit 8 n AND 0xff),
               word_of_nat (drop_bit 16 n AND 0xff), word_of_nat (drop_bit 24 n AND 0xff)])"

definition serializeUint256 :: "bytes \<Rightarrow> uint256 \<Rightarrow> bytes" where
  "serializeUint256 out h = out @ bytes_of h"

text \<open>All of them write the little-endian bytes of the integer behind what is there.\<close>

lemma ff_mask: "(0xff :: u32) = mask 8" "(0xff :: u64) = mask 8" "(0xff :: nat) = mask 8"
  by (simp_all add: mask_eq_exp_minus_1)

lemma byte_shift_nat: "(word_of_nat (drop_bit k n AND 0xff) :: byte) = word_of_nat (n div 2 ^ k)"
proof -
  have "drop_bit k n AND 0xff = n div 2 ^ k mod 256"
    unfolding ff_mask by (simp add: take_bit_eq_mask [symmetric] take_bit_eq_mod drop_bit_eq_div)
  then show ?thesis
    by (intro word_unat_eq_iff [THEN iffD2]) (simp add: unat_of_nat)
qed

lemma byte_low_nat: "(word_of_nat (n AND 0xff) :: byte) = word_of_nat n"
  using byte_shift_nat [of 0 n] by simp

lemma le_bytes_2: "le_bytes 2 v = [word_of_nat v, word_of_nat (v div 2 ^ 8)]"
proof -
  have "le_bytes (Suc (Suc 0)) v = [word_of_nat v, word_of_nat (v div 2 ^ 8)]"
    by simp
  then show ?thesis by (simp only: numeral_2_eq_2)
qed

lemma le_bytes_4:
  "le_bytes 4 v = [word_of_nat v, word_of_nat (v div 2 ^ 8), word_of_nat (v div 2 ^ 16),
     word_of_nat (v div 2 ^ 24)]"
proof -
  have "le_bytes (2 + 2) v = le_bytes 2 v @ le_bytes 2 (v div 2 ^ 16)"
    unfolding le_bytes_add by simp
  then show ?thesis by (simp add: le_bytes_2 div_mult2_eq [symmetric])
qed

lemma le_bytes_8:
  "le_bytes 8 v = [word_of_nat v, word_of_nat (v div 2 ^ 8), word_of_nat (v div 2 ^ 16),
     word_of_nat (v div 2 ^ 24), word_of_nat (v div 2 ^ 32), word_of_nat (v div 2 ^ 40),
     word_of_nat (v div 2 ^ 48), word_of_nat (v div 2 ^ 56)]"
proof -
  have "le_bytes (4 + 4) v = le_bytes 4 v @ le_bytes 4 (v div 2 ^ 32)"
    unfolding le_bytes_add by simp
  then show ?thesis by (simp add: le_bytes_4 div_mult2_eq [symmetric])
qed

lemma writeU32_le [codec_simps]: "writeU32 out v = out @ le_bytes 4 (unat v)"
  unfolding writeU32_def ff_mask le_bytes_4 byte_shift
  unfolding and_ff_byte
  by (simp only: ucast_byte_of_nat)

lemma writeU64_le [codec_simps]: "writeU64 out v = out @ le_bytes 8 (unat v)"
proof -
  have u: "[0..<8] = [0, 1, 2, 3, 4, 5, 6, 7 :: nat]"
    by (simp add: upt_rec)
  have "writeU64 out v = out @ map (\<lambda>i. ucast (drop_bit (i * 8) v AND mask 8)) [0..<8]"
    unfolding writeU64_def ff_mask u by simp
  also have "\<dots> = out @ map (\<lambda>i. word_of_nat (unat v div 2 ^ (i * 8))) [0..<8]"
    unfolding byte_shift ..
  also have "\<dots> = out @ le_bytes 8 (unat v)"
    unfolding le_bytes_8 u by simp
  finally show ?thesis .
qed

definition varint_bytes :: "nat \<Rightarrow> bytes" where
  "varint_bytes n =
     (if n < 0xfd then [word_of_nat n]
      else if n \<le> 0xffff then 0xfd # le_bytes 2 n
      else 0xfe # le_bytes 4 n)"

lemma writeVarInt_bytes [codec_simps]: "writeVarInt out n = out @ varint_bytes n"
  unfolding writeVarInt_def varint_bytes_def byte_shift_nat le_bytes_2 le_bytes_4
  unfolding byte_low_nat
  by (simp only: append_Cons append_Nil if_distrib [of "(@) out"])

lemma writer_copies_agree:
  "block_writeU32 = writeU32" "serializeU32 = writeU32"
  "block_writeU64 = writeU64" "serializeU64 = writeU64"
  "block_writeVarInt = writeVarInt" "serializeVarInt = writeVarInt"
  by (simp_all add: fun_eq_iff block_writeU32_def serializeU32_def writeU32_def
      block_writeU64_def serializeU64_def writeU64_def
      block_writeVarInt_def serializeVarInt_def writeVarInt_def)


section \<open>Readers\<close>

text \<open>The lambda \<^verbatim>\<open>read(dst, n)\<close>: fails when fewer than \<open>n\<close> bytes are left.\<close>

definition read_bytes :: "nat \<Rightarrow> bytes \<Rightarrow> (bytes \<times> bytes) option" where
  "read_bytes n bs = (if length bs < n then None else Some (take n bs, drop n bs))"

text \<open>\<^verbatim>\<open>read\<close> into an integer or an array: a \<^verbatim>\<open>memcpy\<close> of its bytes.\<close>

definition readU32 :: "bytes \<Rightarrow> (u32 \<times> bytes) option" where
  "readU32 bs = map_option (apfst (\<lambda>b. word_of_nat (le_val b))) (read_bytes 4 bs)"

definition readU64 :: "bytes \<Rightarrow> (u64 \<times> bytes) option" where
  "readU64 bs = map_option (apfst (\<lambda>b. word_of_nat (le_val b))) (read_bytes 8 bs)"

definition readUint256 :: "bytes \<Rightarrow> (uint256 \<times> bytes) option" where
  "readUint256 bs = map_option (apfst mk_uint256) (read_bytes 32 bs)"

text \<open>
  The lambda \<^verbatim>\<open>readVarInt\<close>. In its last form each byte is an \<^verbatim>\<open>int\<close> when it is shifted,
  and the \<^verbatim>\<open>int\<close> is sign-extended when it is combined with the \<^verbatim>\<open>size_t\<close> of the first byte:
  a top byte of 128 or more fills the upper half of the result with ones.
\<close>

definition readVarInt :: "bytes \<Rightarrow> (nat \<times> bytes) option" where
  "readVarInt bs =
     (if bs = [] then None
      else if bs ! 0 < 0xfd then Some (unat (bs ! 0), drop 1 bs)
      else if bs ! 0 = 0xfd \<and> 3 \<le> length bs then
        Some (unat (scast ((ucast (bs ! 1) :: u32) OR push_bit 8 (ucast (bs ! 2))) :: u64),
              drop 3 bs)
      else if bs ! 0 = 0xfe \<and> 5 \<le> length bs then
        Some (unat ((ucast (bs ! 1) :: u64)
                 OR scast (push_bit 8 (ucast (bs ! 2) :: u32))
                 OR scast (push_bit 16 (ucast (bs ! 3) :: u32))
                 OR scast (push_bit 24 (ucast (bs ! 4) :: u32))),
              drop 5 bs)
      else None)"

text \<open>The counted loops \<^verbatim>\<open>for (i = 0; i < n; ++i) { read one; push_back; }\<close>.\<close>

fun read_n :: "(bytes \<Rightarrow> ('a \<times> bytes) option) \<Rightarrow> nat \<Rightarrow> bytes \<Rightarrow> ('a list \<times> bytes) option" where
  "read_n p 0 bs = Some ([], bs)"
| "read_n p (Suc n) bs = do {
     (x, bs) \<leftarrow> p bs;
     (xs, bs) \<leftarrow> read_n p n bs;
     Some (x # xs, bs) }"

lemma read_bytes_append [codec_rt]: "length xs = n \<Longrightarrow> read_bytes n (xs @ rest) = Some (xs, rest)"
  by (simp add: read_bytes_def)

lemma readU32_le [codec_rt]: "readU32 (le_bytes 4 (unat v) @ rest) = Some (v, rest)"
  using unsigned_less [of v, where 'a = nat]
  by (simp add: readU32_def read_bytes_append le_val_le_bytes)

lemma readU64_le [codec_rt]: "readU64 (le_bytes 8 (unat v) @ rest) = Some (v, rest)"
  using unsigned_less [of v, where 'a = nat]
  by (simp add: readU64_def read_bytes_append le_val_le_bytes)

lemma readUint256_bytes [codec_rt]: "readUint256 (bytes_of h @ rest) = Some (h, rest)"
  by (simp add: readUint256_def read_bytes_append)

lemma bit_div_pow: "bit ((n :: nat) div 2 ^ k) j \<longleftrightarrow> bit n (k + j)"
  by (simp flip: drop_bit_eq_div add: bit_drop_bit_eq)

lemma bit_imp_less: "(n :: nat) < 2 ^ m \<Longrightarrow> bit n j \<Longrightarrow> j < m"
  by (metis bit_take_bit_iff take_bit_nat_eq_self)

lemmas bit_div_bytes =
  bit_div_pow [of _ 8, simplified] bit_div_pow [of _ 16, simplified] bit_div_pow [of _ 24, simplified]

lemma varint2_value:
  assumes n: "n < 2 ^ 16"
  shows "unat (scast ((ucast (word_of_nat n :: byte) :: u32)
           OR push_bit 8 (ucast (word_of_nat (n div 2 ^ 8) :: byte))) :: u64) = n"
    (is "unat ?w = n")
proof -
  have "?w = word_of_nat n"
  proof (rule bit_word_eqI)
    fix j assume j: "j < LENGTH(64)"
    have hi: "\<not> bit n i" if "16 \<le> i" for i
      using bit_imp_less [OF n, of i] that by auto
    consider "j < 8" | "8 \<le> j" "j < 16" | "16 \<le> j" by linarith
    then show "bit ?w j \<longleftrightarrow> bit (word_of_nat n :: u64) j"
      using j by cases (auto simp: bit_simps bit_div_bytes hi min_def)
  qed
  then show ?thesis using assms by (simp add: unat_of_nat)
qed

lemma varint4_value:
  assumes n: "n < 2 ^ 31"
  shows "unat ((ucast (word_of_nat n :: byte) :: u64)
           OR scast (push_bit 8 (ucast (word_of_nat (n div 2 ^ 8) :: byte) :: u32))
           OR scast (push_bit 16 (ucast (word_of_nat (n div 2 ^ 16) :: byte) :: u32))
           OR scast (push_bit 24 (ucast (word_of_nat (n div 2 ^ 24) :: byte) :: u32))) = n"
    (is "unat ?w = n")
proof -
  have "?w = word_of_nat n"
  proof (rule bit_word_eqI)
    fix j assume j: "j < LENGTH(64)"
    have hi: "\<not> bit n i" if "31 \<le> i" for i
      using bit_imp_less [OF n, of i] that by auto
    consider "j < 8" | "8 \<le> j" "j < 16" | "16 \<le> j" "j < 24" | "24 \<le> j" "j < 31" | "31 \<le> j"
      by linarith
    then show "bit ?w j \<longleftrightarrow> bit (word_of_nat n :: u64) j"
      using j by cases (auto simp: bit_simps bit_div_bytes hi min_def)
  qed
  then show ?thesis using assms by (simp add: unat_of_nat)
qed

lemma readVarInt_bytes [codec_rt]:
  assumes n: "n < 2 ^ 31"
  shows "readVarInt (varint_bytes n @ rest) = Some (n, rest)"
proof -
  consider (one) "n < 0xfd" | (two) "0xfd \<le> n" "n \<le> 0xffff" | (four) "0xffff < n" by linarith
  then show ?thesis
  proof cases
    case one
    then have "(word_of_nat n :: byte) < 0xfd" "unat (word_of_nat n :: byte) = n"
      by (simp_all add: word_less_nat_alt unat_of_nat)
    with one show ?thesis by (simp add: varint_bytes_def readVarInt_def)
  next
    case two
    then have "n < 2 ^ 16" by simp
    from varint2_value [OF this] two show ?thesis
      by (simp add: varint_bytes_def readVarInt_def le_bytes_2)
  next
    case four
    with varint4_value [OF n] show ?thesis
      by (simp add: varint_bytes_def readVarInt_def le_bytes_4)
  qed
qed

lemma length_varint_bytes:
  "length (varint_bytes n) = (if n < 0xfd then 1 else if n \<le> 0xffff then 3 else 5)"
  by (simp add: varint_bytes_def)


section \<open>The contracts of readers and of encoder/decoder pairs\<close>

text \<open>
  A reader never looks behind what it consumes: bytes added at the end of its input are
  left over.
\<close>

locale reader =
  fixes dec :: "bytes \<Rightarrow> ('a \<times> bytes) option"
  assumes dec_extend: "dec bs = Some (x, rest) \<Longrightarrow> dec (bs @ more) = Some (x, rest @ more)"
begin

lemma read_n_extend:
  "read_n dec n bs = Some (xs, rest) \<Longrightarrow> read_n dec n (bs @ more) = Some (xs, rest @ more)"
proof (induction n arbitrary: bs xs)
  case 0
  then show ?case by simp
next
  case (Suc n)
  then show ?case
    by (auto simp: bind_eq_Some_conv dec_extend split: prod.splits)
qed

end

locale codec = reader dec for dec :: "bytes \<Rightarrow> ('a \<times> bytes) option" +
  fixes enc :: "'a \<Rightarrow> bytes"
    and ok :: "'a \<Rightarrow> bool"
  assumes dec_enc: "ok x \<Longrightarrow> dec (enc x @ rest) = Some (x, rest)"
begin

text \<open>An encoding determines the value, whatever follows it: no encoding is ambiguous.\<close>

lemma enc_inject:
  assumes "ok x" "ok y" "enc x @ r = enc y @ s"
  shows "x = y \<and> r = s"
  using dec_enc [OF assms(1), of r] dec_enc [OF assms(2), of s] assms(3)
  by (metis option.inject prod.inject)

text \<open>A truncated encoding is rejected.\<close>

lemma dec_truncated:
  assumes "ok x" "k < length (enc x)"
  shows "dec (take k (enc x)) = None"
proof (rule ccontr)
  assume "dec (take k (enc x)) \<noteq> None"
  then obtain y r where "dec (take k (enc x)) = Some (y, r)" by auto
  then have "dec (take k (enc x) @ drop k (enc x)) = Some (y, r @ drop k (enc x))"
    by (rule dec_extend)
  then have "r @ drop k (enc x) = []"
    using dec_enc [OF assms(1), of "[]"] by simp
  with assms(2) show False by simp
qed

text \<open>A counted loop of the decoder reads back a sequence of encodings.\<close>

lemma read_n_enc:
  "\<forall>x \<in> set xs. ok x \<Longrightarrow> read_n dec (length xs) (concat (map enc xs) @ rest) = Some (xs, rest)"
  by (induction xs) (simp_all add: dec_enc)

lemma concat_enc_inject:
  assumes "\<forall>x \<in> set xs. ok x" "\<forall>y \<in> set ys. ok y" "length xs = length ys"
    and "concat (map enc xs) @ r = concat (map enc ys) @ s"
  shows "xs = ys \<and> r = s"
  using read_n_enc [OF assms(1), of r] read_n_enc [OF assms(2), of s] assms(3,4)
  by (metis option.inject prod.inject)

end

text \<open>Readers are composed of readers; the rules follow the shape of the code's readers.\<close>

lemma reader_return [reader_intro]: "reader (\<lambda>bs. Some (f, bs))"
  by unfold_locales auto

lemma reader_bind [reader_intro]:
  assumes "reader p" "\<And>x. reader (q x)"
  shows "reader (\<lambda>bs. do { (x, bs) \<leftarrow> p bs; q x bs })"
  using reader.dec_extend [OF assms(1)] reader.dec_extend [OF assms(2)]
  by unfold_locales (auto simp: bind_eq_Some_conv)

lemma reader_guard [reader_intro]:
  "reader q \<Longrightarrow> reader (\<lambda>bs. do { (if c then None else Some ()); q bs })"
  by (simp add: reader_def)

lemma reader_if [reader_intro]:
  "reader p \<Longrightarrow> reader q \<Longrightarrow> reader (\<lambda>bs. if c then p bs else q bs)"
  by (simp add: reader_def)

lemma reader_read_n [reader_intro]: "reader p \<Longrightarrow> reader (read_n p n)"
  by (auto simp: reader_def intro: reader.read_n_extend [unfolded reader_def])

lemma reader_read_bytes [reader_intro]: "reader (read_bytes n)"
  by unfold_locales (auto simp: read_bytes_def split: if_splits)

lemma reader_map [reader_intro]: "reader p \<Longrightarrow> reader (\<lambda>bs. map_option (apfst f) (p bs))"
  by (auto simp: reader_def apfst_def map_prod_def split: prod.splits)

lemma readers_basic [reader_intro]: "reader readU32" "reader readU64" "reader readUint256"
  unfolding readU32_def readU64_def readUint256_def by (intro reader_intro)+

lemma reader_readVarInt [reader_intro]: "reader readVarInt"
proof
  show "readVarInt bs = Some (x, rest) \<Longrightarrow> readVarInt (bs @ more) = Some (x, rest @ more)"
    for bs x rest more
    by (cases bs) (auto simp: readVarInt_def nth_append split: if_splits)
qed

interpretation u32_codec: codec readU32 "\<lambda>v :: u32. le_bytes 4 (unat v)" "\<lambda>_. True"
  by (intro codec.intro readers_basic codec_axioms.intro readU32_le)

interpretation u64_codec: codec readU64 "\<lambda>v :: u64. le_bytes 8 (unat v)" "\<lambda>_. True"
  by (intro codec.intro readers_basic codec_axioms.intro readU64_le)

interpretation uint256_codec: codec readUint256 bytes_of "\<lambda>_. True"
  by (intro codec.intro readers_basic codec_axioms.intro readUint256_bytes)

interpretation varint_codec: codec readVarInt varint_bytes "\<lambda>n. n < 2 ^ 31"
  by (intro codec.intro reader_readVarInt codec_axioms.intro readVarInt_bytes)

end
