(* ===== verification/CoreTypes.thy ===== *)
theory CoreTypes
  imports StdMap Serialize
begin

text \<open>
  \<^verbatim>\<open>src/core/types.hpp\<close> and \<^verbatim>\<open>types.cpp\<close>: outpoints, transactions, block headers and blocks,
  the coin parameters and the issue schedule, transaction ids and block hashes; and
  \<^verbatim>\<open>src/crypto/hash.c\<close>. OpenSSL's \<^verbatim>\<open>SHA256\<close> is a parameter \<open>sha\<close> of every definition that
  hashes: a function from byte lists to 32 bytes. Nothing else is assumed of it.
\<close>

type_synonym hasher = "bytes \<Rightarrow> uint256"


text \<open>A concrete hasher, for the examples.\<close>

definition const_sha :: hasher where
  "const_sha bs = uint256_zero"


section \<open>Hashes\<close>

definition shawncoin_sha256 :: "hasher \<Rightarrow> bytes \<Rightarrow> uint256" where
  "shawncoin_sha256 sha data = sha data"

definition shawncoin_sha256d :: "hasher \<Rightarrow> bytes \<Rightarrow> uint256" where
  "shawncoin_sha256d sha data = sha (bytes_of (sha data))"

text \<open>\<^verbatim>\<open>RIPEMD160(SHA256(data))\<close>; the RIPEMD-160 digest of OpenSSL is the parameter \<open>rmd\<close>.\<close>

definition shawncoin_hash160 :: "hasher \<Rightarrow> (bytes \<Rightarrow> bytes) \<Rightarrow> bytes \<Rightarrow> bytes" where
  "shawncoin_hash160 sha rmd data = rmd (bytes_of (sha data))"


section \<open>Outpoints\<close>

datatype OutPoint = OutPoint (op_hash: uint256) (op_index: u32)

text \<open>\<^verbatim>\<open>memcmp\<close> of two buffers of the same length: the difference at the first place they differ.\<close>

fun memcmp :: "bytes \<Rightarrow> bytes \<Rightarrow> int" where
  "memcmp (x # xs) (y # ys) = (if x = y then memcmp xs ys else uint x - uint y)"
| "memcmp _ _ = 0"

definition OutPoint_eq :: "OutPoint \<Rightarrow> OutPoint \<Rightarrow> bool" where
  "OutPoint_eq a b \<longleftrightarrow>
     op_index a = op_index b \<and> memcmp (bytes_of (op_hash a)) (bytes_of (op_hash b)) = 0"

definition OutPoint_less :: "OutPoint \<Rightarrow> OutPoint \<Rightarrow> bool" where
  "OutPoint_less a b \<longleftrightarrow>
     (let c = memcmp (bytes_of (op_hash a)) (bytes_of (op_hash b))
      in c < 0 \<or> (c = 0 \<and> op_index a < op_index b))"

lemma memcmp_0: "length xs = length ys \<Longrightarrow> memcmp xs ys = 0 \<longleftrightarrow> xs = ys"
  by (induction xs ys rule: list_induct2) (simp_all add: word_uint_eq_iff)

lemma memcmp_neg: "length xs = length ys \<Longrightarrow> memcmp xs ys < 0 \<longleftrightarrow> xs < ys"
  by (induction xs ys rule: list_induct2) (auto simp: word_less_def)

lemma OutPoint_eq_iff: "OutPoint_eq a b \<longleftrightarrow> a = b"
  by (cases a; cases b) (auto simp: OutPoint_eq_def memcmp_0 uint256_eqI)

lemma OutPoint_less_iff:
  "OutPoint_less a b \<longleftrightarrow> (op_hash a, op_index a) < (op_hash b, op_index b)"
  by (auto simp: OutPoint_less_def Let_def memcmp_0 memcmp_neg less_uint256_def
      less_eq_uint256_def less_prod_simp bytes_of_inject order.order_iff_strict)

text \<open>\<^verbatim>\<open>operator<\<close> is a strict total order, as the key order of a \<^verbatim>\<open>std::map\<close> must be.\<close>

instantiation OutPoint :: linorder
begin

definition less_OutPoint :: "OutPoint \<Rightarrow> OutPoint \<Rightarrow> bool" where
  "less_OutPoint a b \<longleftrightarrow> OutPoint_less a b"

definition less_eq_OutPoint :: "OutPoint \<Rightarrow> OutPoint \<Rightarrow> bool" where
  "less_eq_OutPoint a b \<longleftrightarrow> OutPoint_less a b \<or> OutPoint_eq a b"

instance
proof
  fix x y z :: OutPoint
  have le: "a \<le> b \<longleftrightarrow> (op_hash a, op_index a) \<le> (op_hash b, op_index b)" for a b :: OutPoint
    by (auto simp: less_eq_OutPoint_def OutPoint_less_iff OutPoint_eq_iff order.order_iff_strict
        OutPoint.expand)
  show "(x < y) = (x \<le> y \<and> \<not> y \<le> x)"
    by (simp add: le less_OutPoint_def OutPoint_less_iff less_le_not_le)
  show "x \<le> x" by (simp add: le)
  show "x \<le> y \<Longrightarrow> y \<le> z \<Longrightarrow> x \<le> z" by (auto simp: le intro: order.trans)
  show "x \<le> y \<Longrightarrow> y \<le> x \<Longrightarrow> x = y" 
    unfolding le by (metis OutPoint.expand fst_conv order.antisym snd_conv)
  show "x \<le> y \<or> y \<le> x" unfolding le by (rule linear)
qed

end


section \<open>Transactions and blocks\<close>

type_synonym Script = bytes

record TxOutput =
  amount :: u64
  script_pubkey :: Script

record TxInput =
  prev_tx_hash :: uint256
  output_index :: u32
  signature :: bytes
  pubkey :: bytes

text \<open>\<^verbatim>\<open>cached_txid\<close> is a \<^verbatim>\<open>mutable\<close> member: \<^verbatim>\<open>getTxid\<close> writes it.\<close>

record Transaction =
  tx_version :: u32
  inputs :: "TxInput list"
  outputs :: "TxOutput list"
  lock_time :: u32
  cached_txid :: "uint256 option"

record BlockHeader =
  hdr_version :: u32
  previous_hash :: uint256
  merkle_root :: uint256
  timestamp :: u64
  difficulty_target :: u32
  nonce :: u32

record Block =
  header :: BlockHeader
  transactions :: "Transaction list"

text \<open>The bytes \<^verbatim>\<open>getTxid\<close> hashes: no signatures, and one byte for each length.\<close>

definition txid_buf :: "Transaction \<Rightarrow> bytes" where
  "txid_buf tx =
     (let buf = writeU32 [] (tx_version tx);
          buf = buf @ [word_of_nat (length (inputs tx))];
          buf = fold (\<lambda>i buf. writeU32 (buf @ bytes_of (prev_tx_hash i)) (output_index i)) (inputs tx) buf;
          buf = buf @ [word_of_nat (length (outputs tx))];
          buf = fold (\<lambda>o' buf. writeU64 buf (amount o')
                        @ [word_of_nat (length (script_pubkey o'))] @ script_pubkey o') (outputs tx) buf
      in writeU32 buf (lock_time tx))"

definition getTxid :: "hasher \<Rightarrow> Transaction \<Rightarrow> uint256 \<times> Transaction" where
  "getTxid sha tx =
     (case cached_txid tx of
        Some h \<Rightarrow> (h, tx)
      | None \<Rightarrow>
          (let txid = shawncoin_sha256d sha (txid_buf tx)
           in (txid, tx\<lparr>cached_txid := Some txid\<rparr>)))"

text \<open>The id a caller gets, and the transaction with its cache filled.\<close>

abbreviation txid :: "hasher \<Rightarrow> Transaction \<Rightarrow> uint256" where
  "txid sha tx \<equiv> fst (getTxid sha tx)"

abbreviation memo_txid :: "hasher \<Rightarrow> Transaction \<Rightarrow> Transaction" where
  "memo_txid sha tx \<equiv> snd (getTxid sha tx)"

definition isCoinbase :: "Transaction \<Rightarrow> bool" where
  "isCoinbase tx \<longleftrightarrow>
     length (inputs tx) = 1 \<and> prev_tx_hash (inputs tx ! 0) = uint256_zero
       \<and> output_index (inputs tx ! 0) = 0xffffffff"

definition getTotalOutput :: "Transaction \<Rightarrow> u64" where
  "getTotalOutput tx = fold (\<lambda>o' sum. sum + amount o') (outputs tx) 0"

definition getTotalInput :: "Transaction \<Rightarrow> u64" where
  "getTotalInput tx = 0"

text \<open>The 80 bytes of a header; only the low half of the timestamp is in them.\<close>

definition header_buf :: "BlockHeader \<Rightarrow> bytes" where
  "header_buf h =
     (let buf = writeU32 [] (hdr_version h);
          buf = buf @ bytes_of (previous_hash h);
          buf = buf @ bytes_of (merkle_root h);
          ts = (ucast (timestamp h) :: u32);
          buf = writeU32 buf ts;
          buf = writeU32 buf (difficulty_target h)
      in writeU32 buf (nonce h))"

definition getHeaderHash :: "hasher \<Rightarrow> Block \<Rightarrow> uint256" where
  "getHeaderHash sha b = shawncoin_sha256d sha (header_buf (header b))"

definition getHash :: "hasher \<Rightarrow> Block \<Rightarrow> uint256" where
  "getHash sha b = getHeaderHash sha b"

end
