(* ===== verification/Tx.thy ===== *)
theory Tx
  imports CoreTypes
begin

text \<open>
  \<^verbatim>\<open>src/core/transaction.cpp\<close>: the wire format of a transaction. \<open>serializeTransaction\<close>
  appends to the output vector; \<open>deserializeTransaction\<close> reads from the unread input and
  returns the transaction and what is left, or \<open>None\<close> where the code returns false.
\<close>

definition serializeTransaction :: "Transaction \<Rightarrow> bytes \<Rightarrow> bytes" where
  "serializeTransaction tx out =
     (let out = writeU32 out (tx_version tx);
          out = writeVarInt out (length (inputs tx));
          out = fold (\<lambda>i out.
                  let out = out @ bytes_of (prev_tx_hash i);
                      out = writeU32 out (output_index i);
                      out = writeVarInt out (length (signature i));
                      out = out @ signature i;
                      out = writeVarInt out (length (pubkey i))
                  in out @ pubkey i) (inputs tx) out;
          out = writeVarInt out (length (outputs tx));
          out = fold (\<lambda>o' out.
                  let out = writeU64 out (amount o');
                      out = writeVarInt out (length (script_pubkey o'))
                  in out @ script_pubkey o') (outputs tx) out
      in writeU32 out (lock_time tx))"

text \<open>The bodies of the two loops of \<^verbatim>\<open>deserializeTransaction\<close>.\<close>

definition read_input :: "bytes \<Rightarrow> (TxInput \<times> bytes) option" where
  "read_input bs = do {
     (h, bs) \<leftarrow> readUint256 bs;
     (ix, bs) \<leftarrow> readU32 bs;
     (scriptLen, bs) \<leftarrow> readVarInt bs;
     (if 10000 < scriptLen then None else Some ());
     (sig, bs) \<leftarrow> read_bytes scriptLen bs;
     (pkLen, bs) \<leftarrow> readVarInt bs;
     (if 10000 < pkLen then None else Some ());
     (pk, bs) \<leftarrow> (if pkLen \<noteq> 0 then read_bytes pkLen bs else Some ([], bs));
     Some (\<lparr>prev_tx_hash = h, output_index = ix, signature = sig, pubkey = pk\<rparr>, bs) }"

definition read_output :: "bytes \<Rightarrow> (TxOutput \<times> bytes) option" where
  "read_output bs = do {
     (a, bs) \<leftarrow> readU64 bs;
     (scriptLen, bs) \<leftarrow> readVarInt bs;
     (if 10000 < scriptLen then None else Some ());
     (script, bs) \<leftarrow> read_bytes scriptLen bs;
     Some (\<lparr>amount = a, script_pubkey = script\<rparr>, bs) }"

definition deserializeTransaction :: "bytes \<Rightarrow> (Transaction \<times> bytes) option" where
  "deserializeTransaction bs = do {
     (v, bs) \<leftarrow> readU32 bs;
     (nIn, bs) \<leftarrow> readVarInt bs;
     (ins, bs) \<leftarrow> read_n read_input nIn bs;
     (nOut, bs) \<leftarrow> readVarInt bs;
     (outs, bs) \<leftarrow> read_n read_output nOut bs;
     (lt, bs) \<leftarrow> readU32 bs;
     Some (\<lparr>tx_version = v, inputs = ins, outputs = outs, lock_time = lt, cached_txid = None\<rparr>, bs) }"


section \<open>Encodings\<close>

definition enc_input :: "TxInput \<Rightarrow> bytes" where
  "enc_input i = bytes_of (prev_tx_hash i) @ le_bytes 4 (unat (output_index i))
     @ varint_bytes (length (signature i)) @ signature i
     @ varint_bytes (length (pubkey i)) @ pubkey i"

definition enc_output :: "TxOutput \<Rightarrow> bytes" where
  "enc_output o' = le_bytes 8 (unat (amount o')) @ varint_bytes (length (script_pubkey o'))
     @ script_pubkey o'"

definition enc_tx :: "Transaction \<Rightarrow> bytes" where
  "enc_tx tx = le_bytes 4 (unat (tx_version tx))
     @ varint_bytes (length (inputs tx)) @ concat (map enc_input (inputs tx))
     @ varint_bytes (length (outputs tx)) @ concat (map enc_output (outputs tx))
     @ le_bytes 4 (unat (lock_time tx))"

lemma serializeTransaction_enc [codec_simps]: "serializeTransaction tx out = out @ enc_tx tx"
proof -
  have i: "fold (\<lambda>i out. let out = out @ bytes_of (prev_tx_hash i); out = writeU32 out (output_index i);
      out = writeVarInt out (length (signature i)); out = out @ signature i;
      out = writeVarInt out (length (pubkey i)) in out @ pubkey i) xs out
    = out @ concat (map enc_input xs)" for xs out
    by (rule fold_append_concat) (simp add: codec_simps enc_input_def)
  have o': "fold (\<lambda>o' out. let out = writeU64 out (amount o');
      out = writeVarInt out (length (script_pubkey o')) in out @ script_pubkey o') xs out
    = out @ concat (map enc_output xs)" for xs out
    by (rule fold_append_concat) (simp add: codec_simps enc_output_def)
  show ?thesis
    unfolding serializeTransaction_def i o' by (simp add: codec_simps enc_tx_def)
qed

text \<open>
  What a transaction must satisfy for its encoding to be readable: scripts of at most
  10000 bytes, which \<^verbatim>\<open>deserializeTransaction\<close> enforces, and counts that fit a \<^verbatim>\<open>readVarInt\<close>.
\<close>

definition input_ok :: "TxInput \<Rightarrow> bool" where
  "input_ok i \<longleftrightarrow> length (signature i) \<le> 10000 \<and> length (pubkey i) \<le> 10000"

definition output_ok :: "TxOutput \<Rightarrow> bool" where
  "output_ok o' \<longleftrightarrow> length (script_pubkey o') \<le> 10000"

definition tx_ok :: "Transaction \<Rightarrow> bool" where
  "tx_ok tx \<longleftrightarrow> list_all input_ok (inputs tx) \<and> list_all output_ok (outputs tx)
     \<and> length (inputs tx) < 2 ^ 31 \<and> length (outputs tx) < 2 ^ 31"

lemma read_input_enc: "input_ok i \<Longrightarrow> read_input (enc_input i @ rest) = Some (i, rest)"
  by (cases i) (auto simp: input_ok_def enc_input_def read_input_def codec_rt)

lemma read_output_enc: "output_ok o' \<Longrightarrow> read_output (enc_output o' @ rest) = Some (o', rest)"
  by (cases o') (auto simp: output_ok_def enc_output_def read_output_def codec_rt)

lemma reader_input [reader_intro]: "reader read_input"
  unfolding read_input_def by (intro reader_intro)

lemma reader_output [reader_intro]: "reader read_output"
  unfolding read_output_def by (intro reader_intro)

lemma reader_tx [reader_intro]: "reader deserializeTransaction"
  unfolding deserializeTransaction_def by (intro reader_intro)

interpretation input_codec: codec read_input enc_input input_ok
  by (intro codec.intro reader_input codec_axioms.intro read_input_enc)

interpretation output_codec: codec read_output enc_output output_ok
  by (intro codec.intro reader_output codec_axioms.intro read_output_enc)

lemma deserializeTransaction_enc:
  "tx_ok tx \<Longrightarrow> deserializeTransaction (enc_tx tx @ rest) = Some (tx\<lparr>cached_txid := None\<rparr>, rest)"
  by (cases tx)
    (simp add: tx_ok_def enc_tx_def deserializeTransaction_def codec_rt list_all_iff
      input_codec.read_n_enc output_codec.read_n_enc)

interpretation tx_codec: codec deserializeTransaction enc_tx
  "\<lambda>tx. tx_ok tx \<and> cached_txid tx = None"
  by (intro codec.intro reader_tx codec_axioms.intro) (simp add: deserializeTransaction_enc)


lemma read_input_ok: "read_input bs = Some (i, rest) \<Longrightarrow> input_ok i"
  by (auto simp: read_input_def input_ok_def bind_eq_Some_conv read_bytes_def
      split: if_splits prod.splits)

lemma read_output_ok: "read_output bs = Some (o', rest) \<Longrightarrow> output_ok o'"
  by (auto simp: read_output_def output_ok_def bind_eq_Some_conv read_bytes_def
      split: if_splits prod.splits)

lemma read_n_all:
  "(\<And>bs x rest. p bs = Some (x, rest) \<Longrightarrow> P x) \<Longrightarrow> read_n p n bs = Some (xs, rest) \<Longrightarrow> list_all P xs"
  by (induction n arbitrary: bs xs) (auto simp: bind_eq_Some_conv split: prod.splits)

lemma length_read_n: "read_n p n bs = Some (xs, rest) \<Longrightarrow> length xs = n"
  by (induction n arbitrary: bs xs) (auto simp: bind_eq_Some_conv split: prod.splits)


section \<open>Properties\<close>


definition sample_tx :: Transaction where
  "sample_tx = \<lparr>tx_version = 1,
     inputs = [\<lparr>prev_tx_hash = uint256_zero, output_index = 7, signature = [1, 2, 3], pubkey = []\<rparr>],
     outputs = [\<lparr>amount = 5000, script_pubkey = [0x76, 0xa9]\<rparr>],
     lock_time = 9, cached_txid = None\<rparr>"

lemma sample_tx_ok: "tx_ok sample_tx" "cached_txid sample_tx = None"
  by (simp_all add: sample_tx_def tx_ok_def input_ok_def output_ok_def)


text \<open>
  A transaction cut short at any byte is rejected: no strict prefix of an encoding
  deserializes.
\<close>

theorem tx_truncated:
  "tx_ok tx \<Longrightarrow> cached_txid tx = None \<Longrightarrow> k < length (serializeTransaction tx []) \<Longrightarrow>
     deserializeTransaction (take k (serializeTransaction tx [])) = None"
  using tx_codec.dec_truncated [of tx k] by (simp add: codec_simps)

theorem tx_truncated_witness:
  "deserializeTransaction (take 20 (serializeTransaction sample_tx [])) = None"
proof (rule tx_truncated [OF sample_tx_ok])
  show "20 < length (serializeTransaction sample_tx [])"
    by (simp add: codec_simps enc_tx_def enc_input_def enc_output_def sample_tx_def)
qed

text \<open>
  Whatever bytes arrive, a transaction that deserializes has scripts of at most 10000
  bytes and an empty id cache, so an id computed from it is computed afresh.
\<close>

theorem deserialized_tx_bounds:
  "deserializeTransaction bs = Some (tx, rest) \<Longrightarrow>
     list_all input_ok (inputs tx) \<and> list_all output_ok (outputs tx) \<and> cached_txid tx = None"
  using read_n_all [of read_input input_ok] read_n_all [of read_output output_ok]
    read_input_ok read_output_ok
  by (auto simp: deserializeTransaction_def bind_eq_Some_conv split: prod.splits)

theorem deserialized_tx_bounds_witness:
  "deserializeTransaction (enc_tx sample_tx @ []) = Some (sample_tx, []) \<and>
   list_all input_ok (inputs sample_tx)"
proof -
  have d: "deserializeTransaction (enc_tx sample_tx @ []) = Some (sample_tx, [])"
    by (rule tx_codec.dec_enc) (simp add: sample_tx_ok)
  then show ?thesis using deserialized_tx_bounds [OF d] by blast
qed

end
