(* ===== verification/TxId.thy ===== *)
theory TxId
  imports Tx
begin

text \<open>
  The identity of a transaction. The bytes \<^verbatim>\<open>getTxid\<close> hashes hold one byte for each count
  and each script length. As long as counts and lengths are below 256 those bytes determine
  the transaction up to its signatures; beyond, two transactions that pay differently
  share an id.
\<close>

section \<open>The hashed bytes as an encoding\<close>

definition enc_outpoint :: "OutPoint \<Rightarrow> bytes" where
  "enc_outpoint op = bytes_of (op_hash op) @ le_bytes 4 (unat (op_index op))"

definition read_outpoint :: "bytes \<Rightarrow> (OutPoint \<times> bytes) option" where
  "read_outpoint bs = do {
     (h, bs) \<leftarrow> readUint256 bs;
     (ix, bs) \<leftarrow> readU32 bs;
     Some (OutPoint h ix, bs) }"

definition read_byte :: "bytes \<Rightarrow> (nat \<times> bytes) option" where
  "read_byte bs = map_option (apfst le_val) (read_bytes 1 bs)"

definition enc_short_output :: "TxOutput \<Rightarrow> bytes" where
  "enc_short_output o' = le_bytes 8 (unat (amount o'))
     @ word_of_nat (length (script_pubkey o')) # script_pubkey o'"

definition read_short_output :: "bytes \<Rightarrow> (TxOutput \<times> bytes) option" where
  "read_short_output bs = do {
     (a, bs) \<leftarrow> readU64 bs;
     (n, bs) \<leftarrow> read_byte bs;
     (script, bs) \<leftarrow> read_bytes n bs;
     Some (\<lparr>amount = a, script_pubkey = script\<rparr>, bs) }"

definition outpoint_of :: "TxInput \<Rightarrow> OutPoint" where
  "outpoint_of i = OutPoint (prev_tx_hash i) (output_index i)"

lemma read_byte_rt [codec_rt]: "n < 256 \<Longrightarrow> read_byte (word_of_nat n # rest) = Some (n, rest)"
  by (simp add: read_byte_def read_bytes_def unat_of_nat)

lemma reader_byte [reader_intro]: "reader read_byte"
  unfolding read_byte_def by (intro reader_intro)

interpretation outpoint_codec: codec read_outpoint enc_outpoint "\<lambda>_. True"
proof (intro codec.intro codec_axioms.intro)
  show "reader read_outpoint"
    unfolding read_outpoint_def by (intro reader_intro)
  show "read_outpoint (enc_outpoint x @ rest) = Some (x, rest)" for x rest
    by (cases x) (simp add: read_outpoint_def enc_outpoint_def codec_rt)
qed

interpretation short_output_codec: codec read_short_output enc_short_output
  "\<lambda>o'. length (script_pubkey o') < 256"
proof (intro codec.intro codec_axioms.intro)
  show "reader read_short_output"
    unfolding read_short_output_def by (intro reader_intro)
  show "length (script_pubkey x) < 256 \<Longrightarrow>
      read_short_output (enc_short_output x @ rest) = Some (x, rest)" for x rest
    by (cases x) (simp add: read_short_output_def enc_short_output_def codec_rt)
qed

lemma txid_buf_enc:
  "txid_buf tx = le_bytes 4 (unat (tx_version tx))
     @ word_of_nat (length (inputs tx)) # concat (map (enc_outpoint \<circ> outpoint_of) (inputs tx))
     @ word_of_nat (length (outputs tx)) # concat (map enc_short_output (outputs tx))
     @ le_bytes 4 (unat (lock_time tx))"
proof -
  have i: "fold (\<lambda>i buf. writeU32 (buf @ bytes_of (prev_tx_hash i)) (output_index i)) xs buf
    = buf @ concat (map (enc_outpoint \<circ> outpoint_of) xs)" for xs buf
    by (rule fold_append_concat) (simp add: codec_simps enc_outpoint_def outpoint_of_def)
  have o': "fold (\<lambda>o' buf. writeU64 buf (amount o') @ [word_of_nat (length (script_pubkey o'))]
      @ script_pubkey o') xs buf = buf @ concat (map enc_short_output xs)" for xs buf
    by (rule fold_append_concat) (simp add: codec_simps enc_short_output_def)
  show ?thesis
    unfolding txid_buf_def i o' by (simp add: codec_simps)
qed

definition short_tx :: "Transaction \<Rightarrow> bool" where
  "short_tx tx \<longleftrightarrow> length (inputs tx) < 256 \<and> length (outputs tx) < 256
     \<and> (\<forall>o' \<in> set (outputs tx). length (script_pubkey o') < 256)"

lemma word_of_nat_byte_inject:
  "m < 256 \<Longrightarrow> n < 256 \<Longrightarrow> (word_of_nat m :: byte) = word_of_nat n \<longleftrightarrow> m = n"
  by (metis unat_byte_of_nat mod_less)

lemma le_bytes_4_append_inject:
  "le_bytes 4 (unat (a :: u32)) @ xs = le_bytes 4 (unat b) @ ys \<longleftrightarrow> a = b \<and> xs = ys"
  using u32_codec.enc_inject by blast

section \<open>The memo\<close>

lemma txid_memo [simp]: "txid sha (memo_txid sha tx) = txid sha tx"
  by (simp add: getTxid_def Let_def split: option.splits)

lemma memo_memo [simp]: "memo_txid sha (memo_txid sha tx) = memo_txid sha tx"
  by (simp add: getTxid_def Let_def split: option.splits)

lemma memo_fields [simp]:
  "inputs (memo_txid sha tx) = inputs tx" "outputs (memo_txid sha tx) = outputs tx"
  "tx_version (memo_txid sha tx) = tx_version tx" "lock_time (memo_txid sha tx) = lock_time tx"
  by (simp_all add: getTxid_def Let_def split: option.splits)

lemma isCoinbase_memo [simp]: "isCoinbase (memo_txid sha tx) = isCoinbase tx"
  by (simp add: isCoinbase_def)

lemma txid_fresh: "cached_txid tx = None \<Longrightarrow> txid sha tx = shawncoin_sha256d sha (txid_buf tx)"
  by (simp add: getTxid_def Let_def)

section \<open>Properties\<close>



text \<open>Two transactions that differ in where the output lengths fall.\<close>

definition twin_a :: "TxInput list \<Rightarrow> u64 \<Rightarrow> u64 \<Rightarrow> u64 \<Rightarrow> Transaction" where
  "twin_a ins a1 a2 a2' = \<lparr>tx_version = 1, inputs = ins,
     outputs = [\<lparr>amount = a1, script_pubkey = le_bytes 8 (unat a2') @ replicate 248 0\<rparr>,
                \<lparr>amount = a2, script_pubkey = []\<rparr>],
     lock_time = 0, cached_txid = None\<rparr>"

definition twin_b :: "TxInput list \<Rightarrow> u64 \<Rightarrow> u64 \<Rightarrow> u64 \<Rightarrow> Transaction" where
  "twin_b ins a1 a2 a2' = \<lparr>tx_version = 1, inputs = ins,
     outputs = [\<lparr>amount = a1, script_pubkey = []\<rparr>,
                \<lparr>amount = a2', script_pubkey = replicate 247 0 @ le_bytes 8 (unat a2) @ [0]\<rparr>],
     lock_time = 0, cached_txid = None\<rparr>"

text \<open>
  The one-byte lengths are ambiguous from 256 on. For any amounts there are two
  serializable transactions with the same inputs that hash the very same bytes, so that
  they have the same id under every hash function, and whose second outputs pay different
  amounts.
\<close>

theorem txid_ambiguous:
  "txid sha (twin_a ins a1 a2 a2') = txid sha (twin_b ins a1 a2 a2')
   \<and> map amount (outputs (twin_a ins a1 a2 a2')) = [a1, a2]
   \<and> map amount (outputs (twin_b ins a1 a2 a2')) = [a1, a2']
   \<and> list_all output_ok (outputs (twin_a ins a1 a2 a2'))
   \<and> list_all output_ok (outputs (twin_b ins a1 a2 a2'))"
proof -
  have r: "replicate 248 0 = (0 :: byte) # replicate 247 0"
    by (metis replicate_Suc Suc_numeral semiring_norm(5) semiring_norm(8))
  have "txid_buf (twin_a ins a1 a2 a2') = txid_buf (twin_b ins a1 a2 a2')"
    by (simp add: txid_buf_enc twin_a_def twin_b_def enc_short_output_def r)
  then have "txid sha (twin_a ins a1 a2 a2') = txid sha (twin_b ins a1 a2 a2')"
    by (simp add: txid_fresh twin_a_def twin_b_def)
  then show ?thesis
    by (simp add: twin_a_def twin_b_def output_ok_def)
qed

text \<open>
  The id cache is never refreshed: once an id has been computed it is returned
  whatever is done to the other fields; it is the id of the bytes exactly while the cache
  is empty or holds that id.
\<close>

theorem cached_txid_sticks:
  "txid sha ((memo_txid sha tx)\<lparr>tx_version := v, inputs := ins, outputs := outs, lock_time := lt\<rparr>)
     = txid sha tx
   \<and> (txid sha tx = shawncoin_sha256d sha (txid_buf tx)
       \<longleftrightarrow> cached_txid tx \<in> {None, Some (shawncoin_sha256d sha (txid_buf tx))})"
  by (auto simp: getTxid_def Let_def split: option.splits)

end
