(* ===== verification/Merkle.thy ===== *)
theory Merkle
  imports TxId
begin

text \<open>
  \<^verbatim>\<open>src/mining/merkle.cpp\<close>: the Merkle root of a list of hashes and of a transaction list.
  One round hashes the row pairwise, the last element with itself when the row is odd;
  rounds repeat while the row has more than one element.
\<close>

definition hash_pair :: "hasher \<Rightarrow> uint256 \<Rightarrow> uint256 \<Rightarrow> uint256" where
  "hash_pair sha a b = shawncoin_sha256d sha (bytes_of a @ bytes_of b)"

fun merkle_next :: "hasher \<Rightarrow> uint256 list \<Rightarrow> uint256 list" where
  "merkle_next sha [] = []"
| "merkle_next sha [a] = [hash_pair sha a a]"
| "merkle_next sha (a # b # row) = hash_pair sha a b # merkle_next sha row"

lemma length_merkle_next [simp]: "length (merkle_next sha row) = (length row + 1) div 2"
  by (induction sha row rule: merkle_next.induct) simp_all

function merkle_rounds :: "hasher \<Rightarrow> uint256 list \<Rightarrow> uint256" where
  "merkle_rounds sha row =
     (if 1 < length row then merkle_rounds sha (merkle_next sha row) else row ! 0)"
  by pat_completeness auto
termination
  by (relation "measure (\<lambda>(sha, row). length row)") auto

declare merkle_rounds.simps [simp del]

definition computeMerkleRootFromHashes :: "hasher \<Rightarrow> uint256 list \<Rightarrow> uint256" where
  "computeMerkleRootFromHashes sha hashes =
     (if hashes = [] then uint256_zero else merkle_rounds sha hashes)"

definition computeMerkleRoot :: "hasher \<Rightarrow> Transaction list \<Rightarrow> uint256" where
  "computeMerkleRoot sha txs =
     (if txs = [] then uint256_zero else computeMerkleRootFromHashes sha (map (txid sha) txs))"

lemma merkle_rounds_single [simp]: "merkle_rounds sha [a] = a"
  by (subst merkle_rounds.simps) simp

lemma merkle_rounds_step:
  "1 < length row \<Longrightarrow> merkle_rounds sha row = merkle_rounds sha (merkle_next sha row)"
  by (subst merkle_rounds.simps) simp


section \<open>A root binds the row\<close>

text \<open>The pairs one round hashes, and those all rounds hash.\<close>

fun row_pairs :: "uint256 list \<Rightarrow> (uint256 \<times> uint256) list" where
  "row_pairs [] = []"
| "row_pairs [a] = [(a, a)]"
| "row_pairs (a # b # row) = (a, b) # row_pairs row"

function tree_pairs :: "hasher \<Rightarrow> uint256 list \<Rightarrow> (uint256 \<times> uint256) list" where
  "tree_pairs sha row =
     (if 1 < length row then row_pairs row @ tree_pairs sha (merkle_next sha row) else [])"
  by pat_completeness auto
termination
  by (relation "measure (\<lambda>(sha, row). length row)") auto

declare tree_pairs.simps [simp del]

text \<open>The double hash does not collide on the pairs in \<open>ps\<close>.\<close>

definition collision_free :: "hasher \<Rightarrow> (uint256 \<times> uint256) set \<Rightarrow> bool" where
  "collision_free sha ps \<longleftrightarrow> inj_on (\<lambda>(a, b). hash_pair sha a b) ps"

lemma collision_freeD:
  "collision_free sha ps \<Longrightarrow> (a, b) \<in> ps \<Longrightarrow> (c, d) \<in> ps \<Longrightarrow>
     hash_pair sha a b = hash_pair sha c d \<Longrightarrow> a = c \<and> b = d"
  using inj_onD [of "\<lambda>(a, b). hash_pair sha a b" ps "(a, b)" "(c, d)"]
  by (simp add: collision_free_def)

lemma collision_free_mono: "collision_free sha ps \<Longrightarrow> qs \<subseteq> ps \<Longrightarrow> collision_free sha qs"
  by (auto simp: collision_free_def intro: inj_on_subset)

lemma merkle_next_binds:
  "length xs = length ys \<Longrightarrow> merkle_next sha xs = merkle_next sha ys \<Longrightarrow>
     collision_free sha (set (row_pairs xs) \<union> set (row_pairs ys)) \<Longrightarrow> xs = ys"
proof (induction sha xs arbitrary: ys rule: merkle_next.induct)
  case (1 sha)
  then show ?case by simp
next
  case (2 sha a)
  then obtain c where "ys = [c]" by (cases ys) auto
  with 2 show ?case by (auto dest: collision_freeD)
next
  case (3 sha a b row)
  then obtain c d row' where ys: "ys = c # d # row'"
    by (cases ys; cases "tl ys") auto
  from 3(4) have "collision_free sha (set (row_pairs row) \<union> set (row_pairs row'))"
    by (rule collision_free_mono) (auto simp: ys)
  with 3 ys have "row = row'" by simp
  moreover have "a = c \<and> b = d"
    using 3(3) by (intro collision_freeD [OF 3(4)]) (auto simp: ys)
  ultimately show ?case using ys by simp
qed

lemma merkle_rounds_binds:
  "xs \<noteq> [] \<Longrightarrow> length xs = length ys \<Longrightarrow> merkle_rounds sha xs = merkle_rounds sha ys \<Longrightarrow>
     collision_free sha (set (tree_pairs sha xs) \<union> set (tree_pairs sha ys)) \<Longrightarrow> xs = ys"
proof (induction "length xs" arbitrary: xs ys rule: less_induct)
  case less
  show ?case
  proof (cases "1 < length xs")
    case False
    with less.prems obtain a b where "xs = [a]" "ys = [b]"
      by (cases xs; cases ys) auto
    with less.prems show ?thesis by simp
  next
    case True
    then have tp: "set (tree_pairs sha zs) = set (row_pairs zs) \<union> set (tree_pairs sha (merkle_next sha zs))"
      if "zs = xs \<or> zs = ys" for zs
      using that less.prems(2) by (subst tree_pairs.simps) auto
    have "merkle_next sha xs = merkle_next sha ys"
    proof (rule less.hyps)
      show "length (merkle_next sha xs) < length xs" using True by simp
      show "merkle_next sha xs \<noteq> []" using True by (simp flip: length_greater_0_conv)
      show "length (merkle_next sha xs) = length (merkle_next sha ys)"
        using less.prems(2) by simp
      show "merkle_rounds sha (merkle_next sha xs) = merkle_rounds sha (merkle_next sha ys)"
        using less.prems True by (simp flip: merkle_rounds_step)
      show "collision_free sha (set (tree_pairs sha (merkle_next sha xs))
          \<union> set (tree_pairs sha (merkle_next sha ys)))"
        by (rule collision_free_mono [OF less.prems(4)]) (auto simp: tp)
    qed
    then show ?thesis
      by (rule merkle_next_binds [OF less.prems(2)])
        (rule collision_free_mono [OF less.prems(4)], auto simp: tp)
  qed
qed

lemma merkle_next_append:
  "even (length xs) \<Longrightarrow> merkle_next sha (xs @ ys) = merkle_next sha xs @ merkle_next sha ys"
  by (induction sha xs rule: merkle_next.induct) simp_all

text \<open>A perfect tree over \<open>2 ^ k\<close> leaves: the specification the loop is compared with.\<close>

fun merkle_tree :: "hasher \<Rightarrow> nat \<Rightarrow> uint256 list \<Rightarrow> uint256" where
  "merkle_tree sha 0 row = row ! 0"
| "merkle_tree sha (Suc k) row =
     hash_pair sha (merkle_tree sha k (take (2 ^ k) row)) (merkle_tree sha k (drop (2 ^ k) row))"

lemma merkle_rounds_halves:
  "length xs = 2 ^ k \<Longrightarrow> length ys = 2 ^ k \<Longrightarrow>
     merkle_rounds sha (xs @ ys) = hash_pair sha (merkle_rounds sha xs) (merkle_rounds sha ys)"
proof (induction k arbitrary: xs ys)
  case 0
  then obtain a b where "xs = [a]" "ys = [b]"
    by (auto simp: length_Suc_conv)
  then show ?case by (simp add: merkle_rounds_step)
next
  case (Suc k)
  have "merkle_rounds sha (xs @ ys) = merkle_rounds sha (merkle_next sha xs @ merkle_next sha ys)"
  proof (subst merkle_rounds_step)
    show "1 < length (xs @ ys)"
      using Suc.prems less_exp [of "Suc k"] by simp
  qed (use Suc.prems in \<open>simp add: merkle_next_append\<close>)
  also have "\<dots> = hash_pair sha (merkle_rounds sha (merkle_next sha xs)) (merkle_rounds sha (merkle_next sha ys))"
    using Suc.prems by (intro Suc.IH) auto
  also have "\<dots> = hash_pair sha (merkle_rounds sha xs) (merkle_rounds sha ys)"
  proof -
    have "1 < (2 :: nat) ^ Suc k" by (rule one_less_power) simp_all
    then show ?thesis
      using Suc.prems merkle_rounds_step [of xs sha] merkle_rounds_step [of ys sha] by simp
  qed
  finally show ?case .
qed

lemma merkle_rounds_tree: "length row = 2 ^ k \<Longrightarrow> merkle_rounds sha row = merkle_tree sha k row"
proof (induction k arbitrary: row)
  case 0
  then show ?case by (auto simp: length_Suc_conv)
next
  case (Suc k)
  have "merkle_rounds sha (take (2 ^ k) row @ drop (2 ^ k) row)
      = hash_pair sha (merkle_rounds sha (take (2 ^ k) row)) (merkle_rounds sha (drop (2 ^ k) row))"
    using Suc.prems by (intro merkle_rounds_halves [of _ k]) auto
  then show ?case using Suc by simp
qed


section \<open>Properties\<close>

text \<open>
  C5. The Merkle root binds the transaction ids and their order: two lists of the same
  length with the same root have the same ids, as long as the double hash does not collide
  on the pairs the two trees hash.
\<close>

theorem merkle_root_binds:
  assumes "length txs = length txs'"
    and "computeMerkleRoot sha txs = computeMerkleRoot sha txs'"
    and "collision_free sha (set (tree_pairs sha (map (txid sha) txs))
           \<union> set (tree_pairs sha (map (txid sha) txs')))"
  shows "map (txid sha) txs = map (txid sha) txs'"
proof (cases "txs = []")
  case True
  then show ?thesis using assms(1) by simp
next
  case False
  then have "txs' \<noteq> []" using assms(1) by auto
  with False assms(2)
  have "merkle_rounds sha (map (txid sha) txs) = merkle_rounds sha (map (txid sha) txs')"
    by (simp add: computeMerkleRoot_def computeMerkleRootFromHashes_def)
  then show ?thesis
    by (intro merkle_rounds_binds [OF _ _ _ assms(3)]) (simp_all add: False assms(1))
qed

theorem merkle_root_binds_witness:
  "let sha = (\<lambda>_. uint256_zero) in
   map (txid sha) [sample_tx, sample_tx] = map (txid sha) [sample_tx, sample_tx\<lparr>lock_time := 3\<rparr>]"
proof -
  let ?sha = "\<lambda>_. uint256_zero"
  let ?a = "[sample_tx, sample_tx]"
  let ?b = "[sample_tx, sample_tx\<lparr>lock_time := 3\<rparr>]"
  have t: "map (txid ?sha) ?a = [uint256_zero, uint256_zero]"
      "map (txid ?sha) ?b = [uint256_zero, uint256_zero]"
    by (simp_all add: txid_fresh sample_tx_def shawncoin_sha256d_def)
  have p: "tree_pairs ?sha [uint256_zero, uint256_zero] = [(uint256_zero, uint256_zero)]"
    by (subst tree_pairs.simps, simp, subst tree_pairs.simps, simp)
  have "computeMerkleRoot ?sha ?a = computeMerkleRoot ?sha ?b"
    unfolding computeMerkleRoot_def t by simp
  then show ?thesis
    unfolding Let_def
    by (intro merkle_root_binds) (unfold t p, simp_all add: collision_free_def)
qed

text \<open>
  On \<open>2 ^ k\<close> leaves the round-by-round loop computes the perfect binary hash tree.
\<close>

theorem merkle_loop_is_tree:
  "length row = 2 ^ k \<Longrightarrow> computeMerkleRootFromHashes sha row = merkle_tree sha k row"
  by (auto simp: computeMerkleRootFromHashes_def merkle_rounds_tree)

theorem merkle_loop_is_tree_witness:
  "computeMerkleRootFromHashes (\<lambda>_. uint256_zero) [uint256_zero, uint256_zero] =
     merkle_tree (\<lambda>_. uint256_zero) 1 [uint256_zero, uint256_zero]"
  by (rule merkle_loop_is_tree) simp

text \<open>
  The duplication of the last element is not recorded in the root: a list whose length
  is odd and at least 3 has the same root as that list with its last transaction repeated.
  A block and its copy with a repeated last transaction have the same hash.
\<close>

theorem merkle_duplicate_last:
  assumes "txs \<noteq> []" "even (length txs)"
  shows "computeMerkleRoot sha (txs @ [tx, tx]) = computeMerkleRoot sha (txs @ [tx])"
proof -
  have "1 < length txs" using assms by (cases txs; cases "tl txs") auto
  then show ?thesis
    using assms
    by (simp add: computeMerkleRoot_def computeMerkleRootFromHashes_def merkle_rounds_step
        merkle_next_append)
qed

theorem merkle_duplicate_last_witness:
  "computeMerkleRoot const_sha [sample_tx, sample_tx, sample_tx, sample_tx] =
   computeMerkleRoot const_sha [sample_tx, sample_tx, sample_tx]"
  using merkle_duplicate_last [of "[sample_tx, sample_tx]" const_sha sample_tx] by simp

end
