(* ===== verification/Subsidy.thy ===== *)
theory Subsidy
  imports CoreTypes
begin

text \<open>
  The issue schedule of \<^verbatim>\<open>src/core/types.hpp\<close>: the block subsidy, its halvings, and the
  total supply, as the code computes them on 64-bit integers. \<^verbatim>\<open>getTotalSupplyUpTo\<close> loops
  while \<open>h \<le> height\<close>, which is always true when \<open>height\<close> is the largest \<^verbatim>\<open>uint64_t\<close>; the loop
  is a partial function, and \<open>None\<close> is that it never returns.
\<close>

definition COIN :: u64 where "COIN = 100000000"
definition MAX_MONEY :: u64 where "MAX_MONEY = 12000000 * COIN"
definition BLOCK_TIME_TARGET :: u32 where "BLOCK_TIME_TARGET = 600"
definition DIFFICULTY_INTERVAL :: u32 where "DIFFICULTY_INTERVAL = 2016"
definition SUBSIDY_HALVING_INTERVAL :: u64 where "SUBSIDY_HALVING_INTERVAL = 210000"
definition INITIAL_BLOCK_SUBSIDY :: u64 where "INITIAL_BLOCK_SUBSIDY = 25 * COIN"
definition P2P_PORT :: u16 where "P2P_PORT = 7333"
definition RPC_PORT :: u16 where "RPC_PORT = 7332"
definition PROTOCOL_MAGIC :: u32 where "PROTOCOL_MAGIC = 0x53484157"

lemmas coin_params =
  COIN_def MAX_MONEY_def SUBSIDY_HALVING_INTERVAL_def INITIAL_BLOCK_SUBSIDY_def

definition getBlockSubsidy :: "u64 \<Rightarrow> u64" where
  "getBlockSubsidy height =
     (let halvings = height div SUBSIDY_HALVING_INTERVAL
      in if 32 \<le> halvings then 0
         else let subsidy = drop_bit (unat halvings) INITIAL_BLOCK_SUBSIDY in subsidy)"

partial_function (option) supply_loop :: "u64 \<Rightarrow> u64 \<Rightarrow> u64 \<Rightarrow> u64 option" where
  "supply_loop height h tot =
     (if h \<le> height then supply_loop height (h + 1) (tot + getBlockSubsidy h)
      else Some tot)"

definition getTotalSupplyUpTo :: "u64 \<Rightarrow> u64 option" where
  "getTotalSupplyUpTo height = supply_loop height 0 0"


section \<open>The schedule on natural numbers\<close>

definition subsidy_at :: "nat \<Rightarrow> nat" where
  "subsidy_at h = (if h div 210000 < 32 then 2500000000 div 2 ^ (h div 210000) else 0)"

definition supply_before :: "nat \<Rightarrow> nat" where
  "supply_before n = (\<Sum>h<n. subsidy_at h)"

lemma unat_getBlockSubsidy: "unat (getBlockSubsidy height) = subsidy_at (unat height)"
proof -
  have q: "unat (height div SUBSIDY_HALVING_INTERVAL) = unat height div 210000"
    by (simp add: SUBSIDY_HALVING_INTERVAL_def unat_div)
  have s: "32 \<le> height div SUBSIDY_HALVING_INTERVAL \<longleftrightarrow> 32 \<le> unat height div 210000"
    by (simp add: word_le_nat_alt q)
  have i: "unat INITIAL_BLOCK_SUBSIDY = 2500000000"
    by (simp add: coin_params)
  show ?thesis
    using unat_drop_bit_div [of "unat height div 210000" INITIAL_BLOCK_SUBSIDY]
    by (auto simp: getBlockSubsidy_def subsidy_at_def Let_def s q i simp del: drop_bit_eq_div)
qed

lemma subsidy_at_le: "subsidy_at h \<le> 2500000000"
  by (simp add: subsidy_at_def div_le_dividend)

lemma subsidy_at_0: "6720000 \<le> h \<Longrightarrow> subsidy_at h = 0"
  by (simp add: subsidy_at_def div_le_mono)

lemma supply_before_Suc: "supply_before (Suc n) = supply_before n + subsidy_at n"
  by (simp add: supply_before_def)

lemma supply_before_mono: "m \<le> n \<Longrightarrow> supply_before m \<le> supply_before n"
  unfolding supply_before_def by (rule sum_mono2) auto

text \<open>One halving interval issues 210000 equal subsidies.\<close>

lemma supply_interval:
  "k < 32 \<Longrightarrow> supply_before (210000 * Suc k) = supply_before (210000 * k) + 210000 * (2500000000 div 2 ^ k)"
proof -
  assume k: "k < 32"
  have "supply_before (210000 * k + r) = supply_before (210000 * k) + r * (2500000000 div 2 ^ k)"
    if "r \<le> 210000" for r
    using that
  proof (induction r)
    case 0
    then show ?case by simp
  next
    case (Suc r)
    then have "(210000 * k + r) div 210000 = k" by simp
    then have "subsidy_at (210000 * k + r) = 2500000000 div 2 ^ k"
      using k by (simp only: subsidy_at_def if_True)
    with Suc show ?case by (simp add: supply_before_Suc)
  qed
  from this [of 210000] show ?thesis by (simp add: algebra_simps)
qed

lemma supply_intervals:
  "k \<le> 32 \<Longrightarrow> supply_before (210000 * k) = sum_list (map (\<lambda>i. 210000 * (2500000000 div 2 ^ i)) [0..<k])"
proof (induction k)
  case 0
  then show ?case by (simp add: supply_before_def)
next
  case (Suc k)
  then show ?case using supply_interval [of k] by simp
qed

lemma supply_max: "supply_before (210000 * 32) = 1049999997690000"
proof -
  have "supply_before (210000 * 32) = sum_list (map (\<lambda>i. 210000 * (2500000000 div 2 ^ i)) [0..<32])"
    by (rule supply_intervals) simp
  also have "\<dots> = 1049999997690000"
    by (simp add: upt_rec)
  finally show ?thesis .
qed

lemma supply_before_bound: "supply_before n \<le> 1049999997690000"
proof (cases "n \<le> 210000 * 32")
  case True
  then show ?thesis using supply_before_mono [of n "210000 * 32"] unfolding supply_max by simp
next
  case False
  then have "210000 * 32 \<le> n" by simp
  then have "supply_before n = supply_before (210000 * 32)"
    by (induction n rule: nat_induct_at_least) (simp_all add: supply_before_Suc subsidy_at_0)
  then show ?thesis unfolding supply_max by simp
qed


section \<open>The loop returns the sum, unless it never returns\<close>

lemma supply_loop_sum:
  assumes "unat height < 2 ^ 64 - 1" "unat h \<le> Suc (unat height)"
    and "unat tot = supply_before (unat h)"
  shows "\<exists>t. supply_loop height h tot = Some t \<and> unat t = supply_before (Suc (unat height))"
  using assms(2,3)
proof (induction "Suc (unat height) - unat h" arbitrary: h tot)
  case 0
  then have "\<not> h \<le> height" "unat h = Suc (unat height)"
    by (simp_all add: word_le_nat_alt)
  with 0 show ?case by (subst supply_loop.simps) simp
next
  case (Suc n)
  then have le: "h \<le> height" by (simp add: word_le_nat_alt)
  have h1: "unat (h + 1) = Suc (unat h)"
    using Suc.hyps(2) assms(1) by (simp add: unat_word_ariths)
  have "unat (tot + getBlockSubsidy h) = supply_before (unat (h + 1))"
    using Suc.prems supply_before_bound [of "Suc (unat h)"]
    unfolding h1 supply_before_Suc by (simp add: unat_word_ariths unat_getBlockSubsidy)
  moreover have "n = Suc (unat height) - unat (h + 1)" "unat (h + 1) \<le> Suc (unat height)"
    using Suc.hyps(2) le by (simp_all add: h1 word_le_nat_alt)
  ultimately obtain t where "supply_loop height (h + 1) (tot + getBlockSubsidy h) = Some t"
    "unat t = supply_before (Suc (unat height))"
    using Suc.hyps(1) by blast
  with le show ?case by (subst supply_loop.simps) simp
qed

lemma supply_loop_returns: "supply_loop height h tot = Some t \<Longrightarrow> height \<noteq> - 1"
proof (rule supply_loop.raw_induct [where P = "\<lambda>height h tot t. height \<noteq> - 1"])
  fix loop :: "u64 \<Rightarrow> u64 \<Rightarrow> u64 \<Rightarrow> u64 option" and height h tot t
  assume IH: "\<And>height h tot t. loop height h tot = Some t \<Longrightarrow> height \<noteq> - 1"
    and eq: "(if h \<le> height then loop height (h + 1) (tot + getBlockSubsidy h) else Some tot) = Some t"
  show "height \<noteq> - 1"
    using eq IH [of height "h + 1" "tot + getBlockSubsidy h" t] by (auto split: if_splits)
qed

lemma getTotalSupplyUpTo_eq:
  assumes "height \<noteq> - 1"
  shows "\<exists>t. getTotalSupplyUpTo height = Some t \<and> unat t = supply_before (Suc (unat height))"
proof -
  have "unat height \<noteq> unat (- 1 :: u64)"
    using assms by (simp only: word_unat_eq_iff [symmetric] not_False_eq_True)
  moreover have "unat (- 1 :: u64) = 2 ^ 64 - 1"
    by (simp add: unsigned_minus_1_eq_mask mask_eq_exp_minus_1)
  ultimately have "unat height < 2 ^ 64 - 1"
    using unsigned_less [of height, where 'a = nat] by simp
  from supply_loop_sum [OF this, of 0 0] show ?thesis
    by (simp add: getTotalSupplyUpTo_def supply_before_def)
qed

lemma supply_before_subsidies:
  "supply_before (Suc (unat height)) = (\<Sum>h \<le> unat height. unat (getBlockSubsidy (word_of_nat h)))"
  for height :: u64
  unfolding supply_before_def lessThan_Suc_atMost
  using unsigned_less [of height, where 'a = nat]
  by (intro sum.cong) (auto simp: unat_getBlockSubsidy unat_of_nat)


section \<open>Properties\<close>

text \<open>
  C40. \<^verbatim>\<open>getTotalSupplyUpTo\<close> returns for every height but the largest \<^verbatim>\<open>uint64_t\<close>, for which its
  loop never ends; where it returns, the 64-bit total is the exact sum of the subsidies
  of blocks 0 to \<open>height\<close>: nothing wraps around.
\<close>

theorem total_supply_exact:
  "getTotalSupplyUpTo height =
     (if height = - 1 then None
      else Some (word_of_nat (\<Sum>h \<le> unat height. unat (getBlockSubsidy (word_of_nat h)))))
   \<and> (\<Sum>h \<le> unat height. unat (getBlockSubsidy (word_of_nat h))) < 2 ^ 64"
proof -
  have "(\<Sum>h \<le> unat height. unat (getBlockSubsidy (word_of_nat h))) < 2 ^ 64"
    using supply_before_bound [of "Suc (unat height)"] by (simp flip: supply_before_subsidies)
  moreover have "getTotalSupplyUpTo (- 1) = None"
    using supply_loop_returns [of "- 1" 0 0]
    by (cases "supply_loop (- 1) 0 0") (auto simp: getTotalSupplyUpTo_def)
  moreover have "getTotalSupplyUpTo height =
      Some (word_of_nat (\<Sum>h \<le> unat height. unat (getBlockSubsidy (word_of_nat h))))"
    if "height \<noteq> - 1"
    using getTotalSupplyUpTo_eq [OF that] supply_before_subsidies [of height]
    by (metis of_nat_unat ucast_id)
  ultimately show ?thesis by simp
qed

text \<open>
  No more than 1049999997690000 satoshis (10,499,999.9769 SHWN) are ever issued, the
  bound is reached at height 6719999, and it is below \<^verbatim>\<open>MAX_MONEY\<close>: the supply is capped at
  10.5 million SHWN, not at the 12 million the documents state.
\<close>

theorem supply_cap:
  "(case getTotalSupplyUpTo height of None \<Rightarrow> height = - 1 | Some t \<Rightarrow> t \<le> 1049999997690000)
   \<and> getTotalSupplyUpTo 6719999 = Some 1049999997690000
   \<and> (1049999997690000 :: u64) < MAX_MONEY"
proof -
  have "t \<le> 1049999997690000" if t: "getTotalSupplyUpTo height = Some t" for t
  proof -
    have "height \<noteq> - 1"
      using t unfolding getTotalSupplyUpTo_def by (rule supply_loop_returns)
    then have "unat t = supply_before (Suc (unat height))"
      using getTotalSupplyUpTo_eq [of height] t by simp
    then show ?thesis
      using supply_before_bound [of "Suc (unat height)"] by (simp add: word_le_nat_alt)
  qed
  moreover have "getTotalSupplyUpTo 6719999 = Some 1049999997690000"
  proof -
    obtain t where t: "getTotalSupplyUpTo 6719999 = Some t" "unat t = supply_before 6720000"
      using getTotalSupplyUpTo_eq [of 6719999] by auto
    then have "unat t = unat (1049999997690000 :: u64)"
      using supply_max by simp
    then have "t = 1049999997690000" by (simp only: word_unat_eq_iff)
    then show ?thesis using t(1) by simp
  qed
  moreover have "(1049999997690000 :: u64) < MAX_MONEY"
    by (simp add: coin_params)
  ultimately show ?thesis
    using getTotalSupplyUpTo_eq [of height] by (cases "height = - 1") (auto split: option.splits)
qed

end
