(* ===== verification/Blocks.thy ===== *)
theory Blocks
  imports Merkle Subsidy
begin

text \<open>
  \<^verbatim>\<open>src/core/block.cpp\<close>: the wire format of a block and the genesis block. The copies of the
  integer writers in that file are \<open>block_writeU32\<close>, \<open>block_writeU64\<close>, \<open>block_writeVarInt\<close>;
  the inlined count reader of \<^verbatim>\<open>deserializeBlock\<close> is the same text as \<open>readVarInt\<close>.
\<close>

definition serializeBlock :: "Block \<Rightarrow> bytes" where
  "serializeBlock b =
     (let h = header b;
          out = [];
          out = block_writeU32 out (hdr_version h);
          out = out @ bytes_of (previous_hash h);
          out = out @ bytes_of (merkle_root h);
          out = block_writeU64 out (timestamp h);
          out = block_writeU32 out (difficulty_target h);
          out = block_writeU32 out (nonce h);
          out = block_writeVarInt out (length (transactions b))
      in fold serializeTransaction (transactions b) out)"

definition read_header :: "bytes \<Rightarrow> (BlockHeader \<times> bytes) option" where
  "read_header bs = do {
     (v, bs) \<leftarrow> readU32 bs;
     (prev, bs) \<leftarrow> readUint256 bs;
     (root, bs) \<leftarrow> readUint256 bs;
     (ts, bs) \<leftarrow> readU64 bs;
     (d, bs) \<leftarrow> readU32 bs;
     (n, bs) \<leftarrow> readU32 bs;
     Some (\<lparr>hdr_version = v, previous_hash = prev, merkle_root = root, timestamp = ts,
            difficulty_target = d, nonce = n\<rparr>, bs) }"

text \<open>Bytes behind the last transaction are not looked at: the caller gets the block only.\<close>

definition deserializeBlock :: "bytes \<Rightarrow> Block option" where
  "deserializeBlock bs =
     (if length bs < 80 then None
      else do {
        (h, bs) \<leftarrow> read_header bs;
        (nTx, bs) \<leftarrow> readVarInt bs;
        (txs, bs) \<leftarrow> read_n deserializeTransaction nTx bs;
        Some \<lparr>header = h, transactions = txs\<rparr> })"

definition genesis_msg :: bytes where
  "genesis_msg = map of_char ''Shawn Coin - The Future of Digital Currency 2026''"

definition genesis_coinbase :: Transaction where
  "genesis_coinbase = \<lparr>
     tx_version = 1,
     inputs = [\<lparr>prev_tx_hash = uint256_zero, output_index = 0xffffffff,
                signature = genesis_msg, pubkey = []\<rparr>],
     outputs = [\<lparr>amount = getBlockSubsidy 0,
                 script_pubkey = [0x76, 0xa9, 0x14] @ replicate 20 0 @ [0x88] @ [0xac]\<rparr>],
     lock_time = 0,
     cached_txid = None\<rparr>"

text \<open>Computing the Merkle root leaves the ids of the transactions cached.\<close>

definition makeGenesisBlock :: "hasher \<Rightarrow> Block" where
  "makeGenesisBlock sha =
     (let txs = [genesis_coinbase]
      in \<lparr>header = \<lparr>hdr_version = 1, previous_hash = uint256_zero,
                    merkle_root = computeMerkleRoot sha txs,
                    timestamp = 1704067200, difficulty_target = 0x1d00ffff, nonce = 0\<rparr>,
          transactions = map (memo_txid sha) txs\<rparr>)"


section \<open>Encodings\<close>

definition enc_header :: "BlockHeader \<Rightarrow> bytes" where
  "enc_header h = le_bytes 4 (unat (hdr_version h)) @ bytes_of (previous_hash h)
     @ bytes_of (merkle_root h) @ le_bytes 8 (unat (timestamp h))
     @ le_bytes 4 (unat (difficulty_target h)) @ le_bytes 4 (unat (nonce h))"

definition enc_block :: "Block \<Rightarrow> bytes" where
  "enc_block b = enc_header (header b) @ varint_bytes (length (transactions b))
     @ concat (map enc_tx (transactions b))"

lemma serializeBlock_enc: "serializeBlock b = enc_block b"
proof -
  have "fold serializeTransaction xs out = out @ concat (map enc_tx xs)" for xs out
    by (rule fold_append_concat) (rule serializeTransaction_enc)
  then show ?thesis
    by (simp add: serializeBlock_def writer_copies_agree codec_simps enc_block_def enc_header_def
        Let_def)
qed

lemma reader_header [reader_intro]: "reader read_header"
  unfolding read_header_def by (intro reader_intro)

interpretation header_codec: codec read_header enc_header "\<lambda>_. True"
proof (intro codec.intro reader_header codec_axioms.intro)
  show "read_header (enc_header h @ rest) = Some (h, rest)" for h rest
    by (cases h) (simp add: read_header_def enc_header_def codec_rt)
qed

lemma length_enc_header [simp]: "length (enc_header h) = 84"
  by (simp add: enc_header_def)

definition block_ok :: "Block \<Rightarrow> bool" where
  "block_ok b \<longleftrightarrow> list_all tx_ok (transactions b) \<and> length (transactions b) < 2 ^ 31"

text \<open>The block as it comes back from its bytes: no id is cached in its transactions.\<close>

definition forget_ids :: "Block \<Rightarrow> Block" where
  "forget_ids b = b\<lparr>transactions := map (\<lambda>tx. tx\<lparr>cached_txid := None\<rparr>) (transactions b)\<rparr>"

lemma forget_ids_simps [simp]:
  "header (forget_ids b) = header b"
  "length (transactions (forget_ids b)) = length (transactions b)"
  "forget_ids (forget_ids b) = forget_ids b"
  by (simp_all add: forget_ids_def)

lemma tx_ok_forget [simp]: "tx_ok (tx\<lparr>cached_txid := c\<rparr>) = tx_ok tx"
  by (simp add: tx_ok_def)

lemma enc_tx_forget [simp]: "enc_tx (tx\<lparr>cached_txid := c\<rparr>) = enc_tx tx"
  by (simp add: enc_tx_def)

lemma enc_block_forget: "enc_block (forget_ids b) = enc_block b"
  by (simp add: enc_block_def forget_ids_def comp_def)

lemma block_ok_forget [simp]: "block_ok (forget_ids b) = block_ok b"
  by (simp add: block_ok_def forget_ids_def list_all_iff)

lemma deserializeBlock_enc:
  assumes "block_ok b"
  shows "deserializeBlock (enc_block b @ junk) = Some (forget_ids b)"
proof -
  have "\<forall>tx \<in> set (transactions (forget_ids b)). tx_ok tx \<and> cached_txid tx = None"
    using assms by (auto simp: block_ok_def forget_ids_def list_all_iff)
  then show ?thesis
    using assms unfolding enc_block_forget [of b, symmetric]
    by (simp add: block_ok_def deserializeBlock_def enc_block_def header_codec.dec_enc
      varint_codec.dec_enc tx_codec.read_n_enc [where xs = "transactions (forget_ids b)", simplified])
qed

lemma forget_genesis:
  "forget_ids (makeGenesisBlock sha) = (makeGenesisBlock sha)\<lparr>transactions := [genesis_coinbase]\<rparr>"
  by (simp add: forget_ids_def makeGenesisBlock_def getTxid_def genesis_coinbase_def Let_def)

lemma genesis_ok: "block_ok (makeGenesisBlock sha)"
  unfolding block_ok_forget [of "makeGenesisBlock sha", symmetric] forget_genesis
  by (simp add: block_ok_def genesis_coinbase_def genesis_msg_def tx_ok_def input_ok_def
      output_ok_def)


section \<open>Properties\<close>



text \<open>
  A serialized block cut short anywhere is rejected.
\<close>

theorem block_truncated:
  assumes "block_ok b" "k < length (serializeBlock b)"
  shows "deserializeBlock (take k (serializeBlock b)) = None"
proof (rule ccontr)
  let ?p = "take k (serializeBlock b)"
  assume "deserializeBlock ?p \<noteq> None"
  then obtain h r1 n r2 txs r3 where d: "read_header ?p = Some (h, r1)" "readVarInt r1 = Some (n, r2)"
    "read_n deserializeTransaction n r2 = Some (txs, r3)"
    by (auto simp: deserializeBlock_def bind_eq_Some_conv split: if_splits)
  let ?q = "drop k (serializeBlock b)"
  have "read_header (enc_block b) = Some (h, r1 @ ?q)"
    using header_codec.dec_extend [OF d(1), of ?q] by (simp flip: serializeBlock_enc)
  then have r1: "r1 @ ?q = varint_bytes (length (transactions b)) @ concat (map enc_tx (transactions b))"
    by (simp add: enc_block_def header_codec.dec_enc)
  have "readVarInt (r1 @ ?q) = Some (n, r2 @ ?q)"
    using d(2) by (rule varint_codec.dec_extend)
  then have r2: "n = length (transactions b)" "r2 @ ?q = concat (map enc_tx (transactions b))"
    using assms(1) unfolding r1 by (simp_all add: varint_codec.dec_enc block_ok_def)
  have "read_n deserializeTransaction n (r2 @ ?q) = Some (txs, r3 @ ?q)"
    using d(3) by (rule tx_codec.read_n_extend)
  then have "r3 @ ?q = []"
    using tx_codec.read_n_enc [of "transactions (forget_ids b)" "[]"] assms(1) unfolding r2
    by (auto simp: block_ok_def forget_ids_def list_all_iff comp_def)
  with assms(2) show False by simp
qed

theorem block_truncated_witness:
  "deserializeBlock (take 83 (serializeBlock (makeGenesisBlock const_sha))) = None"
  by (rule block_truncated [OF genesis_ok]) (simp add: serializeBlock_enc enc_block_def)

end
