(* ===== verification/Pow.thy ===== *)
theory Pow
  imports Blocks
begin

text \<open>
  Proof of work: the check of \<^verbatim>\<open>src/core/consensus.cpp\<close> (\<^verbatim>\<open>checkProofOfWork\<close>) and the search
  of \<^verbatim>\<open>src/mining/miner.cpp\<close> (\<^verbatim>\<open>Miner::mineBlock\<close>). Both decode the compact target in the
  same way (\<open>compact_target\<close>), each has its own comparison loop, and the check builds its
  80-byte buffer differently from \<^verbatim>\<open>Block::getHeaderHash\<close>.
\<close>

definition INITIAL_DIFFICULTY :: u32 where "INITIAL_DIFFICULTY = 0x1d00ffff"
definition EASY_MINE_DIFFICULTY :: u32 where "EASY_MINE_DIFFICULTY = 0x0400ffff"

definition memcpy_at :: "bytes \<Rightarrow> nat \<Rightarrow> bytes \<Rightarrow> bytes" where
  "memcpy_at buf pos src = take pos buf @ src @ drop (pos + length src) buf"

text \<open>The compact form: the top byte is a size, the low 23 bits a mantissa.\<close>

definition compact_target :: "u32 \<Rightarrow> bytes" where
  "compact_target compact =
     (let nSize = int (unat (drop_bit 24 compact));
          nWord = compact AND 0x007fffff;
          target = replicate 32 0
      in if nSize \<le> 3 then
           let nWord = drop_bit (8 * (3 - nat nSize)) nWord
           in target[31 := ucast (nWord AND 0xff), 30 := ucast (drop_bit 8 nWord AND 0xff),
                     29 := ucast (drop_bit 16 nWord AND 0xff)]
         else
           let shift = 8 * (nSize - 3);
               bytePos = 32 - shift div 8 - 1
           in if 0 \<le> bytePos then
                let target = target[nat bytePos := ucast (nWord AND 0xff)];
                    target = (if 0 < bytePos
                      then target[nat bytePos - 1 := ucast (drop_bit 8 nWord AND 0xff)] else target);
                    target = (if 1 < bytePos
                      then target[nat bytePos - 2 := ucast (drop_bit 16 nWord AND 0xff)] else target)
                in target
              else target)"

text \<open>The bytes \<^verbatim>\<open>checkProofOfWork\<close> hashes: the difficulty overwrites half of the timestamp.\<close>

definition pow_buf :: "BlockHeader \<Rightarrow> bytes" where
  "pow_buf h =
     (let buf = replicate 80 0;
          buf = memcpy_at buf 0 (le_bytes 4 (unat (hdr_version h)));
          buf = memcpy_at buf 4 (bytes_of (previous_hash h));
          buf = memcpy_at buf 36 (bytes_of (merkle_root h));
          buf = fold (\<lambda>i buf. buf[68 + i := ucast (drop_bit (i * 8) (timestamp h) AND 0xff)]) [0..<8] buf;
          buf = memcpy_at buf 72 (le_bytes 4 (unat (difficulty_target h)))
      in memcpy_at buf 76 (le_bytes 4 (unat (nonce h))))"

text \<open>The comparison loops, from byte \<open>i - 1\<close> down to byte 0.\<close>

fun pow_cmp :: "bytes \<Rightarrow> bytes \<Rightarrow> nat \<Rightarrow> bool" where
  "pow_cmp h target 0 = True"
| "pow_cmp h target (Suc i) =
     (if h ! i < target ! i then True
      else if target ! i < h ! i then False
      else pow_cmp h target i)"

fun mine_cmp :: "bytes \<Rightarrow> bytes \<Rightarrow> nat \<Rightarrow> bool \<Rightarrow> bool" where
  "mine_cmp h target 0 ok = ok"
| "mine_cmp h target (Suc i) ok =
     (if \<not> ok then ok
      else let ok = (if target ! i < h ! i then False else ok)
           in if h ! i < target ! i then ok else mine_cmp h target i ok)"

definition checkProofOfWork :: "hasher \<Rightarrow> BlockHeader \<Rightarrow> bool" where
  "checkProofOfWork sha h =
     pow_cmp (bytes_of (shawncoin_sha256d sha (pow_buf h))) (compact_target (difficulty_target h)) 32"

text \<open>The search: every nonce from 0 on, until one works or the 32-bit nonce is 0 again.\<close>

lemma nonce_measure: "n + 1 \<noteq> 0 \<Longrightarrow> 4294967296 - unat (n + 1 :: u32) < 4294967296 - unat n"
  using unsigned_less [of n, where 'a = nat] by (simp add: unat_plus_1 del: unsigned_less)

function mine_loop :: "hasher \<Rightarrow> bytes \<Rightarrow> Block \<Rightarrow> u32 \<Rightarrow> bool \<times> Block" where
  "mine_loop sha target b n =
     (let b = b\<lparr>header := (header b)\<lparr>nonce := n\<rparr>\<rparr>;
          h = bytes_of (getHeaderHash sha b)
      in if mine_cmp h target 32 True then (True, b)
         else if n + 1 \<noteq> 0 then mine_loop sha target b (n + 1)
         else (False, b))"
  by pat_completeness auto
termination
  by (relation "measure (\<lambda>(sha, target, b, n). 2 ^ 32 - unat n)")
    (auto intro: nonce_measure)

declare mine_loop.simps [simp del]

definition mineBlock :: "hasher \<Rightarrow> Block \<Rightarrow> u32 \<Rightarrow> bool \<times> Block" where
  "mineBlock sha b difficultyTarget =
     (let h = (header b)\<lparr>difficulty_target := difficultyTarget,
                merkle_root := computeMerkleRoot sha (transactions b)\<rparr>;
          b = b\<lparr>header := h, transactions := map (memo_txid sha) (transactions b)\<rparr>
      in mine_loop sha (compact_target difficultyTarget) b 0)"


section \<open>The two buffers are the same\<close>

lemma memcpy_at_append:
  "length pre = pos \<Longrightarrow> length src \<le> length rest \<Longrightarrow>
     memcpy_at (pre @ rest) pos src = (pre @ src) @ drop (length src) rest"
  by (simp add: memcpy_at_def)

lemma fold_list_update:
  "length pre = p \<Longrightarrow> length rest = n \<Longrightarrow>
     fold (\<lambda>i buf. buf[p + i := f i]) [0..<n] (pre @ rest @ suf) = pre @ map f [0..<n] @ suf"
proof -
  assume p: "length pre = p" and n: "length rest = n"
  have "fold (\<lambda>i buf. buf[p + i := f i]) [0..<k] (pre @ rest @ suf)
      = pre @ map f [0..<k] @ drop k rest @ suf" if "k \<le> n" for k
    using that
  proof (induction k)
    case 0
    then show ?case by simp
  next
    case (Suc k)
    then obtain x xs where "drop k rest = x # xs"
      using n by (metis Cons_nth_drop_Suc Suc_le_eq)
    then show ?case using Suc p
      by (simp add: list_update_append nth_via_drop) (metis drop_Suc tl_drop list.sel(3))
  qed
  from this [of n] n show ?thesis by simp
qed

lemma u64_bytes: "map (\<lambda>i. ucast (drop_bit (i * 8) (v :: u64) AND 0xff)) [0..<8] = le_bytes 8 (unat v)"
  using writeU64_le [of "[]" v] unfolding writeU64_def
  by (simp add: fold_append_concat [of _ "\<lambda>i. [ucast (drop_bit (i * 8) v AND 0xff)]"] concat_map_singleton)

lemma low_half_bytes: "take 4 (le_bytes 8 (unat (v :: u64))) = le_bytes 4 (unat (ucast v :: u32))"
proof -
  have "le_bytes 4 (unat v) = le_bytes 4 (unat (ucast v :: u32))"
  proof -
    have "(word_of_nat (unat v div 2 ^ k) :: byte) = word_of_nat (unat (ucast v :: u32) div 2 ^ k)"
      if "k \<le> 24" for k
      unfolding byte_shift [symmetric] using that
      by (intro bit_word_eqI) (auto simp: bit_simps)
    from this [of 0] this [of 8] this [of 16] this [of 24] show ?thesis
      by (simp add: le_bytes_4)
  qed
  moreover have "le_bytes (4 + 4) (unat v) = le_bytes 4 (unat v) @ le_bytes 4 (unat v div 256 ^ 4)"
    by (rule le_bytes_add)
  ultimately show ?thesis by simp
qed

lemma pow_buf_header: "pow_buf h = header_buf h"
proof -
  let ?v = "le_bytes 4 (unat (hdr_version h))"
  let ?p = "bytes_of (previous_hash h)"
  let ?m = "bytes_of (merkle_root h)"
  let ?t = "le_bytes 8 (unat (timestamp h))"
  let ?d = "le_bytes 4 (unat (difficulty_target h))"
  have b0: "replicate 80 (0 :: byte)
      = replicate 4 0 @ replicate 32 0 @ replicate 32 0 @ replicate 8 0 @ replicate 4 0"
    by (simp flip: replicate_add)
  have b3: "memcpy_at (memcpy_at (memcpy_at (replicate 80 0) 0 ?v) 4 ?p) 36 ?m
      = (?v @ ?p @ ?m) @ replicate 8 0 @ replicate 4 0"
    unfolding b0 by (simp add: memcpy_at_def)
  have b4: "fold (\<lambda>i buf. buf[68 + i := ucast (drop_bit (i * 8) (timestamp h) AND 0xff)]) [0..<8]
      ((?v @ ?p @ ?m) @ replicate 8 0 @ replicate 4 0) = (?v @ ?p @ ?m) @ ?t @ replicate 4 0"
    unfolding u64_bytes [symmetric] by (rule fold_list_update) simp_all
  have b5: "memcpy_at ((?v @ ?p @ ?m) @ ?t @ replicate 4 0) 72 ?d
      = (?v @ ?p @ ?m @ take 4 ?t @ ?d) @ replicate 4 0"
    by (simp add: memcpy_at_def)
  have b6: "memcpy_at ((?v @ ?p @ ?m @ take 4 ?t @ ?d) @ replicate 4 0) 76 xs
      = ?v @ ?p @ ?m @ take 4 ?t @ ?d @ xs" if "length xs = 4" for xs
    using that by (simp add: memcpy_at_def)
  show ?thesis
    unfolding pow_buf_def Let_def b3 b4 b5 b6 [OF length_le_bytes]
    by (simp add: header_buf_def codec_simps low_half_bytes)
qed


section \<open>What the comparison decides\<close>

lemma le_val_take_Suc:
  "i < length bs \<Longrightarrow> le_val (take (Suc i) bs) = le_val (take i bs) + 256 ^ i * unat (bs ! i)"
  by (simp add: take_Suc_conv_app_nth le_val_append)

lemma top_byte_decides:
  assumes "a < (256 :: nat) ^ i" "b < 256 ^ i" "x < y"
  shows "a + 256 ^ i * x < b + 256 ^ i * y"
proof -
  have "a + 256 ^ i * x < 256 ^ i * Suc x" using assms(1) by simp
  also have "\<dots> \<le> 256 ^ i * y" using assms(3) by (intro mult_le_mono2) simp
  finally show ?thesis by simp
qed

lemma pow_cmp_le_val:
  "i \<le> length h \<Longrightarrow> i \<le> length t \<Longrightarrow> pow_cmp h t i \<longleftrightarrow> le_val (take i h) \<le> le_val (take i t)"
proof (induction h t i rule: pow_cmp.induct)
  case (1 h t)
  then show ?case by simp
next
  case (2 h t i)
  have b: "le_val (take i h) < 256 ^ i" "le_val (take i t) < 256 ^ i"
    using le_val_bound [of "take i h"] le_val_bound [of "take i t"] 2(2,3) by (simp_all add: min_def)
  have s: "le_val (take (Suc i) h) = le_val (take i h) + 256 ^ i * unat (h ! i)"
    "le_val (take (Suc i) t) = le_val (take i t) + 256 ^ i * unat (t ! i)"
    using 2(2,3) by (simp_all add: le_val_take_Suc)
  consider "unat (h ! i) < unat (t ! i)" | "unat (t ! i) < unat (h ! i)" | "h ! i = t ! i"
    by (metis linorder_neqE_nat word_unat_eq_iff)
  then show ?case
    using 2 top_byte_decides [OF b(1) b(2)] top_byte_decides [OF b(2) b(1)] unfolding s
    by cases (fastforce simp: word_less_nat_alt)+
qed

lemma pow_cmp_pos:
  "0 < i \<Longrightarrow> pow_cmp h t i =
     (if h ! (i - 1) < t ! (i - 1) then True
      else if t ! (i - 1) < h ! (i - 1) then False else pow_cmp h t (i - 1))"
  by (cases i) simp_all

lemma mine_cmp_pow_cmp: "mine_cmp h t i True \<longleftrightarrow> pow_cmp h t i"
proof (induction h t i rule: pow_cmp.induct)
  case (2 h t i)
  have "\<not> mine_cmp h t j False" for j by (cases j) simp_all
  with 2 show ?case by (auto simp: Let_def)
qed simp

lemma length_compact_target [simp]: "length (compact_target c) = 32"
  by (simp add: compact_target_def Let_def)

lemma checkProofOfWork_le_val:
  "checkProofOfWork sha h \<longleftrightarrow>
     le_val (bytes_of (shawncoin_sha256d sha (header_buf h))) \<le> le_val (compact_target (difficulty_target h))"
  by (simp add: checkProofOfWork_def pow_cmp_le_val pow_buf_header)


section \<open>The value of a compact target\<close>

definition compact_of :: "nat \<Rightarrow> nat \<Rightarrow> u32" where
  "compact_of sz mant = word_of_nat (sz * 2 ^ 24 + mant)"

lemma compact_parts:
  assumes "s < 256" "m < 2 ^ 23"
  shows "unat (drop_bit 24 (compact_of s m)) = s" "unat (compact_of s m AND 0x007fffff) = m"
proof -
  have u: "unat (compact_of s m) = s * 2 ^ 24 + m"
    unfolding compact_of_def using assms by (subst unat_of_nat) simp
  show "unat (drop_bit 24 (compact_of s m)) = s"
    using assms by (simp add: unat_drop_bit_div u)
  have "(0x007fffff :: u32) = mask 23"
    by (simp add: mask_eq_exp_minus_1)
  then have "unat (compact_of s m AND 0x007fffff) = unat (take_bit 23 (compact_of s m))"
    by (simp only: take_bit_eq_mask)
  also have "\<dots> = (s * 2 ^ 24 + m) mod 2 ^ 23"
    by (simp only: unsigned_take_bit_eq u) (simp only: take_bit_eq_mod)
  also have "\<dots> = m"
  proof -
    have "s * 2 ^ 24 + m = m + (2 * s) * 2 ^ 23" by simp
    then show ?thesis using assms(2) by (simp only: mod_mult_self1 mod_less)
  qed
  finally show "unat (compact_of s m AND 0x007fffff) = m" .
qed

lemma compact_target_bytes:
  assumes "4 \<le> s" "s \<le> 32" "m < 2 ^ 23"
  shows "compact_target (compact_of s m) =
     replicate (32 - s) 0 @ [word_of_nat (m div 2 ^ 16), word_of_nat (m div 2 ^ 8), word_of_nat m]
       @ replicate (s - 3) 0"
proof -
  let ?w = "compact_of s m AND 0x007fffff"
  have w: "unat (drop_bit 24 (compact_of s m)) = s" "unat ?w = m"
    using compact_parts [of s m] assms by simp_all
  have b: "(ucast (?w AND 0xff) :: byte) = word_of_nat m"
    "(ucast (drop_bit 8 ?w AND 0xff) :: byte) = word_of_nat (m div 2 ^ 8)"
    "(ucast (drop_bit 16 ?w AND 0xff) :: byte) = word_of_nat (m div 2 ^ 16)"
    using byte_shift [of 0 ?w] byte_shift [of 8 ?w] byte_shift [of 16 ?w]
    unfolding ff_mask w by simp_all
  have n: "\<not> int s \<le> 3" "32 - (8 * (int s - 3)) div 8 - 1 = int (34 - s)"
    using assms by simp_all
  have t: "compact_target (compact_of s m) =
      (replicate 32 0)[34 - s := word_of_nat m, 33 - s := word_of_nat (m div 2 ^ 8),
                       32 - s := word_of_nat (m div 2 ^ 16)]"
  proof -
    have "nat (34 - int s) = 34 - s" "34 - s - Suc 0 = 33 - s" "34 - s - 2 = 32 - s"
      using assms by simp_all
    then show ?thesis
      unfolding compact_target_def Let_def w n b using assms by (simp del: diff_diff_left)
  qed
  show ?thesis
    unfolding t
    by (rule nth_equalityI)
      (use assms in \<open>auto simp: nth_append nth_list_update nth_Cons' not_less\<close>)
qed


lemma compact_target_value:
  assumes "4 \<le> s" "s \<le> 32" "m < 2 ^ 23"
  shows "le_val (compact_target (compact_of s m)) =
     (m div 2 ^ 16 + 256 * (m div 2 ^ 8 mod 256) + 65536 * (m mod 256)) * 256 ^ (32 - s)"
proof -
  have "unat (word_of_nat (m div 2 ^ 16) :: byte) = m div 2 ^ 16"
    using assms(3) by (simp add: unat_of_nat)
  then show ?thesis
    unfolding compact_target_bytes [OF assms]
    by (simp add: le_val_append unat_of_nat algebra_simps)
qed


section \<open>The search\<close>

definition set_nonce :: "Block \<Rightarrow> u32 \<Rightarrow> Block" where
  "set_nonce b n = b\<lparr>header := (header b)\<lparr>nonce := n\<rparr>\<rparr>"

lemma set_nonce_simps [simp]:
  "set_nonce (set_nonce b m) n = set_nonce b n"
  "transactions (set_nonce b n) = transactions b"
  "difficulty_target (header (set_nonce b n)) = difficulty_target (header b)"
  "merkle_root (header (set_nonce b n)) = merkle_root (header b)"
  "previous_hash (header (set_nonce b n)) = previous_hash (header b)"
  "timestamp (header (set_nonce b n)) = timestamp (header b)"
  "nonce (header (set_nonce b n)) = n"
  by (simp_all add: set_nonce_def)

lemma mine_loop_step:
  "mine_loop sha (compact_target (difficulty_target (header b))) b n =
     (if checkProofOfWork sha (header (set_nonce b n)) then (True, set_nonce b n)
      else if n + 1 \<noteq> 0 then
        mine_loop sha (compact_target (difficulty_target (header b))) (set_nonce b n) (n + 1)
      else (False, set_nonce b n))"
  by (subst mine_loop.simps)
    (simp add: Let_def mine_cmp_pow_cmp checkProofOfWork_def pow_buf_header getHeaderHash_def
      set_nonce_def)

text \<open>From nonce \<open>n\<close> on, the loop stops at the first nonce that works, if there is one.\<close>

lemma mine_loop_found:
  assumes "checkProofOfWork sha (header (set_nonce b k))" "n \<le> k"
    and "\<forall>j. n \<le> j \<and> j < k \<longrightarrow> \<not> checkProofOfWork sha (header (set_nonce b j))"
  shows "mine_loop sha (compact_target (difficulty_target (header b))) b n = (True, set_nonce b k)"
  using assms
proof (induction "unat k - unat n" arbitrary: n b)
  case 0
  then have "n = k" by (simp add: word_le_nat_alt word_unat_eq_iff)
  with 0 show ?case by (simp add: mine_loop_step)
next
  case (Suc d)
  then have "n < k" by (auto simp: word_le_nat_alt word_less_nat_alt)
  then have nz: "n + 1 \<noteq> 0" using word_n1_ge [of k] by (auto simp flip: eq_neg_iff_add_eq_0)
  have u: "unat (n + 1) = Suc (unat n)" using nz by (rule unat_plus_1)
  have no: "\<not> checkProofOfWork sha (header (set_nonce b n))"
    using Suc.prems(3) \<open>n < k\<close> by simp
  have "mine_loop sha (compact_target (difficulty_target (header (set_nonce b n)))) (set_nonce b n) (n + 1)
      = (True, set_nonce (set_nonce b n) k)"
    using Suc.prems Suc.hyps(2) u
    by (intro Suc.hyps(1)) (auto simp: word_le_nat_alt word_less_nat_alt)
  with no nz show ?case by (simp add: mine_loop_step)
qed

lemma mine_loop_none:
  assumes "\<forall>k. n \<le> k \<longrightarrow> \<not> checkProofOfWork sha (header (set_nonce b k))"
  shows "mine_loop sha (compact_target (difficulty_target (header b))) b n = (False, set_nonce b (- 1))"
  using assms
proof (induction "2 ^ 32 - unat n" arbitrary: n b rule: less_induct)
  case less
  show ?case
  proof (cases "n + 1 = 0")
    case True
    then have "n = - 1" by (simp add: eq_neg_iff_add_eq_0)
    with True less.prems show ?thesis by (simp add: mine_loop_step)
  next
    case False
    have u: "unat (n + 1) = Suc (unat n)" using False by (rule unat_plus_1)
    have "mine_loop sha (compact_target (difficulty_target (header (set_nonce b n)))) (set_nonce b n) (n + 1)
        = (False, set_nonce (set_nonce b n) (- 1))"
      using less.prems nonce_measure [OF False] u
      by (intro less.hyps) (auto simp: word_le_nat_alt)
    then show ?thesis using False less.prems by (simp add: mine_loop_step)
  qed
qed


text \<open>The block \<^verbatim>\<open>mineBlock\<close> searches on.\<close>

definition mining_block :: "hasher \<Rightarrow> Block \<Rightarrow> u32 \<Rightarrow> Block" where
  "mining_block sha b d =
     \<lparr>header = (header b)\<lparr>difficulty_target := d,
                merkle_root := computeMerkleRoot sha (transactions b)\<rparr>,
      transactions = map (memo_txid sha) (transactions b)\<rparr>"

lemma mineBlock_loop:
  "mineBlock sha b d = mine_loop sha (compact_target (difficulty_target (header (mining_block sha b d))))
     (mining_block sha b d) 0"
  by (cases b) (simp add: mineBlock_def mining_block_def Let_def)

lemma mineBlock_found:
  assumes "checkProofOfWork sha (header (set_nonce (mining_block sha b d) k))"
  shows "mineBlock sha b d = (True, set_nonce (mining_block sha b d)
     (LEAST n. checkProofOfWork sha (header (set_nonce (mining_block sha b d) n))))"
  unfolding mineBlock_loop
  by (rule mine_loop_found)
    (use LeastI [where P = "\<lambda>n. checkProofOfWork sha (header (set_nonce (mining_block sha b d) n))",
        OF assms] in \<open>auto dest: not_less_Least\<close>)

lemma mineBlock_none:
  assumes "\<And>n. \<not> checkProofOfWork sha (header (set_nonce (mining_block sha b d) n))"
  shows "mineBlock sha b d = (False, set_nonce (mining_block sha b d) (- 1))"
  unfolding mineBlock_loop by (rule mine_loop_none) (use assms in blast)


section \<open>Properties\<close>

text \<open>
  C7. \<^verbatim>\<open>checkProofOfWork\<close> hashes exactly the bytes \<^verbatim>\<open>Block::getHeaderHash\<close> hashes, although it
  lays them out over an 8-byte timestamp, and accepts a header precisely when the block
  hash, read as a little-endian number, is at most the decoded target, read likewise.
\<close>

theorem pow_check_correct:
  "pow_buf (header b) = header_buf (header b) \<and>
   (checkProofOfWork sha (header b) \<longleftrightarrow>
      le_val (bytes_of (getHash sha b)) \<le> le_val (compact_target (difficulty_target (header b))))"
  by (simp add: pow_buf_header checkProofOfWork_le_val getHash_def getHeaderHash_def)

text \<open>
  C6. The nonce search is sound and complete: \<^verbatim>\<open>mineBlock\<close> returns true exactly when one of
  the 2^32 nonces gives a header \<^verbatim>\<open>checkProofOfWork\<close> accepts, and then it returns the block
  with the least such nonce; otherwise it has tried every nonce. The returned header carries
  the Merkle root of the block's transactions and the requested difficulty.
\<close>

theorem mineBlock_search:
  "mineBlock sha b d =
     (if \<exists>n. checkProofOfWork sha (header (set_nonce (mining_block sha b d) n))
      then (True, set_nonce (mining_block sha b d)
              (LEAST n. checkProofOfWork sha (header (set_nonce (mining_block sha b d) n))))
      else (False, set_nonce (mining_block sha b d) (- 1)))"
  using mineBlock_found mineBlock_none by auto

text \<open>
  The decoded target runs the wrong way. The comment in \<^verbatim>\<open>checkProofOfWork\<close> gives it as
  mantissa times 2^(8*(size-3)); as the comparison reads it, one more in the size byte makes
  the target 256 times smaller, and the mantissa's bytes count in reverse.
\<close>

theorem target_shrinks_with_size:
  assumes "4 \<le> s" "s < 32" "m < 2 ^ 23"
  shows "le_val (compact_target (compact_of s m)) = 256 * le_val (compact_target (compact_of (Suc s) m))
     \<and> le_val (compact_target (compact_of s m)) =
         (m div 2 ^ 16 + 256 * (m div 2 ^ 8 mod 256) + 65536 * (m mod 256)) * 256 ^ (32 - s)"
proof -
  have "(256 :: nat) ^ (32 - s) = 256 * 256 ^ (32 - Suc s)"
    using assms(2) by (simp flip: power_Suc add: Suc_diff_Suc)
  then show ?thesis
    using compact_target_value [of s m] compact_target_value [of "Suc s" m] assms by simp
qed

theorem target_shrinks_with_size_witness:
  "le_val (compact_target 0x0400ffff) = 256 * le_val (compact_target 0x0500ffff)"
proof -
  have "compact_of 4 0xffff = 0x0400ffff" "compact_of (Suc 4) 0xffff = 0x0500ffff"
    by (simp_all add: compact_of_def)
  then show ?thesis
    using target_shrinks_with_size [of 4 "0xffff"] by simp
qed

text \<open>
  The easy mining difficulty \<^verbatim>\<open>0x0400ffff\<close> asks for one zero byte at the end of the hash
  and next to nothing more: a hash passes exactly when its last byte is 0 and the two bytes
  before it are not both 255 (or everything below them is 0). That is one hash in about
  256, where the comment at \<^verbatim>\<open>EASY_MINE_DIFFICULTY\<close> says about 65000.
\<close>

theorem easy_difficulty_is_one_byte:
  "checkProofOfWork sha (h\<lparr>difficulty_target := EASY_MINE_DIFFICULTY\<rparr>) \<longleftrightarrow>
     (let hash = bytes_of (shawncoin_sha256d sha (header_buf (h\<lparr>difficulty_target := EASY_MINE_DIFFICULTY\<rparr>)))
      in hash ! 31 = 0 \<and>
         (hash ! 30 \<noteq> 0xff \<or> hash ! 29 \<noteq> 0xff \<or> take 29 hash = replicate 29 0))"
proof -
  let ?hash = "bytes_of (shawncoin_sha256d sha (header_buf (h\<lparr>difficulty_target := EASY_MINE_DIFFICULTY\<rparr>)))"
  let ?t = "compact_target EASY_MINE_DIFFICULTY"
  have "compact_of 4 0xffff = EASY_MINE_DIFFICULTY"
    by (simp add: compact_of_def EASY_MINE_DIFFICULTY_def)
  then have t: "?t = replicate 28 0 @ [0, 0xff, 0xff] @ [0]"
    using compact_target_bytes [of 4 "0xffff"] by simp
  then have t': "?t = replicate 29 0 @ [0xff, 0xff, 0]"
  proof -
    have "replicate 28 (0 :: byte) @ [0] = replicate (28 + 1) 0"
      by (subst replicate_add) simp
    then show ?thesis using t by simp
  qed
  have e: "pow_cmp ?hash ?t 32 \<longleftrightarrow>
      (if ?hash ! 31 < ?t ! 31 then True else if ?t ! 31 < ?hash ! 31 then False
       else if ?hash ! 30 < ?t ! 30 then True else if ?t ! 30 < ?hash ! 30 then False
       else if ?hash ! 29 < ?t ! 29 then True else if ?t ! 29 < ?hash ! 29 then False
       else pow_cmp ?hash ?t 29)"
    using pow_cmp_pos [of 32 ?hash ?t] pow_cmp_pos [of 31 ?hash ?t] pow_cmp_pos [of 30 ?hash ?t]
    by simp
  have z: "pow_cmp ?hash ?t 29 \<longleftrightarrow> take 29 ?hash = replicate 29 0"
  proof -
    have "pow_cmp ?hash ?t 29 \<longleftrightarrow> le_val (take 29 ?hash) = le_val (replicate 29 0)"
      by (simp add: pow_cmp_le_val t')
    also have "\<dots> \<longleftrightarrow> take 29 ?hash = replicate 29 0"
      by (rule le_val_inject) simp
    finally show ?thesis .
  qed
  have b: "?t ! 31 = 0" "?t ! 30 = 0xff" "?t ! 29 = 0xff"
    by (simp_all add: t' nth_append)
  have ff: "x < 0xff \<longleftrightarrow> x \<noteq> 0xff" "\<not> 0xff < x" "0 < x \<longleftrightarrow> x \<noteq> 0" for x :: byte
  proof -
    have "unat x \<le> 255" using unat_byte_less [of x] by linarith
    then have "x \<le> 0xff" by (simp add: word_le_nat_alt)
    then show "x < 0xff \<longleftrightarrow> x \<noteq> 0xff" "\<not> 0xff < x" "0 < x \<longleftrightarrow> x \<noteq> 0"
      by (auto simp: word_gt_0)
  qed
  show ?thesis
    unfolding checkProofOfWork_def pow_buf_header Let_def
    by (simp add: e z b ff)
qed

end
