(* ===== verification/Network.thy ===== *)
theory Network
  imports Pow "HOL-Library.Char_ord"
begin

text \<open>
  \<^verbatim>\<open>src/network\<close>: the message header of \<^verbatim>\<open>protocol.cpp\<close>, the address classes of
  \<^verbatim>\<open>netbase.cpp\<close>, and the \<^verbatim>\<open>Node\<close> of \<^verbatim>\<open>node.cpp\<close>, which keeps a flag, a port and a list of
  peers and sends nothing: its two broadcast functions have empty bodies.
\<close>

section \<open>Messages\<close>

datatype MessageType =
  MSG_VERSION | MSG_VERACK | MSG_GETADDR | MSG_ADDR
| MSG_INV | MSG_GETDATA | MSG_BLOCK | MSG_TX
| MSG_PING | MSG_PONG | MSG_GETBLOCKS | MSG_GETHEADERS
| MSG_OTHER nat

text \<open>\<open>MSG_OTHER\<close> stands for a value of the enumeration's integer type without an enumerator.\<close>

fun messageTypeToString :: "MessageType \<Rightarrow> string" where
  "messageTypeToString MSG_VERSION = ''version''"
| "messageTypeToString MSG_VERACK = ''verack''"
| "messageTypeToString MSG_GETADDR = ''getaddr''"
| "messageTypeToString MSG_ADDR = ''addr''"
| "messageTypeToString MSG_INV = ''inv''"
| "messageTypeToString MSG_GETDATA = ''getdata''"
| "messageTypeToString MSG_BLOCK = ''block''"
| "messageTypeToString MSG_TX = ''tx''"
| "messageTypeToString MSG_PING = ''ping''"
| "messageTypeToString MSG_PONG = ''pong''"
| "messageTypeToString MSG_GETBLOCKS = ''getblocks''"
| "messageTypeToString MSG_GETHEADERS = ''getheaders''"
| "messageTypeToString _ = ''unknown''"

definition PROTOCOL_MAGIC_NET :: u32 where "PROTOCOL_MAGIC_NET = 0x53484157"

record CMessageHeader =
  magic :: u32
  command :: bytes
  msg_length :: u32
  checksum :: u32

definition serializeMessageHeader :: "CMessageHeader \<Rightarrow> bytes \<Rightarrow> bool \<times> bytes" where
  "serializeMessageHeader h out =
     (let out = take 24 (out @ replicate 24 0);
          out = memcpy_at out 0 (le_bytes 4 (unat (magic h)));
          out = memcpy_at out 4 (command h);
          out = memcpy_at out 16 (le_bytes 4 (unat (msg_length h)));
          out = memcpy_at out 20 (le_bytes 4 (unat (checksum h)))
      in (True, out))"

definition deserializeMessageHeader :: "bytes \<Rightarrow> CMessageHeader option" where
  "deserializeMessageHeader data =
     (if length data < 24 then None
      else Some \<lparr>magic = word_of_nat (le_val (take 4 data)),
             command = take 12 (drop 4 data),
             msg_length = word_of_nat (le_val (take 4 (drop 16 data))),
             checksum = word_of_nat (le_val (take 4 (drop 20 data)))\<rparr>)"

definition header_bytes :: "CMessageHeader \<Rightarrow> bytes" where
  "header_bytes h = le_bytes 4 (unat (magic h)) @ command h @ le_bytes 4 (unat (msg_length h))
     @ le_bytes 4 (unat (checksum h))"

lemma serializeMessageHeader_bytes:
  assumes "length (command h) = 12"
  shows "serializeMessageHeader h out = (True, header_bytes h)"
  using assms by (simp add: serializeMessageHeader_def memcpy_at_def header_bytes_def Let_def)

lemma u32_bytes: "word_of_nat (le_val (le_bytes 4 (unat v))) = (v :: u32)"
  using unsigned_less [of v, where 'a = nat] by (simp add: le_val_le_bytes)

lemma deserialize_header_bytes:
  assumes "length (command h) = 12"
  shows "deserializeMessageHeader (header_bytes h @ rest) = Some h"
  using assms
  by (cases h) (simp add: deserializeMessageHeader_def header_bytes_def u32_bytes)

lemma header_bytes_deserialize:
  assumes "length data = 24" "deserializeMessageHeader data = Some h"
  shows "length (command h) = 12" "header_bytes h = data"
proof -
  have h: "h = \<lparr>magic = word_of_nat (le_val (take 4 data)), command = take 12 (drop 4 data),
      msg_length = word_of_nat (le_val (take 4 (drop 16 data))),
      checksum = word_of_nat (le_val (take 4 (drop 20 data)))\<rparr>"
    using assms by (simp add: deserializeMessageHeader_def)
  then show "length (command h) = 12" using assms(1) by simp
  have w: "le_bytes 4 (unat (word_of_nat (le_val bs) :: u32)) = bs" if "length bs = 4" for bs
  proof -
    have "le_val bs < 2 ^ 32" using le_val_bound [of bs] that by simp
    then show ?thesis using le_bytes_le_val [OF that] by (simp add: unat_of_nat)
  qed
  have "data = take 4 data @ take 12 (drop 4 data) @ take 4 (drop 16 data) @ take 4 (drop 20 data)"
  proof -
    have "data = take 4 data @ drop 4 data" by simp
    also have "drop 4 data = take 12 (drop 4 data) @ drop 16 data"
      using append_take_drop_id [of 12 "drop 4 data"] by simp
    also have "drop 16 data = take 4 (drop 16 data) @ drop 20 data"
      using append_take_drop_id [of 4 "drop 16 data"] by simp
    also have "drop 20 data = take 4 (drop 20 data)"
      using assms(1) by simp
    finally show ?thesis .
  qed
  then show "header_bytes h = data"
    using assms(1) by (simp add: h header_bytes_def w)
qed


section \<open>Addresses and the node\<close>

record CNetAddr =
  host :: string
  port :: u16

definition isIPv4 :: "CNetAddr \<Rightarrow> bool" where
  "isIPv4 a \<longleftrightarrow> \<not> List.member (host a) (CHR '':'') \<and> List.member (host a) (CHR ''.'')"

definition isIPv6 :: "CNetAddr \<Rightarrow> bool" where
  "isIPv6 a \<longleftrightarrow> List.member (host a) (CHR '':'')"

record Peer =
  addr :: CNetAddr
  peer_id :: string
  connected :: bool
  inbound :: bool

definition P2P_PORT :: u16 where "P2P_PORT = 7333"

record Node =
  node_running :: bool
  peers :: "Peer list"
  listenPort :: u16

definition new_node :: Node where
  "new_node = \<lparr>node_running = False, peers = [], listenPort = P2P_PORT\<rparr>"

definition node_start :: "u16 \<Rightarrow> Node \<Rightarrow> Node" where
  "node_start p n = (if node_running n then n else n\<lparr>node_running := True, listenPort := p\<rparr>)"

definition node_stop :: "Node \<Rightarrow> Node" where
  "node_stop n = n\<lparr>node_running := False\<rparr>"

definition connectToPeer :: "string \<Rightarrow> u16 \<Rightarrow> Node \<Rightarrow> Node" where
  "connectToPeer address p n =
     n\<lparr>peers := peers n @ [\<lparr>addr = \<lparr>host = address, port = p\<rparr>, peer_id = [], connected = False, inbound = False\<rparr>]\<rparr>"

definition broadcastBlock :: "Block \<Rightarrow> Node \<Rightarrow> Node" where
  "broadcastBlock b n = n"

definition broadcastTransaction :: "Transaction \<Rightarrow> Node \<Rightarrow> Node" where
  "broadcastTransaction tx n = n"

definition getPeers :: "Node \<Rightarrow> Peer list" where
  "getPeers n = peers n"

inductive node_step :: "Node \<Rightarrow> Node \<Rightarrow> bool" where
  start: "node_step n (node_start p n)"
| stop: "node_step n (node_stop n)"
| connect: "node_step n (connectToPeer a p n)"
| block: "node_step n (broadcastBlock b n)"
| tx: "node_step n (broadcastTransaction t n)"

inductive_simps node_step_iff: "node_step n n'"

lemma node_step_mono:
  assumes "node_step n n'"
  shows "\<exists>ps. getPeers n' = getPeers n @ ps" "node_running n \<and> node_running n' \<Longrightarrow> listenPort n' = listenPort n"
    "list_all (\<lambda>p. \<not> connected p) (getPeers n) \<Longrightarrow> list_all (\<lambda>p. \<not> connected p) (getPeers n')"
  using assms
  by (auto simp: node_step_iff node_start_def node_stop_def connectToPeer_def broadcastBlock_def
      broadcastTransaction_def getPeers_def)

lemma node_steps:
  "node_step\<^sup>*\<^sup>* n n' \<Longrightarrow> (\<exists>ps. getPeers n' = getPeers n @ ps)
     \<and> (list_all (\<lambda>p. \<not> connected p) (getPeers n) \<longrightarrow> list_all (\<lambda>p. \<not> connected p) (getPeers n'))"
proof (induction rule: rtranclp_induct)
  case base
  then show ?case by simp
next
  case (step y z)
  then show ?case using node_step_mono [OF step.hyps(2)] by auto
qed


section \<open>Properties\<close>

text \<open>
  A message header is 24 bytes and both directions are exact: what is written is read back,
  whatever follows it and whatever the buffer held, every 24 bytes are the header they
  decode to (no magic or command is refused), and anything shorter is rejected.
\<close>

theorem message_header_roundtrip:
  assumes "length (command h) = 12"
  shows "fst (serializeMessageHeader h out) \<and> length (snd (serializeMessageHeader h out)) = 24
    \<and> deserializeMessageHeader (snd (serializeMessageHeader h out) @ rest) = Some h
    \<and> (case deserializeMessageHeader data of
         None \<Rightarrow> length data < 24
       | Some h' \<Rightarrow> snd (serializeMessageHeader h' out') = take 24 data)"
proof (intro conjI)
  show "case deserializeMessageHeader data of None \<Rightarrow> length data < 24
      | Some h' \<Rightarrow> snd (serializeMessageHeader h' out') = take 24 data"
  proof (cases "deserializeMessageHeader data")
    case (Some h')
    then have "24 \<le> length data" by (auto simp: deserializeMessageHeader_def split: if_splits)
    moreover have "deserializeMessageHeader (take 24 data) = Some h'"
      using Some \<open>24 \<le> length data\<close> by (auto simp: deserializeMessageHeader_def min_def drop_take split: if_splits)
    ultimately show ?thesis
      using header_bytes_deserialize [of "take 24 data" h'] Some by (simp add: serializeMessageHeader_bytes)
  qed (auto simp: deserializeMessageHeader_def split: if_splits)
next
  show "deserializeMessageHeader (snd (serializeMessageHeader h out) @ rest) = Some h"
    using assms by (simp add: serializeMessageHeader_bytes deserialize_header_bytes)
qed (use assms in \<open>simp_all add: serializeMessageHeader_bytes header_bytes_def\<close>)

theorem message_header_roundtrip_witness:
  "deserializeMessageHeader (snd (serializeMessageHeader
      \<lparr>magic = PROTOCOL_MAGIC_NET, command = replicate 12 0, msg_length = 5, checksum = 9\<rparr> []))
    = Some \<lparr>magic = PROTOCOL_MAGIC_NET, command = replicate 12 0, msg_length = 5, checksum = 9\<rparr>"
  using message_header_roundtrip [of "\<lparr>magic = PROTOCOL_MAGIC_NET, command = replicate 12 0, msg_length = 5, checksum = 9\<rparr>"
      "[]" "[]"] by simp

text \<open>
  The network layer never has a connection: in every state a node reaches by its operations
  all its peers are marked unconnected, and no operation removes a peer it was told of.
\<close>

theorem node_never_connects:
  assumes "node_step\<^sup>*\<^sup>* new_node n" "node_step\<^sup>*\<^sup>* n n'"
  shows "list_all (\<lambda>p. \<not> connected p) (getPeers n) \<and> take (length (getPeers n)) (getPeers n') = getPeers n"
  using node_steps [OF assms(1)] node_steps [OF assms(2)]
  by (auto simp: new_node_def getPeers_def)

theorem node_never_connects_witness:
  "list_all (\<lambda>p. \<not> connected p) (getPeers (connectToPeer ''10.0.0.1'' 7333 new_node))"
  using node_never_connects [of "connectToPeer ''10.0.0.1'' 7333 new_node" "connectToPeer ''10.0.0.1'' 7333 new_node"]
  by (auto intro: r_into_rtranclp node_step.connect)

end
