(* ===== verification/Util.thy ===== *)
theory Util
  imports CoreTypes "HOL-Library.Char_ord"
begin

text \<open>
  \<^verbatim>\<open>src/util/util.cpp\<close>: hexadecimal text. Strings are lists of characters of 8 bits;
  \<^verbatim>\<open>std::tolower\<close> is that of the C locale.
\<close>

definition hex_digits :: string where
  "hex_digits = ''0123456789abcdef''"

definition hexEncode :: "bytes \<Rightarrow> string" where
  "hexEncode data =
     fold (\<lambda>b out. (out @ [hex_digits ! unat (drop_bit 4 b)]) @ [hex_digits ! unat (b AND 0xf)]) data []"

definition tolower :: "int \<Rightarrow> int" where
  "tolower c = (if 65 \<le> c \<and> c \<le> 90 then c + 32 else c)"

definition hex_value :: "char \<Rightarrow> int" where
  "hex_value ch =
     (let a = tolower (of_char ch)
      in if 97 \<le> a then a - 97 + 10 else if 48 \<le> a then a - 48 else - 1)"

fun hexDecode_loop :: "string \<Rightarrow> bytes \<Rightarrow> bytes" where
  "hexDecode_loop (x # y # s) out =
     (let a = hex_value x; b = hex_value y
      in if a < 0 \<or> b < 0 then []
         else hexDecode_loop s (out @ [word_of_int (push_bit 4 a OR b)]))"
| "hexDecode_loop _ out = out"

definition hexDecode :: "string \<Rightarrow> bytes" where
  "hexDecode hex = hexDecode_loop hex []"

definition uint256ToHex :: "uint256 \<Rightarrow> string" where
  "uint256ToHex h = hexEncode (bytes_of h)"

definition hexToUint256 :: "string \<Rightarrow> uint256" where
  "hexToUint256 hex =
     (let v = hexDecode hex in if length v \<noteq> 32 then uint256_zero else mk_uint256 v)"

definition hex_of_byte :: "byte \<Rightarrow> string" where
  "hex_of_byte b = [hex_digits ! unat (drop_bit 4 b), hex_digits ! unat (b AND 0xf)]"

lemma hexEncode_concat: "hexEncode data = concat (map hex_of_byte data)"
proof -
  have "fold (\<lambda>b out. (out @ [hex_digits ! unat (drop_bit 4 b)]) @ [hex_digits ! unat (b AND 0xf)]) data out
      = out @ concat (map hex_of_byte data)" for out
    by (rule fold_append_concat) (simp add: hex_of_byte_def)
  then show ?thesis by (simp add: hexEncode_def)
qed

lemma length_hexEncode [simp]: "length (hexEncode data) = 2 * length data"
  by (induction data) (simp_all add: hexEncode_concat hex_of_byte_def)

lemma hex_value_digit: "n < 16 \<Longrightarrow> hex_value (hex_digits ! n) = int n"
proof -
  have "list_all (\<lambda>n. hex_value (hex_digits ! n) = int n) [0..<16]"
    by (simp add: hex_value_def hex_digits_def tolower_def upt_rec)
  then show "n < 16 \<Longrightarrow> hex_value (hex_digits ! n) = int n"
    by (simp add: list_all_iff)
qed

lemma nibbles:
  "unat (drop_bit 4 (b :: byte)) < 16" "unat (b AND 0xf) < 16"
  "word_of_int (push_bit 4 (uint (drop_bit 4 b)) OR uint (b AND 0xf)) = b"
proof -
  have m: "(0xf :: byte) = mask 4" by (simp add: mask_eq_exp_minus_1)
  show "unat (drop_bit 4 b) < 16"
    using unat_byte_less [of b] by (simp add: unat_drop_bit_div div_less_iff_less_mult del: unat_byte_less)
  show "unat (b AND 0xf) < 16"
    unfolding m by (simp flip: take_bit_eq_mask add: take_bit_eq_mod unat_mod)
  show "word_of_int (push_bit 4 (uint (drop_bit 4 b)) OR uint (b AND 0xf)) = b"
    unfolding m by (rule bit_word_eqI) (auto simp: bit_simps)
qed

lemma hexDecode_loop_enc: "hexDecode_loop (concat (map hex_of_byte data)) out = out @ data"
  by (induction data arbitrary: out)
    (simp_all add: hex_of_byte_def hex_value_digit nibbles)



section \<open>Properties\<close>

text \<open>
  Hexadecimal text round-trips: \<^verbatim>\<open>hexDecode\<close> recovers the bytes, and \<^verbatim>\<open>hexToUint256\<close>
  the hash, that were printed.
\<close>

theorem hex_roundtrip:
  "hexDecode (hexEncode data) = data \<and> hexToUint256 (uint256ToHex h) = h"
proof -
  have "hexDecode (hexEncode d) = d" for d
    by (simp add: hexDecode_def hexEncode_concat hexDecode_loop_enc)
  then show ?thesis by (simp add: hexToUint256_def uint256ToHex_def Let_def)
qed

text \<open>
  \<^verbatim>\<open>hexDecode\<close> does not check for hexadecimal digits: any text whose characters are
  \<open>'0'\<close> or above decodes, each pair to some byte, and an odd last character is dropped.
\<close>

theorem hexDecode_accepts_junk:
  assumes "list_all (\<lambda>ch. 48 \<le> (of_char ch :: int)) hex"
  shows "length (hexDecode hex) = length hex div 2"
proof -
  have v: "0 \<le> hex_value ch" if "48 \<le> (of_char ch :: int)" for ch
    using that by (simp add: hex_value_def tolower_def Let_def)
  have "length (hexDecode_loop hex out) = length out + length hex div 2" for out
    using assms
    by (induction hex out rule: hexDecode_loop.induct) (auto simp: v not_less Let_def)
  then show ?thesis by (simp add: hexDecode_def)
qed

theorem hexDecode_accepts_junk_witness: "length (hexDecode ''zz~~Q'') = 2"
  using hexDecode_accepts_junk [of "''zz~~Q''"] by simp

end
