(* ===== verification/Difficulty.thy ===== *)
theory Difficulty
  imports Pow
begin

text \<open>
  \<^verbatim>\<open>src/mining/difficulty.cpp\<close>: the retarget functions, on the machine integers of the code.
  A division by zero, which the code does not guard, is \<open>None\<close>. The floating-point
  estimates of that file are in \<open>HashRate\<close>.
\<close>

definition target_time :: "u32 \<Rightarrow> u64" where
  "target_time numBlocks = ucast BLOCK_TIME_TARGET * ucast (numBlocks - 1)"

definition getNextDifficulty :: "u32 \<Rightarrow> u64 \<Rightarrow> u64 \<Rightarrow> u32 \<Rightarrow> u32 option" where
  "getNextDifficulty currentTarget lastBlockTime firstBlockTime numBlocks =
     (if numBlocks = 0 \<or> lastBlockTime \<le> firstBlockTime then Some currentTarget
      else
        let elapsed = lastBlockTime - firstBlockTime;
            targetTime = target_time numBlocks;
            elapsed = (if elapsed < targetTime div 4 then targetTime div 4 else elapsed);
            elapsed = (if targetTime * 4 < elapsed then targetTime * 4 else elapsed);
            targetMul = (ucast currentTarget :: u64) * elapsed
        in if targetTime = 0 then None
           else
             let newTarget = targetMul div targetTime;
                 newTarget = (if 0x007fffff < newTarget then 0x007fffff else newTarget)
             in Some (push_bit 24 (drop_bit 24 currentTarget) OR ucast newTarget))"

definition getAdaptiveNextDifficulty ::
    "u32 \<Rightarrow> u64 \<Rightarrow> u64 \<Rightarrow> u32 \<Rightarrow> u64 \<Rightarrow> u32 option" where
  "getAdaptiveNextDifficulty currentTarget lastBlockTime firstBlockTime numBlocks currentHeight =
     (case getNextDifficulty currentTarget lastBlockTime firstBlockTime numBlocks of
        None \<Rightarrow> None
      | Some newTarget \<Rightarrow>
          let elapsed = lastBlockTime - firstBlockTime;
              targetTime = target_time numBlocks;
              newTarget =
                (if elapsed < targetTime div 8 then
                   let emergencyTarget = newTarget * 4
                   in if newTarget < emergencyTarget then emergencyTarget else newTarget
                 else if targetTime * 8 < elapsed then
                   let emergencyTarget = newTarget div 4
                   in if emergencyTarget < newTarget then emergencyTarget else newTarget
                 else newTarget);
              newTarget =
                (if currentHeight < 10000 then
                   if elapsed < targetTime div 2 then newTarget * 2
                   else if targetTime * 2 < elapsed then newTarget div 2
                   else newTarget
                 else newTarget)
          in Some newTarget)"

definition isValidDifficulty :: "u32 \<Rightarrow> bool" where
  "isValidDifficulty difficulty =
     (let mantissa = difficulty AND 0x00ffffff;
          exponent = drop_bit 24 difficulty AND 0xff
      in if exponent = 0 \<or> 50 < exponent then False
         else if mantissa = 0 then False
         else if difficulty < EASY_MINE_DIFFICULTY then False
         else True)"

lemma target_time_2016: "target_time DIFFICULTY_INTERVAL = 1209000"
  by (simp add: target_time_def BLOCK_TIME_TARGET_def DIFFICULTY_INTERVAL_def)

text \<open>The clamped time span of a full interval.\<close>

definition clamp_elapsed :: "u64 \<Rightarrow> u64" where
  "clamp_elapsed e =
     (let e = (if e < 302250 then 302250 else e) in if 4836000 < e then 4836000 else e)"

lemma clamp_elapsed_bounds: "302250 \<le> unat (clamp_elapsed e)" "unat (clamp_elapsed e) \<le> 4836000"
  by (auto simp: clamp_elapsed_def Let_def word_less_nat_alt)

lemma unat_targetMul:
  "unat ((ucast (c :: u32) :: u64) * clamp_elapsed e) = unat c * unat (clamp_elapsed e)"
proof -
  have "unat c * unat (clamp_elapsed e) \<le> unat c * 4836000"
    using clamp_elapsed_bounds(2) by (rule mult_le_mono2)
  also have "\<dots> < 2 ^ 32 * 4836000"
    using unsigned_less [of c, where 'a = nat] by simp
  finally have "unat c * unat (clamp_elapsed e) < 2 ^ 64" by simp
  then show ?thesis
    by (simp add: unat_word_ariths)
qed

lemma interval_nz: "DIFFICULTY_INTERVAL \<noteq> 0"
  by (simp add: DIFFICULTY_INTERVAL_def)

definition cap_mantissa :: "nat \<Rightarrow> nat" where
  "cap_mantissa v = (if 0x007fffff < v then 0x007fffff else v)"

lemma getNextDifficulty_interval:
  assumes "t0 < t1"
  shows "getNextDifficulty c t1 t0 DIFFICULTY_INTERVAL =
     Some (push_bit 24 (drop_bit 24 c)
       OR word_of_nat (cap_mantissa (unat c * unat (clamp_elapsed (t1 - t0)) div 1209000)))"
proof -
  have nle: "(t1 \<le> t0) = False" using assms by (simp add: not_le)
  let ?q = "(ucast c :: u64) * clamp_elapsed (t1 - t0) div 1209000"
  have q: "unat ?q = unat c * unat (clamp_elapsed (t1 - t0)) div 1209000"
    by (simp only: unat_div unat_targetMul) simp
  have u: "ucast (if 0x007fffff < ?q then 0x007fffff else ?q) = (word_of_nat (cap_mantissa (unat ?q)) :: u32)"
    unfolding ucast_of_unat by (simp add: word_less_nat_alt cap_mantissa_def)
  have "getNextDifficulty c t1 t0 DIFFICULTY_INTERVAL =
      Some (push_bit 24 (drop_bit 24 c) OR ucast (if 0x007fffff < ?q then 0x007fffff else ?q))"
    by (simp add: getNextDifficulty_def target_time_2016 clamp_elapsed_def Let_def interval_nz
        nle)
  then show ?thesis unfolding u q .
qed

lemma retarget_saturates:
  assumes "t0 < t1" "0x02000000 \<le> c"
  shows "getNextDifficulty c t1 t0 DIFFICULTY_INTERVAL =
     Some (push_bit 24 (drop_bit 24 c) OR 0x007fffff)"
proof -
  have "33554432 * 302250 \<le> unat c * unat (clamp_elapsed (t1 - t0))"
    using assms(2) clamp_elapsed_bounds(1) by (intro mult_le_mono) (simp_all add: word_le_nat_alt)
  then have "33554432 * 302250 div 1209000 \<le> unat c * unat (clamp_elapsed (t1 - t0)) div 1209000"
    by (rule div_le_mono)
  then have "cap_mantissa (unat c * unat (clamp_elapsed (t1 - t0)) div 1209000) = 0x007fffff"
    by (simp add: cap_mantissa_def)
  then show ?thesis
    using getNextDifficulty_interval [OF assms(1)] by simp
qed


lemma target_time_0: "target_time n = 0 \<longleftrightarrow> n = 1"
proof
  assume z: "target_time n = 0"
  have "unat (n - 1) < 2 ^ 32"
    using unsigned_less [of "n - 1", where 'a = nat] by simp
  then have "unat (target_time n) = 600 * unat (n - 1)"
    by (simp add: target_time_def BLOCK_TIME_TARGET_def unat_word_ariths)
  with z have "unat (n - 1) = unat (0 :: u32)" by simp
  then have "n - 1 = 0" by (simp only: word_unat_eq_iff)
  then show "n = 1" by simp
qed (simp add: target_time_def)


section \<open>Properties\<close>

text \<open>
  A retarget over a full interval ignores the time the interval took: from any compact
  target of size byte 2 or more the result keeps the size byte and sets the mantissa to its
  largest value, because the code scales the whole compact word instead of its mantissa.
\<close>

theorem retarget_ignores_time:
  assumes "t0 < t1" "0x02000000 \<le> c"
  shows "getNextDifficulty c t1 t0 DIFFICULTY_INTERVAL =
     Some (push_bit 24 (drop_bit 24 c) OR 0x007fffff)"
  using assms by (rule retarget_saturates)

theorem retarget_ignores_time_witness:
  "getNextDifficulty INITIAL_DIFFICULTY 100 5 DIFFICULTY_INTERVAL =
   getNextDifficulty INITIAL_DIFFICULTY 100000000 5 DIFFICULTY_INTERVAL"
  using retarget_ignores_time [of 5 100 INITIAL_DIFFICULTY]
    retarget_ignores_time [of 5 100000000 INITIAL_DIFFICULTY]
  by (simp add: INITIAL_DIFFICULTY_def)

text \<open>
  What a chain mined at the easy difficulty must switch to at its first retarget, for
  every positive time span: five compact words, none of them the easy difficulty the miner
  keeps using, and for a fast interval one whose size byte 35 decodes to the target 0.
\<close>

theorem easy_retarget:
  assumes "t0 < t1"
  shows "getAdaptiveNextDifficulty EASY_MINE_DIFFICULTY t1 t0 DIFFICULTY_INTERVAL 2016 =
     Some (let e = t1 - t0 in
       if e < 151125 then 0x23fffff8
       else if e < 604500 then 0x08fffffe
       else if e \<le> 2418000 then 0x047fffff
       else if e \<le> 9672000 then 0x023fffff
       else 0x008fffff)
   \<and> getAdaptiveNextDifficulty EASY_MINE_DIFFICULTY t1 t0 DIFFICULTY_INTERVAL 2016 \<noteq> Some EASY_MINE_DIFFICULTY
   \<and> compact_target 0x23fffff8 = replicate 32 0"
proof -
  have n: "getNextDifficulty EASY_MINE_DIFFICULTY t1 t0 DIFFICULTY_INTERVAL = Some 0x047fffff"
    using retarget_saturates [OF assms, of EASY_MINE_DIFFICULTY]
    by (simp add: EASY_MINE_DIFFICULTY_def)
  have "getAdaptiveNextDifficulty EASY_MINE_DIFFICULTY t1 t0 DIFFICULTY_INTERVAL 2016 =
     Some (let e = t1 - t0 in
       if e < 151125 then 0x23fffff8
       else if e < 604500 then 0x08fffffe
       else if e \<le> 2418000 then 0x047fffff
       else if e \<le> 9672000 then 0x023fffff
       else 0x008fffff)" (is "?a = Some (Let ?e _)")
  proof -
    obtain e where e: "?e = e" by blast
    consider "e < 151125" | "151125 \<le> e" "e < 604500" | "604500 \<le> e" "e \<le> 2418000"
      | "2418000 < e" "e \<le> 9672000" | "9672000 < e"
      by (meson not_le not_less)
    then show ?thesis
      unfolding getAdaptiveNextDifficulty_def n target_time_2016 Let_def e
      by cases (simp_all add: word_less_nat_alt word_le_nat_alt)
  qed
  moreover have "compact_target 0x23fffff8 = replicate 32 0"
    by (simp add: compact_target_def)
  ultimately show ?thesis by (simp add: EASY_MINE_DIFFICULTY_def Let_def)
qed

theorem easy_retarget_witness:
  "getAdaptiveNextDifficulty EASY_MINE_DIFFICULTY 1209000 0 DIFFICULTY_INTERVAL 2016 = Some 0x047fffff"
  using easy_retarget [of 0 1209000] by (simp add: Let_def)

text \<open>
  A time span that is negative is taken as an immense one: with the last timestamp
  before the first, the unsigned difference wraps, and below height 10000 the target is
  divided by 4 and by 2 as if blocks had been far too slow.
\<close>

theorem negative_span_wraps:
  assumes "t1 < t0" "t0 - t1 \<le> 2 ^ 63" "height < 10000"
  shows "getAdaptiveNextDifficulty c t1 t0 DIFFICULTY_INTERVAL height = Some (c div 4 div 2)"
proof -
  have n: "getNextDifficulty c t1 t0 DIFFICULTY_INTERVAL = Some c"
    using assms(1) by (simp add: getNextDifficulty_def order.strict_implies_order)
  have "unat (t1 - t0) = 2 ^ 64 - unat (t0 - t1)"
    using assms(1) by (simp add: unat_sub_if' word_less_nat_alt)
  then have big: "9672000 < t1 - t0"
    using assms(2) by (simp add: word_less_nat_alt word_le_nat_alt)
  have c: "(if c div 4 < c then c div 4 else c) = c div 4"
    by (auto simp: word_less_nat_alt unat_div word_unat_eq_iff not_less)
  have "\<not> t1 - t0 < 151125" "\<not> t1 - t0 < 604500" "2418000 < t1 - t0"
    using big by (auto simp: word_less_nat_alt)
  then show ?thesis
    unfolding getAdaptiveNextDifficulty_def n target_time_2016 Let_def
    using big assms(3) c by simp
qed

theorem negative_span_wraps_witness:
  "getAdaptiveNextDifficulty 0x0400ffff 999 1000 DIFFICULTY_INTERVAL 2016 = Some 0x00801fff"
  using negative_span_wraps [of 999 1000 2016 "0x0400ffff"] by simp

text \<open>
  \<^verbatim>\<open>getNextDifficulty\<close> divides by zero exactly when it is called for an interval of one
  block with increasing timestamps; every other call returns.
\<close>

theorem next_difficulty_defined:
  "getNextDifficulty c t1 t0 n = None \<longleftrightarrow> n = 1 \<and> t0 < t1"
  by (auto simp: getNextDifficulty_def Let_def target_time_0 not_le)

end
