(* ===== verification/Utxo.thy ===== *)
theory Utxo
  imports Difficulty
begin

text \<open>
  \<^verbatim>\<open>src/core/utxo.cpp\<close> and the two functions of \<^verbatim>\<open>src/core/consensus.cpp\<close> that change it:
  \<^verbatim>\<open>connectBlockUTXO\<close> and \<^verbatim>\<open>disconnectBlockUTXO\<close>. A \<open>UTXOSet\<close> is the map from outpoints to
  entries; the mutex makes each operation one step and has no other effect on its result.
  The abstract view of a set is its lookup function \<open>map_find u\<close>; what the block functions do
  to it is stated by \<open>connected\<close>.
\<close>

record UtxoEntry =
  entry_amount :: u64
  entry_script :: Script

type_synonym UTXOSet = "(OutPoint, UtxoEntry) std_map"

definition utxo_put :: "UTXOSet \<Rightarrow> OutPoint \<Rightarrow> u64 \<Rightarrow> Script \<Rightarrow> UTXOSet" where
  "utxo_put u op a script = map_put op \<lparr>entry_amount = a, entry_script = script\<rparr> u"

definition utxo_get :: "UTXOSet \<Rightarrow> OutPoint \<Rightarrow> UtxoEntry option" where
  "utxo_get u op = map_find u op"

definition utxo_spend :: "UTXOSet \<Rightarrow> OutPoint \<Rightarrow> bool \<times> UTXOSet" where
  "utxo_spend u op = (let u' = map_erase op u in (length u' < length u, u'))"

definition utxo_has :: "UTXOSet \<Rightarrow> OutPoint \<Rightarrow> bool" where
  "utxo_has u op \<longleftrightarrow> map_find u op \<noteq> None"

definition utxo_snapshot :: "UTXOSet \<Rightarrow> UTXOSet" where
  "utxo_snapshot u = u"

definition utxo_size :: "UTXOSet \<Rightarrow> nat" where
  "utxo_size u = length u"

definition utxo_clear :: "UTXOSet \<Rightarrow> UTXOSet" where
  "utxo_clear u = []"


section \<open>Connecting and disconnecting a block\<close>

text \<open>The two nested loops that spend the inputs, with their early return.\<close>

fun spend_inputs :: "TxInput list \<Rightarrow> UTXOSet \<Rightarrow> bool \<times> UTXOSet" where
  "spend_inputs [] u = (True, u)"
| "spend_inputs (i # ins) u =
     (let op = OutPoint (prev_tx_hash i) (output_index i)
      in if \<not> utxo_has u op then (False, u)
         else spend_inputs ins (snd (utxo_spend u op)))"

fun spend_txs :: "Transaction list \<Rightarrow> UTXOSet \<Rightarrow> bool \<times> UTXOSet" where
  "spend_txs [] u = (True, u)"
| "spend_txs (tx # txs) u =
     (case spend_inputs (inputs tx) u of
        (False, u') \<Rightarrow> (False, u')
      | (True, u') \<Rightarrow> spend_txs txs u')"

definition add_outputs :: "hasher \<Rightarrow> Transaction \<Rightarrow> UTXOSet \<Rightarrow> UTXOSet" where
  "add_outputs sha tx u =
     fold (\<lambda>(j, o') u. utxo_put u (OutPoint (txid sha tx) (word_of_nat j)) (amount o') (script_pubkey o'))
       (enumerate 0 (outputs tx)) u"

definition connectBlockUTXO :: "hasher \<Rightarrow> Block \<Rightarrow> UTXOSet \<Rightarrow> bool \<times> UTXOSet" where
  "connectBlockUTXO sha b u =
     (case spend_txs (drop 1 (transactions b)) u of
        (False, u') \<Rightarrow> (False, u')
      | (True, u') \<Rightarrow> (True, fold (add_outputs sha) (transactions b) u'))"

text \<open>\<^verbatim>\<open>disconnectBlockUTXO\<close> removes the outputs; its second loop, over the inputs, does nothing.\<close>

definition disconnectBlockUTXO :: "hasher \<Rightarrow> Block \<Rightarrow> UTXOSet \<Rightarrow> UTXOSet" where
  "disconnectBlockUTXO sha b u =
     fold (\<lambda>tx u. fold (\<lambda>(j, o') u. snd (utxo_spend u (OutPoint (txid sha tx) (word_of_nat j))))
                    (enumerate 0 (outputs tx)) u)
       (transactions b) u"


section \<open>The abstract effect\<close>

definition tx_spends :: "Transaction \<Rightarrow> OutPoint list" where
  "tx_spends tx = map outpoint_of (inputs tx)"

definition block_spends :: "Block \<Rightarrow> OutPoint list" where
  "block_spends b = concat (map tx_spends (drop 1 (transactions b)))"

definition tx_creates :: "hasher \<Rightarrow> Transaction \<Rightarrow> (OutPoint \<times> UtxoEntry) list" where
  "tx_creates sha tx =
     map (\<lambda>(j, o'). (OutPoint (txid sha tx) (word_of_nat j),
                      \<lparr>entry_amount = amount o', entry_script = script_pubkey o'\<rparr>))
       (enumerate 0 (outputs tx))"

definition block_creates :: "hasher \<Rightarrow> Block \<Rightarrow> (OutPoint \<times> UtxoEntry) list" where
  "block_creates sha b = concat (map (tx_creates sha) (transactions b))"

definition connected :: "hasher \<Rightarrow> Block \<Rightarrow> (OutPoint \<rightharpoonup> UtxoEntry) \<Rightarrow> (OutPoint \<rightharpoonup> UtxoEntry)" where
  "connected sha b m = (m |` (- set (block_spends b))) ++ map_of (rev (block_creates sha b))"

text \<open>Spending a list of outpoints one by one.\<close>

fun spend_ops :: "OutPoint list \<Rightarrow> UTXOSet \<Rightarrow> bool \<times> UTXOSet" where
  "spend_ops [] u = (True, u)"
| "spend_ops (op # ops) u = (if utxo_has u op then spend_ops ops (map_erase op u) else (False, u))"

lemma spend_inputs_ops: "spend_inputs ins u = spend_ops (map outpoint_of ins) u"
  by (induction ins arbitrary: u) (simp_all add: outpoint_of_def utxo_spend_def Let_def)

lemma spend_ops_append:
  "spend_ops (xs @ ys) u =
     (case spend_ops xs u of (False, u') \<Rightarrow> (False, u') | (True, u') \<Rightarrow> spend_ops ys u')"
  by (induction xs arbitrary: u) simp_all

lemma spend_txs_ops: "spend_txs txs u = spend_ops (concat (map tx_spends txs)) u"
  by (induction txs arbitrary: u)
    (simp_all add: spend_inputs_ops spend_ops_append tx_spends_def split: prod.split bool.split)

lemma spend_ops_ok: "map_ok u \<Longrightarrow> map_ok (snd (spend_ops ops u))"
  by (induction ops u rule: spend_ops.induct) (simp_all add: map_ok_erase)

lemma spend_ops_all:
  "map_ok u \<Longrightarrow> distinct ops \<Longrightarrow> set ops \<subseteq> dom (map_find u) \<Longrightarrow>
     spend_ops ops u = (True, fold map_erase ops u)"
  by (induction ops u rule: spend_ops.induct)
    (auto simp: utxo_has_def map_ok_erase map_find_erase)

lemma spend_ops_success:
  "map_ok u \<Longrightarrow> fst (spend_ops ops u) \<Longrightarrow> distinct ops \<and> set ops \<subseteq> dom (map_find u)"
proof (induction ops u rule: spend_ops.induct)
  case (1 u)
  then show ?case by simp
next
  case (2 op ops u)
  then have "utxo_has u op" and "distinct ops \<and> set ops \<subseteq> dom (map_find (map_erase op u))"
    by (auto simp: map_ok_erase split: if_splits)
  then show ?case
    using 2(2) by (auto simp: utxo_has_def map_find_erase)
qed

lemma spend_ops_iff:
  "map_ok u \<Longrightarrow> fst (spend_ops ops u) \<longleftrightarrow> distinct ops \<and> set ops \<subseteq> dom (map_find u)"
  using spend_ops_all [of u ops] spend_ops_success [of u ops] by auto

text \<open>A failed run has spent the outpoints before the first one missing or repeated.\<close>

lemma spend_ops_subset: "map_ok u \<Longrightarrow> map_find (snd (spend_ops ops u)) \<subseteq>\<^sub>m map_find u"
proof (induction ops u rule: spend_ops.induct)
  case (1 u)
  then show ?case by simp
next
  case (2 op ops u)
  show ?case
  proof (cases "utxo_has u op")
    case True
    with 2 have "map_find (snd (spend_ops ops (map_erase op u))) \<subseteq>\<^sub>m map_find (map_erase op u)"
      by (simp add: map_ok_erase)
    moreover have "map_find (map_erase op u) \<subseteq>\<^sub>m map_find u"
      using 2(2) by (simp add: map_find_erase upd_None_map_le)
    ultimately show ?thesis
      using True by (auto intro: map_le_trans)
  qed simp
qed

lemma spend_ops_prefix:
  assumes "map_ok u" "distinct xs" "set xs \<subseteq> dom (map_find u)"
    "x \<in> set xs \<or> x \<notin> dom (map_find u)"
  shows "spend_ops (xs @ x # ys) u = (False, fold map_erase xs u)"
proof -
  have "map_find (fold map_erase xs u) = map_find u |` (- set xs)"
    using std_map.erase_all [OF assms(1)] by blast
  then have "\<not> utxo_has (fold map_erase xs u) x"
    using assms(4) by (auto simp: utxo_has_def restrict_map_def)
  then show ?thesis
    by (simp add: spend_ops_append spend_ops_all [OF assms(1-3)])
qed

lemma add_outputs_puts: "add_outputs sha tx u = fold (\<lambda>(k, v). map_put k v) (tx_creates sha tx) u"
  by (simp add: add_outputs_def tx_creates_def fold_map utxo_put_def comp_def case_prod_unfold)

lemma add_all_outputs:
  "fold (add_outputs sha) txs u = fold (\<lambda>(k, v). map_put k v) (concat (map (tx_creates sha) txs)) u"
  by (induction txs arbitrary: u) (simp_all add: add_outputs_puts)

lemma connectBlockUTXO_ops:
  "connectBlockUTXO sha b u =
     (case spend_ops (block_spends b) u of
        (False, u') \<Rightarrow> (False, u')
      | (True, u') \<Rightarrow> (True, fold (\<lambda>(k, v). map_put k v) (block_creates sha b) u'))"
  unfolding connectBlockUTXO_def spend_txs_ops block_spends_def block_creates_def add_all_outputs ..

lemma connectBlockUTXO_ok: "map_ok u \<Longrightarrow> map_ok (snd (connectBlockUTXO sha b u))"
  using spend_ops_ok [of u "block_spends b"]
    std_map.put_all [of "snd (spend_ops (block_spends b) u)" "block_creates sha b"]
  unfolding connectBlockUTXO_ops
  by (cases "spend_ops (block_spends b) u") (auto split: bool.split)

lemma connectBlockUTXO_iff:
  "map_ok u \<Longrightarrow> fst (connectBlockUTXO sha b u) \<longleftrightarrow>
     distinct (block_spends b) \<and> set (block_spends b) \<subseteq> dom (map_find u)"
  by (auto simp: connectBlockUTXO_ops simp flip: spend_ops_iff split: prod.split bool.split)

lemma connectBlockUTXO_map:
  assumes "map_ok u" "fst (connectBlockUTXO sha b u)"
  shows "map_find (snd (connectBlockUTXO sha b u)) = connected sha b (map_find u)"
proof -
  have d: "distinct (block_spends b)" "set (block_spends b) \<subseteq> dom (map_find u)"
    using assms by (simp_all add: connectBlockUTXO_iff)
  have e: "map_ok (fold map_erase (block_spends b) u)
      \<and> map_find (fold map_erase (block_spends b) u) = map_find u |` (- set (block_spends b))"
    using assms(1) by (rule std_map.erase_all)
  then show ?thesis
    using std_map.put_all [of "fold map_erase (block_spends b) u" "block_creates sha b"]
    by (simp add: connectBlockUTXO_ops spend_ops_all [OF assms(1) d] connected_def)
qed

lemma disconnectBlockUTXO_erases:
  "disconnectBlockUTXO sha b u = fold map_erase (map fst (block_creates sha b)) u"
proof -
  have "fold (\<lambda>(j, o') u. snd (utxo_spend u (OutPoint (txid sha tx) (word_of_nat j))))
      (enumerate 0 (outputs tx)) u = fold map_erase (map fst (tx_creates sha tx)) u" for tx u
    by (simp add: tx_creates_def fold_map utxo_spend_def comp_def Let_def case_prod_unfold)
  then have "fold (\<lambda>tx u. fold (\<lambda>(j, o') u. snd (utxo_spend u (OutPoint (txid sha tx) (word_of_nat j))))
      (enumerate 0 (outputs tx)) u) txs u
    = fold map_erase (map fst (concat (map (tx_creates sha) txs))) u" for txs u
    by (induction txs arbitrary: u) simp_all
  then show ?thesis
    by (simp add: disconnectBlockUTXO_def block_creates_def)
qed


lemma disconnectBlockUTXO_map:
  "map_ok u \<Longrightarrow> map_ok (disconnectBlockUTXO sha b u) \<and>
     map_find (disconnectBlockUTXO sha b u) = map_find u |` (- fst ` set (block_creates sha b))"
  using std_map.erase_all [of u "map fst (block_creates sha b)"] by (simp add: disconnectBlockUTXO_erases)


section \<open>Properties\<close>

text \<open>A block of two transactions, the second of which spends the given outpoints.\<close>

definition spending_tx :: "OutPoint list \<Rightarrow> Transaction" where
  "spending_tx ops = \<lparr>tx_version = 1,
     inputs = map (\<lambda>op. \<lparr>prev_tx_hash = op_hash op, output_index = op_index op, signature = [], pubkey = []\<rparr>) ops,
     outputs = [\<lparr>amount = 7, script_pubkey = [0x51]\<rparr>], lock_time = 0, cached_txid = None\<rparr>"

definition spending_block :: "OutPoint list \<Rightarrow> Block" where
  "spending_block ops = \<lparr>header = \<lparr>hdr_version = 1, previous_hash = uint256_zero,
       merkle_root = uint256_zero, timestamp = 0, difficulty_target = 0, nonce = 0\<rparr>,
     transactions = [genesis_coinbase, spending_tx ops]\<rparr>"

lemma block_spends_spending [simp]: "block_spends (spending_block ops) = ops"
  by (simp add: block_spends_def spending_block_def tx_spends_def spending_tx_def outpoint_of_def
      comp_def)

text \<open>
  C3. \<^verbatim>\<open>connectBlockUTXO\<close> implements its abstract effect: it succeeds exactly when the
  outpoints spent by the block, in all its transactions but the first, are distinct and all
  present before the block (an output of the block itself cannot be spent in it); and then
  the set is the old one without the outpoints spent and with every output of the block, the
  later of two with the same outpoint winning.
\<close>

theorem connect_block_refines:
  assumes "map_ok u"
  shows "map_ok (snd (connectBlockUTXO sha b u)) \<and>
    (fst (connectBlockUTXO sha b u) \<longleftrightarrow>
      distinct (block_spends b) \<and> set (block_spends b) \<subseteq> dom (map_find u)) \<and>
    (fst (connectBlockUTXO sha b u) \<longrightarrow>
      map_find (snd (connectBlockUTXO sha b u)) = connected sha b (map_find u))"
  using assms by (simp_all add: connectBlockUTXO_ok connectBlockUTXO_iff connectBlockUTXO_map)

theorem connect_block_refines_witness:
  "map_find (snd (connectBlockUTXO const_sha (spending_block [OutPoint uint256_zero 0])
       [(OutPoint uint256_zero 0, \<lparr>entry_amount = 5, entry_script = []\<rparr>)]))
     = connected const_sha (spending_block [OutPoint uint256_zero 0])
         [OutPoint uint256_zero 0 \<mapsto> \<lparr>entry_amount = 5, entry_script = []\<rparr>]"
proof -
  let ?u = "[(OutPoint uint256_zero 0, \<lparr>entry_amount = 5, entry_script = []\<rparr>)] :: UTXOSet"
  have ok: "map_ok ?u" by (simp add: map_ok_def)
  have m: "map_find ?u = [OutPoint uint256_zero 0 \<mapsto> \<lparr>entry_amount = 5, entry_script = []\<rparr>]"
    by (auto simp: fun_eq_iff)
  show ?thesis
    using connect_block_refines [OF ok, of const_sha "spending_block [OutPoint uint256_zero 0]"]
    unfolding m by simp
qed

text \<open>
  A failing \<^verbatim>\<open>connectBlockUTXO\<close> is not atomic: it returns false at the first outpoint that
  is missing, or that the block has spent before, and leaves the set without the outpoints
  spent up to there. Nothing puts them back.
\<close>

theorem failed_connect_keeps_spends:
  assumes "map_ok u" "block_spends b = xs @ x # ys"
    and "distinct xs" "set xs \<subseteq> dom (map_find u)" "x \<in> set xs \<or> x \<notin> dom (map_find u)"
  shows "connectBlockUTXO sha b u = (False, fold map_erase xs u) \<and>
    map_find (snd (connectBlockUTXO sha b u)) = map_find u |` (- set xs)"
  using spend_ops_prefix [OF assms(1,3,4,5), of ys] std_map.erase_all [OF assms(1), of xs]
  by (simp_all add: connectBlockUTXO_ops assms(2))

theorem failed_connect_keeps_spends_witness:
  "connectBlockUTXO const_sha (spending_block [OutPoint uint256_zero 0, OutPoint uint256_zero 0])
     [(OutPoint uint256_zero 0, \<lparr>entry_amount = 5, entry_script = []\<rparr>)] = (False, [])"
  using failed_connect_keeps_spends
    [of "[(OutPoint uint256_zero 0, \<lparr>entry_amount = 5, entry_script = []\<rparr>)]"
      "spending_block [OutPoint uint256_zero 0, OutPoint uint256_zero 0]"
      "[OutPoint uint256_zero 0]" "OutPoint uint256_zero 0" "[]" const_sha]
  by (simp add: map_ok_def domIff)

text \<open>
  \<^verbatim>\<open>disconnectBlockUTXO\<close> does not undo \<^verbatim>\<open>connectBlockUTXO\<close>: after connecting and
  disconnecting a block, every outpoint the block spent is still gone, and so is every
  outpoint it created, also one that was there before.
\<close>

theorem disconnect_does_not_undo:
  assumes "map_ok u" "fst (connectBlockUTXO sha b u)"
  shows "map_find (disconnectBlockUTXO sha b (snd (connectBlockUTXO sha b u)))
    = map_find u |` (- (set (block_spends b) \<union> fst ` set (block_creates sha b)))"
proof -
  have "map_of (rev (block_creates sha b)) x = None" if "x \<notin> fst ` set (block_creates sha b)" for x
    using that by (simp add: map_of_eq_None_iff)
  then show ?thesis
    using disconnectBlockUTXO_map [OF connectBlockUTXO_ok [OF assms(1)], of sha b sha b]
    by (auto simp: connectBlockUTXO_map [OF assms] connected_def fun_eq_iff restrict_map_def
        map_add_def)
qed

theorem disconnect_does_not_undo_witness:
  "map_find (disconnectBlockUTXO const_sha (spending_block [OutPoint uint256_zero 1])
      (snd (connectBlockUTXO const_sha (spending_block [OutPoint uint256_zero 1])
        [(OutPoint uint256_zero 1, \<lparr>entry_amount = 5, entry_script = []\<rparr>)])))
    (OutPoint uint256_zero 1) = None"
proof -
  let ?u = "[(OutPoint uint256_zero 1, \<lparr>entry_amount = 5, entry_script = []\<rparr>)] :: UTXOSet"
  have ok: "map_ok ?u" by (simp add: map_ok_def)
  have "fst (connectBlockUTXO const_sha (spending_block [OutPoint uint256_zero 1]) ?u)"
    unfolding connectBlockUTXO_iff [OF ok] by auto
  then show ?thesis
    by (subst disconnect_does_not_undo [OF ok]) simp_all
qed

end
