(* ===== verification/ChainStore.thy ===== *)
theory ChainStore
  imports Utxo "HOL-Library.Char_ord"
begin

text \<open>
  \<^verbatim>\<open>src/storage\<close>: the chain store of \<^verbatim>\<open>chainstate.cpp\<close> (\<^verbatim>\<open>MemoryChainState\<close>) with its file
  \<^verbatim>\<open>blockchain.dat\<close>. The file system is a partial map from paths to contents; a write that
  \<^verbatim>\<open>fopen\<close> lets through is complete. The interface \<open>chain_state\<close> is the contract of the
  abstract class \<^verbatim>\<open>ChainState\<close>; the chain uses it through its interpretation.
\<close>

type_synonym files = "string \<Rightarrow> bytes option"

record MemoryChainState =
  cs_path :: string
  cs_bestHash :: uint256
  cs_bestHeight :: u64
  cs_blocks :: "(uint256, bytes) std_map"

text \<open>
  A new store: \<^verbatim>\<open>cs_bestHash\<close> has no initializer, its first value \<open>junk\<close> is whatever the
  memory holds.
\<close>

definition new_chainstate :: "uint256 \<Rightarrow> MemoryChainState" where
  "new_chainstate junk = \<lparr>cs_path = [], cs_bestHash = junk, cs_bestHeight = 0, cs_blocks = []\<rparr>"

definition cs_init :: "string \<Rightarrow> MemoryChainState \<Rightarrow> bool \<times> MemoryChainState" where
  "cs_init path s = (True, s\<lparr>cs_path := path\<rparr>)"

definition getBestBlock :: "MemoryChainState \<Rightarrow> bool \<times> uint256 \<times> u64" where
  "getBestBlock s = (True, cs_bestHash s, cs_bestHeight s)"

definition setBestBlock :: "uint256 \<Rightarrow> u64 \<Rightarrow> MemoryChainState \<Rightarrow> MemoryChainState" where
  "setBestBlock hash height s = s\<lparr>cs_bestHash := hash, cs_bestHeight := height\<rparr>"

definition cs_getBlock :: "uint256 \<Rightarrow> MemoryChainState \<Rightarrow> Block option" where
  "cs_getBlock hash s =
     (case map_find (cs_blocks s) hash of
        None \<Rightarrow> None
      | Some data \<Rightarrow> deserializeBlock data)"

definition putBlock :: "uint256 \<Rightarrow> Block \<Rightarrow> MemoryChainState \<Rightarrow> bool \<times> MemoryChainState" where
  "putBlock hash b s =
     (let data = serializeBlock b in (True, s\<lparr>cs_blocks := map_put hash data (cs_blocks s)\<rparr>))"


section \<open>The file\<close>

definition dat_path :: "MemoryChainState \<Rightarrow> string" where
  "dat_path s = cs_path s @ ''/blockchain.dat''"

definition dat_magic :: bytes where
  "dat_magic = map of_char ''SHWN''"

definition saved_bytes :: "MemoryChainState \<Rightarrow> bytes" where
  "saved_bytes s =
     (let out = dat_magic;
          version = (1 :: u32);
          out = out @ le_bytes 4 (unat version);
          blockCount = (word_of_nat (length (cs_blocks s)) :: u64);
          out = out @ le_bytes 8 (unat blockCount);
          out = out @ bytes_of (cs_bestHash s);
          out = out @ le_bytes 8 (unat (cs_bestHeight s))
      in fold (\<lambda>(hash, data) out.
            let dataSize = (word_of_nat (length data) :: u64)
            in (out @ le_bytes 8 (unat dataSize)) @ data) (cs_blocks s) out)"

definition saveToDisk :: "(string \<Rightarrow> bool) \<Rightarrow> MemoryChainState \<Rightarrow> files \<Rightarrow> bool \<times> files" where
  "saveToDisk can_write s fs =
     (if \<not> can_write (dat_path s) then (False, fs)
      else (True, fs(dat_path s \<mapsto> saved_bytes s)))"

text \<open>
  \<^verbatim>\<open>fread(p, n, 1, file) != 1\<close>: too few bytes are left, or \<open>n\<close> is 0.
\<close>

definition fread_block :: "nat \<Rightarrow> bytes \<Rightarrow> (bytes \<times> bytes) option" where
  "fread_block n bs = (if n = 0 then None else read_bytes n bs)"

text \<open>
  The outcome of loading: the result, or the exception of \<^verbatim>\<open>std::vector(dataSize)\<close> for a size
  above \<^verbatim>\<open>max_size()\<close>. The key of block \<open>i\<close> is the uninitialised local \<^verbatim>\<open>hash\<close>; its value is
  the parameter \<open>junk i\<close>.
\<close>

datatype load_result = Returned bool | LengthError

fun load_blocks ::
    "(nat \<Rightarrow> uint256) \<Rightarrow> nat \<Rightarrow> nat \<Rightarrow> bytes \<Rightarrow> (uint256, bytes) std_map
     \<Rightarrow> load_result \<times> (uint256, bytes) std_map" where
  "load_blocks junk i 0 bs m = (Returned True, m)"
| "load_blocks junk i (Suc n) bs m =
     (case readU64 bs of
        None \<Rightarrow> (Returned False, m)
      | Some (dataSize, bs) \<Rightarrow>
          if 2 ^ 63 \<le> unat dataSize then (LengthError, m)
          else case fread_block (unat dataSize) bs of
            None \<Rightarrow> (Returned False, m)
          | Some (data, bs) \<Rightarrow> load_blocks junk (Suc i) n bs (map_put (junk i) data m))"

definition loadFromDisk ::
    "(nat \<Rightarrow> uint256) \<Rightarrow> MemoryChainState \<Rightarrow> files \<Rightarrow> load_result \<times> MemoryChainState" where
  "loadFromDisk junk s fs =
     (case fs (dat_path s) of
        None \<Rightarrow> (Returned False, s)
      | Some bs \<Rightarrow>
     (case read_bytes 4 bs of
        None \<Rightarrow> (Returned False, s)
      | Some (magic, bs) \<Rightarrow>
          if magic \<noteq> dat_magic then (Returned False, s) else
     (case readU32 bs of
        None \<Rightarrow> (Returned False, s)
      | Some (version, bs) \<Rightarrow>
          if version \<noteq> 1 then (Returned False, s) else
     (case readU64 bs of
        None \<Rightarrow> (Returned False, s)
      | Some (blockCount, bs) \<Rightarrow>
     (case readUint256 bs of
        None \<Rightarrow> (Returned False, s)
      | Some (hash, bs) \<Rightarrow>
     (case readU64 bs of
        None \<Rightarrow> (Returned False, s\<lparr>cs_bestHash := hash\<rparr>)
      | Some (height, bs) \<Rightarrow>
          (let s = s\<lparr>cs_bestHash := hash, cs_bestHeight := height\<rparr>;
               (r, m) = load_blocks junk 0 (unat blockCount) bs []
           in (r, s\<lparr>cs_blocks := m\<rparr>))))))))"

lemma saved_bytes_eq:
  "saved_bytes s = dat_magic @ le_bytes 4 (unat (1 :: u32))
     @ le_bytes 8 (unat (word_of_nat (length (cs_blocks s)) :: u64)) @ bytes_of (cs_bestHash s)
     @ le_bytes 8 (unat (cs_bestHeight s))
     @ concat (map (\<lambda>(_, data). le_bytes 8 (unat (word_of_nat (length data) :: u64)) @ data) (cs_blocks s))"
proof -
  have "fold (\<lambda>(hash, data) out.
            let dataSize = (word_of_nat (length data) :: u64)
            in (out @ le_bytes 8 (unat dataSize)) @ data) kvs out
    = out @ concat (map (\<lambda>(_, data). le_bytes 8 (unat (word_of_nat (length data) :: u64)) @ data) kvs)"
    for kvs :: "(uint256, bytes) std_map" and out
    by (rule fold_append_concat) (simp add: Let_def case_prod_unfold)
  then show ?thesis
    by (simp add: saved_bytes_def Let_def)
qed

text \<open>Blocks whose sizes a file can hold: not empty, and below \<^verbatim>\<open>max_size()\<close>.\<close>

definition storable :: "MemoryChainState \<Rightarrow> bool" where
  "storable s \<longleftrightarrow> length (cs_blocks s) < 2 ^ 64
     \<and> list_all (\<lambda>(_, data). data \<noteq> [] \<and> length data < 2 ^ 63) (cs_blocks s)"

lemma load_blocks_saved:
  "list_all (\<lambda>(_, data). data \<noteq> [] \<and> length data < 2 ^ 63) kvs \<Longrightarrow>
     load_blocks junk i (length kvs)
       (concat (map (\<lambda>(_, data). le_bytes 8 (unat (word_of_nat (length data) :: u64)) @ data) kvs)) m
     = (Returned True,
        fold (\<lambda>(j, data). map_put (junk j) data) (enumerate i (map snd kvs)) m)"
proof (induction kvs arbitrary: i m)
  case Nil
  then show ?case by simp
next
  case (Cons kv kvs)
  obtain k data where kv: "kv = (k, data)" by (cases kv)
  have len: "length data < 2 ^ 63" "data \<noteq> []"
    and rest: "list_all (\<lambda>(_, data). data \<noteq> [] \<and> length data < 2 ^ 63) kvs"
    using Cons.prems by (auto simp: kv)
  have u: "unat (word_of_nat (length data) :: u64) = length data"
    using len by (simp add: unat_of_nat)
  have r: "readU64 (le_bytes 8 (length data) @ bs) = Some (word_of_nat (length data), bs)" for bs
    using readU64_le [of "word_of_nat (length data)" bs] unfolding u .
  show ?case
    using len Cons.IH [OF rest]
    by (simp add: kv u r fread_block_def read_bytes_append)
qed

lemma load_saved:
  assumes "storable s" "fs (dat_path t) = Some (saved_bytes s)"
  shows "loadFromDisk junk t fs = (Returned True,
     t\<lparr>cs_bestHash := cs_bestHash s, cs_bestHeight := cs_bestHeight s,
       cs_blocks := fold (\<lambda>(j, data). map_put (junk j) data) (enumerate 0 (map snd (cs_blocks s))) []\<rparr>)"
proof -
  let ?n = "word_of_nat (length (cs_blocks s)) :: u64"
  have n: "unat ?n = length (cs_blocks s)"
    using assms(1) by (simp add: storable_def unat_of_nat)
  have r: "readU64 (le_bytes 8 (length (cs_blocks s)) @ bs) = Some (?n, bs)" for bs
    using readU64_le [of ?n bs] unfolding n .
  have l: "list_all (\<lambda>(_, data). data \<noteq> [] \<and> length data < 2 ^ 63) (cs_blocks s)"
    using assms(1) by (simp add: storable_def)
  have m: "read_bytes 4 (dat_magic @ bs) = Some (dat_magic, bs)" for bs
    by (rule read_bytes_append) (simp add: dat_magic_def)
  have v: "readU32 (le_bytes 4 (Suc 0) @ bs) = Some (1, bs)" for bs
    using readU32_le [of 1 bs] by simp
  show ?thesis
    using assms(2) load_blocks_saved [OF l, of junk 0 "[]"]
    unfolding saved_bytes_eq loadFromDisk_def
    by (simp add: n r m v readU64_le readUint256_bytes)
qed

lemma fold_put_same_key:
  "fold (\<lambda>(j, data). map_put k data) (enumerate i ds) m = (if ds = [] then m else map_put k (List.last ds) m)"
proof (induction ds arbitrary: i m)
  case Nil
  then show ?case by simp
next
  case (Cons d ds)
  have "map_put k v (map_put k w m) = map_put k v m" for v w
    by (induction k w m rule: map_put.induct) auto
  with Cons show ?case by simp
qed


section \<open>The contract of a chain store\<close>

locale chain_state =
  fixes get_best :: "'s \<Rightarrow> bool \<times> uint256 \<times> u64"
    and set_best :: "uint256 \<Rightarrow> u64 \<Rightarrow> 's \<Rightarrow> 's"
    and get_block :: "uint256 \<Rightarrow> 's \<Rightarrow> Block option"
    and put_block :: "uint256 \<Rightarrow> Block \<Rightarrow> 's \<Rightarrow> bool \<times> 's"
    and fits :: "Block \<Rightarrow> bool"
  assumes best_set: "get_best (set_best h n s) = (True, h, n)"
    and best_put: "get_best (snd (put_block h b s)) = get_best s"
    and block_set: "get_block k (set_best h n s) = get_block k s"
    and block_put: "fits b \<Longrightarrow> get_block h (snd (put_block h b s)) = Some (forget_ids b)"
    and block_put_other: "k \<noteq> h \<Longrightarrow> get_block k (snd (put_block h b s)) = get_block k s"
    and put_succeeds: "fst (put_block h b s)"
begin

text \<open>What a client does for every block it connects: store it and make it the best block.\<close>

definition store :: "uint256 \<times> u64 \<times> Block \<Rightarrow> 's \<Rightarrow> 's" where
  "store e s = (case e of (h, n, b) \<Rightarrow> set_best h n (snd (put_block h b s)))"

lemma store_best: "get_best (store (h, n, b) s) = (True, h, n)"
  by (simp add: store_def best_set)

lemma store_block: "fits b \<Longrightarrow> get_block h (store (h, n, b) s) = Some (forget_ids b)"
  by (simp add: store_def block_set block_put)

lemma store_other: "k \<noteq> h \<Longrightarrow> get_block k (store (h, n, b) s) = get_block k s"
  by (simp add: store_def block_set block_put_other)

lemma store_all_best: "es \<noteq> [] \<Longrightarrow> get_best (fold store es s) = (True, fst (List.last es), fst (snd (List.last es)))"
  by (induction es arbitrary: s rule: rev_induct) (auto simp: store_best)

lemma store_all_block:
  "list_all (\<lambda>(h, n, b). fits b) es \<Longrightarrow> distinct (map fst es) \<Longrightarrow> (h, n, b) \<in> set es \<Longrightarrow>
     get_block h (fold store es s) = Some (forget_ids b)"
proof (induction es rule: rev_induct)
  case Nil
  then show ?case by simp
next
  case (snoc e es)
  obtain h' n' b' where e: "e = (h', n', b')" by (cases e)
  from snoc show ?case
    by (cases "h = h'") (auto simp: e store_block store_other image_iff)
qed

end

lemma deserialize_serialize: "block_ok b \<Longrightarrow> deserializeBlock (serializeBlock b) = Some (forget_ids b)"
  using deserializeBlock_enc [of b "[]"] by (simp flip: serializeBlock_enc)

interpretation mem_store: chain_state getBestBlock setBestBlock cs_getBlock putBlock block_ok
  by unfold_locales
    (simp_all add: getBestBlock_def setBestBlock_def cs_getBlock_def putBlock_def Let_def
      map_find_put deserialize_serialize)


section \<open>Properties\<close>



text \<open>
  \<^verbatim>\<open>MemoryChainState\<close> keeps the contract of \<^verbatim>\<open>ChainState\<close> for blocks the wire format can
  hold: after a series of \<^verbatim>\<open>putBlock\<close> and \<^verbatim>\<open>setBestBlock\<close> under distinct hashes, every block
  of the series is read back, through its serialization, with all its fields, and the best
  block is the last one set.
\<close>

theorem chain_store_contract:
  assumes "list_all (\<lambda>(h, n, b). block_ok b) es" "distinct (map fst es)" "es \<noteq> []"
  shows "let s' = fold (\<lambda>(h, n, b) s. setBestBlock h n (snd (putBlock h b s))) es s
    in list_all (\<lambda>(h, n, b). cs_getBlock h s' = Some (forget_ids b)) es
      \<and> getBestBlock s' = (True, fst (List.last es), fst (snd (List.last es)))"
proof -
  have f: "fold (\<lambda>(h, n, b) s. setBestBlock h n (snd (putBlock h b s))) es s = fold mem_store.store es s"
    by (intro fold_cong) (auto simp: mem_store.store_def fun_eq_iff)
  show ?thesis
    unfolding f
    using mem_store.store_all_block [OF assms(1,2)] mem_store.store_all_best [OF assms(3)]
    by (auto simp: list_all_iff)
qed

theorem chain_store_contract_witness:
  "getBestBlock (fold (\<lambda>(h, n, b) s. setBestBlock h n (snd (putBlock h b s)))
     [(uint256_zero, 0, makeGenesisBlock const_sha)] (new_chainstate uint256_zero))
   = (True, uint256_zero, 0)"
proof -
  show ?thesis
    using genesis_ok chain_store_contract [of "[(uint256_zero, 0, makeGenesisBlock const_sha)]"
      "new_chainstate uint256_zero"]
    by (simp add: Let_def)
qed

end
