(* ===== verification/Chain.thy ===== *)
theory Chain
  imports ChainStore
begin

text \<open>
  \<^verbatim>\<open>src/core/blockchain.cpp\<close> with the rules of \<^verbatim>\<open>src/core/consensus.cpp\<close> it applies. A
  \<open>Blockchain\<close> is the record of the members of the class; the attached store is
  the \<open>MemoryChainState\<close> of \<open>ChainStore\<close> (\<^verbatim>\<open>chainState_\<close> points to nothing else in the
  program). \<^verbatim>\<open>std::time\<close> is the argument \<open>now\<close>, the writable paths are \<open>can_write\<close>.
\<close>

record Blockchain =
  bc_utxo :: UTXOSet
  bestBlockHash :: uint256
  height :: u64
  blockCache :: "(uint256, Block) std_map"
  heightIndex :: "(u64, uint256) std_map"
  chainState :: "MemoryChainState option"

section \<open>The consensus rules\<close>

definition validateBlockStructure :: "hasher \<Rightarrow> u64 \<Rightarrow> Block \<Rightarrow> bool" where
  "validateBlockStructure sha now b =
     (if transactions b = [] then False
      else if \<not> isCoinbase (transactions b ! 0) then False
      else
        let merkle = computeMerkleRoot sha (transactions b)
        in if merkle \<noteq> merkle_root (header b) then False
           else if now + 2 * 60 * 60 < timestamp (header b) then False
           else
             let compact = difficulty_target (header b);
                 mant = compact AND 0x007fffff
             in if mant = 0 then False else checkProofOfWork sha (header b))"

text \<open>The loop over the outputs: the sum, or \<open>None\<close> for its early returns.\<close>

fun sum_outputs :: "TxOutput list \<Rightarrow> u64 \<Rightarrow> u64 option" where
  "sum_outputs [] outSum = Some outSum"
| "sum_outputs (o' # os) outSum =
     (if MAX_MONEY < amount o' then None
      else if outSum + amount o' < outSum then None
      else sum_outputs os (outSum + amount o'))"

definition validateTransactionStructure :: "Transaction \<Rightarrow> bool" where
  "validateTransactionStructure tx =
     (if outputs tx = [] then False
      else case sum_outputs (outputs tx) 0 of
        None \<Rightarrow> False
      | Some outSum \<Rightarrow>
          if MAX_MONEY < outSum then False
          else if \<not> isCoinbase tx \<and> inputs tx = [] then False
          else True)"


section \<open>The chain\<close>

definition getBlockByHeight :: "Blockchain \<Rightarrow> u64 \<Rightarrow> Block option" where
  "getBlockByHeight c h =
     (case map_find (heightIndex c) h of
        None \<Rightarrow> None
      | Some hash \<Rightarrow> map_find (blockCache c) hash)"

definition getBlock :: "Blockchain \<Rightarrow> uint256 \<Rightarrow> Block option" where
  "getBlock c hash =
     (case map_find (blockCache c) hash of
        Some b \<Rightarrow> Some b
      | None \<Rightarrow>
          (case chainState c of
             None \<Rightarrow> None
           | Some s \<Rightarrow> cs_getBlock hash s))"

definition getBestBlockHash :: "Blockchain \<Rightarrow> uint256" where
  "getBestBlockHash c = bestBlockHash c"

definition getHeight :: "Blockchain \<Rightarrow> u64" where
  "getHeight c = height c"

definition checkDifficulty :: "Blockchain \<Rightarrow> BlockHeader \<Rightarrow> bool" where
  "checkDifficulty c h =
     (let height = getHeight c in
      if height = 0 then True
      else case getBlockByHeight c height of
        None \<Rightarrow> True
      | Some prev \<Rightarrow>
          let prevTarget = difficulty_target (header prev);
              nextHeight = height + 1
          in if nextHeight mod ucast DIFFICULTY_INTERVAL \<noteq> 0 then difficulty_target h = prevTarget
             else if height < ucast (DIFFICULTY_INTERVAL - 1) then difficulty_target h = prevTarget
             else case getBlockByHeight c (height - ucast (DIFFICULTY_INTERVAL - 1)) of
               None \<Rightarrow> difficulty_target h = prevTarget
             | Some first' \<Rightarrow>
                 let lastTime = timestamp (header prev);
                     firstTime = timestamp (header first')
                 in Some (difficulty_target h) =
                      getAdaptiveNextDifficulty prevTarget lastTime firstTime DIFFICULTY_INTERVAL nextHeight)"

text \<open>The block with the ids of its transactions cached, as the hashing of its transactions leaves it.\<close>

definition memo_block :: "hasher \<Rightarrow> Block \<Rightarrow> Block" where
  "memo_block sha b = b\<lparr>transactions := map (memo_txid sha) (transactions b)\<rparr>"

definition new_blockchain :: "hasher \<Rightarrow> Blockchain" where
  "new_blockchain sha =
     (let genesis = makeGenesisBlock sha;
          hash = getHash sha genesis
      in \<lparr>bc_utxo = snd (connectBlockUTXO sha genesis []),
          bestBlockHash = hash, height = 0,
          blockCache = map_put hash genesis [],
          heightIndex = map_put 0 hash [],
          chainState = None\<rparr>)"

definition setChainState :: "MemoryChainState option \<Rightarrow> Blockchain \<Rightarrow> Blockchain" where
  "setChainState s c = c\<lparr>chainState := s\<rparr>"

definition bc_init :: "string \<Rightarrow> Blockchain \<Rightarrow> bool \<times> Blockchain" where
  "bc_init dataDir c =
     (case chainState c of
        None \<Rightarrow> (True, c)
      | Some s \<Rightarrow>
          (let (found, loadedBest, loadedHeight) = getBestBlock s
           in if found \<and> 0 < loadedHeight
              then (True, c\<lparr>bestBlockHash := loadedBest, height := loadedHeight\<rparr>)
              else (True, c)))"

text \<open>The last part of \<^verbatim>\<open>connectBlock\<close>: the index under the lock, the store, and the file.\<close>

definition save_state :: "(string \<Rightarrow> bool) \<Rightarrow> uint256 \<Rightarrow> Block \<Rightarrow> u64 \<Rightarrow> Blockchain \<Rightarrow> files \<Rightarrow> Blockchain \<times> files" where
  "save_state can_write hash b h c fs =
     (case chainState c of
        None \<Rightarrow> (c, fs)
      | Some s \<Rightarrow>
          (let s = snd (putBlock hash b s);
               s = setBestBlock hash h s;
               fs = (if h mod 10 = 0 then snd (saveToDisk can_write s fs) else fs)
           in (c\<lparr>chainState := Some s\<rparr>, fs)))"

definition record_block :: "hasher \<Rightarrow> Block \<Rightarrow> u64 \<Rightarrow> Blockchain \<Rightarrow> Blockchain" where
  "record_block sha b h c =
     (let hash = getHash sha b
      in c\<lparr>blockCache := map_put hash (memo_block sha b) (blockCache c),
           heightIndex := map_put h hash (heightIndex c),
           bestBlockHash := hash, height := h\<rparr>)"

definition inputs_present :: "UTXOSet \<Rightarrow> Transaction \<Rightarrow> bool" where
  "inputs_present u tx = list_all (\<lambda>i. utxo_has u (OutPoint (prev_tx_hash i) (output_index i))) (inputs tx)"

definition connectBlock ::
    "hasher \<Rightarrow> (string \<Rightarrow> bool) \<Rightarrow> u64 \<Rightarrow> Block \<Rightarrow> u64 \<Rightarrow> Blockchain \<Rightarrow> files
     \<Rightarrow> bool \<times> Blockchain \<times> files" where
  "connectBlock sha can_write now b h c fs =
     (if \<not> validateBlockStructure sha now b then (False, c, fs)
      else if \<not> checkDifficulty c (header b) then (False, c, fs)
      else if \<not> list_all (\<lambda>tx. validateTransactionStructure tx \<and> inputs_present (bc_utxo c) tx)
                  (drop 1 (transactions b)) then (False, c, fs)
      else case connectBlockUTXO sha b (bc_utxo c) of
        (False, u) \<Rightarrow> (False, c\<lparr>bc_utxo := u\<rparr>, fs)
      | (True, u) \<Rightarrow>
          (let c = record_block sha b h (c\<lparr>bc_utxo := u\<rparr>);
               (c, fs) = save_state can_write (getHash sha b) (memo_block sha b) h c fs
           in (True, c, fs)))"

definition addBlock ::
    "hasher \<Rightarrow> (string \<Rightarrow> bool) \<Rightarrow> u64 \<Rightarrow> Block \<Rightarrow> u64 \<Rightarrow> Blockchain \<Rightarrow> files
     \<Rightarrow> bool \<times> Blockchain \<times> files" where
  "addBlock sha can_write now b h c fs =
     (let hash = getHash sha b in
      if map_find (blockCache c) hash \<noteq> None then (True, c, fs)
      else if h \<noteq> height c + 1 then (False, c, fs)
      else if previous_hash (header b) \<noteq> bestBlockHash c then (False, c, fs)
      else connectBlock sha can_write now b h c fs)"

lemma memo_block_simps [simp]:
  "header (memo_block sha b) = header b"
  "transactions (memo_block sha b) = map (memo_txid sha) (transactions b)"
  "getHash sha (memo_block sha b) = getHash sha b"
  by (simp_all add: memo_block_def getHash_def getHeaderHash_def)

lemma save_state_frame [simp]:
  "bc_utxo (fst (save_state w hash b h c fs)) = bc_utxo c"
  "bestBlockHash (fst (save_state w hash b h c fs)) = bestBlockHash c"
  "height (fst (save_state w hash b h c fs)) = height c"
  "blockCache (fst (save_state w hash b h c fs)) = blockCache c"
  "heightIndex (fst (save_state w hash b h c fs)) = heightIndex c"
  by (simp_all add: save_state_def Let_def split: option.split)

text \<open>Everything \<^verbatim>\<open>connectBlock\<close> asks of a block.\<close>

definition connectable :: "hasher \<Rightarrow> u64 \<Rightarrow> Block \<Rightarrow> Blockchain \<Rightarrow> bool" where
  "connectable sha now b c \<longleftrightarrow> validateBlockStructure sha now b \<and> checkDifficulty c (header b)
     \<and> list_all (\<lambda>tx. validateTransactionStructure tx \<and> inputs_present (bc_utxo c) tx)
         (drop 1 (transactions b))"

lemma inputs_present_iff: "inputs_present u tx \<longleftrightarrow> set (tx_spends tx) \<subseteq> dom (map_find u)"
  by (auto simp: inputs_present_def utxo_has_def tx_spends_def outpoint_of_def list_all_iff)

lemma connectable_spends: "connectable sha now b c \<Longrightarrow> set (block_spends b) \<subseteq> dom (map_find (bc_utxo c))"
  by (auto simp: connectable_def block_spends_def list_all_iff inputs_present_iff)

lemma connectBlock_cases:
  assumes "map_ok (bc_utxo c)"
  obtains (refused) "\<not> connectable sha now b c" "connectBlock sha w now b h c fs = (False, c, fs)"
  | (repeated) "connectable sha now b c" "\<not> distinct (block_spends b)"
      "connectBlock sha w now b h c fs =
         (False, c\<lparr>bc_utxo := snd (connectBlockUTXO sha b (bc_utxo c))\<rparr>, fs)"
  | (accepted) "connectable sha now b c" "distinct (block_spends b)"
      "connectBlock sha w now b h c fs = (True, save_state w (getHash sha b) (memo_block sha b) h
         (record_block sha b h (c\<lparr>bc_utxo := snd (connectBlockUTXO sha b (bc_utxo c))\<rparr>)) fs)"
proof (cases "connectable sha now b c")
  case False
  then show ?thesis by (intro refused) (auto simp: connectable_def connectBlock_def)
next
  case True
  then have fst: "fst (connectBlockUTXO sha b (bc_utxo c)) \<longleftrightarrow> distinct (block_spends b)"
    using connectBlockUTXO_iff [OF assms] connectable_spends by blast
  obtain ok u where u: "connectBlockUTXO sha b (bc_utxo c) = (ok, u)"
    by (cases "connectBlockUTXO sha b (bc_utxo c)")
  show ?thesis
  proof (cases ok)
    case ok: True
    with True fst u show ?thesis
      by (intro accepted) (simp_all add: connectable_def connectBlock_def Let_def split: prod.split)
  next
    case ok: False
    with True fst u show ?thesis
      by (intro repeated) (simp_all add: connectable_def connectBlock_def Let_def)
  qed
qed

end
