(* ===== verification/ChainInv.thy ===== *)
theory ChainInv
  imports Chain
begin

text \<open>
  What a running node keeps true of its chain. The abstract state is the list of accepted
  blocks, oldest first; \<open>holds_chain\<close> relates it to the maps of a \<open>Blockchain\<close>, and every
  \<^verbatim>\<open>addBlock\<close> of a single caller either leaves the list alone or extends it by one valid block.
  The UTXO set is at most what replaying the list gives, and exactly that as long as no block
  that repeats an outpoint has been submitted.
\<close>

definition replay :: "hasher \<Rightarrow> Block list \<Rightarrow> (OutPoint \<rightharpoonup> UtxoEntry)" where
  "replay sha bs = fold (connected sha) bs Map.empty"

text \<open>A block that may follow the blocks \<open>bs\<close>.\<close>

definition extends_chain :: "hasher \<Rightarrow> Block list \<Rightarrow> Block \<Rightarrow> bool" where
  "extends_chain sha bs b \<longleftrightarrow>
     previous_hash (header b) = getHash sha (List.last bs)
     \<and> getHash sha b \<notin> getHash sha ` set bs
     \<and> transactions b \<noteq> [] \<and> isCoinbase (hd (transactions b))
     \<and> merkle_root (header b) = computeMerkleRoot sha (transactions b)
     \<and> checkProofOfWork sha (header b)
     \<and> list_all validateTransactionStructure (tl (transactions b))
     \<and> distinct (block_spends b) \<and> set (block_spends b) \<subseteq> dom (replay sha bs)"

inductive valid_chain :: "hasher \<Rightarrow> Block list \<Rightarrow> bool" for sha where
  genesis: "valid_chain sha [makeGenesisBlock sha]"
| extend: "valid_chain sha bs \<Longrightarrow> extends_chain sha bs b \<Longrightarrow> valid_chain sha (bs @ [b])"

inductive_cases valid_chain_snocE: "valid_chain sha (bs @ [b])"

definition index_of :: "hasher \<Rightarrow> Block list \<Rightarrow> (u64 \<rightharpoonup> uint256)" where
  "index_of sha bs = (\<lambda>h. if unat h < length bs then Some (getHash sha (bs ! unat h)) else None)"

definition cache_of :: "hasher \<Rightarrow> Block list \<Rightarrow> (uint256 \<rightharpoonup> Block)" where
  "cache_of sha bs = map_of (map (\<lambda>b. (getHash sha b, b)) bs)"

definition holds_chain :: "hasher \<Rightarrow> Blockchain \<Rightarrow> Block list \<Rightarrow> bool" where
  "holds_chain sha c bs \<longleftrightarrow>
     map_ok (bc_utxo c) \<and> map_ok (blockCache c) \<and> map_ok (heightIndex c)
     \<and> length bs = Suc (unat (height c))
     \<and> bestBlockHash c = getHash sha (List.last bs)
     \<and> map_find (heightIndex c) = index_of sha bs
     \<and> map_find (blockCache c) = cache_of sha bs
     \<and> map_find (bc_utxo c) \<subseteq>\<^sub>m replay sha bs"

lemma connected_mono: "m \<subseteq>\<^sub>m m' \<Longrightarrow> connected sha b m \<subseteq>\<^sub>m connected sha b m'"
  by (auto simp: connected_def map_le_def map_add_def restrict_map_def split: option.split)

lemma replay_snoc [simp]: "replay sha (bs @ [b]) = connected sha b (replay sha bs)"
  by (simp add: replay_def)

lemma tx_effect_memo [simp]:
  "tx_spends (memo_txid sha tx) = tx_spends tx" "tx_creates sha (memo_txid sha tx) = tx_creates sha tx"
  by (simp_all add: tx_spends_def tx_creates_def)

lemma block_spends_memo [simp]: "block_spends (memo_block sha b) = block_spends b"
  by (simp add: block_spends_def drop_map comp_def)

lemma block_creates_memo [simp]: "block_creates sha (memo_block sha b) = block_creates sha b"
  by (simp add: block_creates_def comp_def)

lemma connected_memo [simp]: "connected sha (memo_block sha b) m = connected sha b m"
  by (simp add: connected_def)

lemma index_of_snoc:
  "length bs = unat h \<Longrightarrow> index_of sha (bs @ [b]) = (index_of sha bs)(h \<mapsto> getHash sha b)"
  by (auto simp: index_of_def fun_eq_iff nth_append word_unat_eq_iff)

lemma cache_of_None: "cache_of sha bs h = None \<longleftrightarrow> h \<notin> getHash sha ` set bs"
  by (auto simp: cache_of_def map_of_eq_None_iff image_iff)

lemma cache_of_snoc:
  assumes "getHash sha b \<notin> getHash sha ` set bs"
  shows "cache_of sha (bs @ [b]) = (cache_of sha bs)(getHash sha b \<mapsto> b)"
proof -
  have "dom [getHash sha b \<mapsto> b] \<inter> dom (cache_of sha bs) = {}"
    using assms cache_of_None [of sha bs "getHash sha b"] by auto
  then have "[getHash sha b \<mapsto> b] ++ cache_of sha bs = cache_of sha bs ++ [getHash sha b \<mapsto> b]"
    by (rule map_add_comm)
  then show ?thesis by (simp add: cache_of_def)
qed

lemma validate_structure_memo:
  "validateTransactionStructure (memo_txid sha tx) = validateTransactionStructure tx"
  by (simp add: validateTransactionStructure_def)

lemma merkle_memo [simp]:
  "computeMerkleRoot sha (map (memo_txid sha) txs) = computeMerkleRoot sha txs"
  by (simp add: computeMerkleRoot_def comp_def)

lemma validateBlockStructureD:
  assumes "validateBlockStructure sha now b"
  shows "transactions b \<noteq> []" "isCoinbase (hd (transactions b))"
    "merkle_root (header b) = computeMerkleRoot sha (transactions b)"
    "checkProofOfWork sha (header b)" "difficulty_target (header b) AND 0x007fffff \<noteq> 0"
    "timestamp (header b) \<le> now + 2 * 60 * 60"
  using assms by (auto simp: validateBlockStructure_def Let_def hd_conv_nth not_less split: if_splits)

lemma extends_chainI:
  assumes "holds_chain sha c bs" "connectable sha now b c" "distinct (block_spends b)"
    "previous_hash (header b) = bestBlockHash c" "map_find (blockCache c) (getHash sha b) = None"
  shows "extends_chain sha bs (memo_block sha b)"
proof -
  have v: "validateBlockStructure sha now b"
      "list_all validateTransactionStructure (tl (transactions b))"
    using assms(2) by (auto simp: connectable_def list_all_iff drop_Suc)
  have "dom (map_find (bc_utxo c)) \<subseteq> dom (replay sha bs)"
    using assms(1) by (simp add: holds_chain_def map_le_implies_dom_le)
  then have "set (block_spends b) \<subseteq> dom (replay sha bs)"
    using connectable_spends [OF assms(2)] by blast
  with assms v validateBlockStructureD [OF v(1)] show ?thesis
    by (auto simp: extends_chain_def holds_chain_def cache_of_None validate_structure_memo
        hd_map map_tl [symmetric] list_all_iff)
qed

lemma connectBlockUTXO_failed_subset:
  assumes "\<not> distinct (block_spends b)" "map_ok u"
  shows "map_find (snd (connectBlockUTXO sha b u)) \<subseteq>\<^sub>m map_find u"
  using spend_ops_subset [OF assms(2), of "block_spends b"] connectBlockUTXO_iff [OF assms(2), of sha b] assms(1)
  by (auto simp: connectBlockUTXO_ops split: prod.splits bool.splits)

lemma save_state_store:
  "chainState (fst (save_state w hash b h c fs)) = map_option (mem_store.store (hash, h, b)) (chainState c)"
  by (simp add: save_state_def mem_store.store_def Let_def split: option.split)

text \<open>The three outcomes of one submission.\<close>

lemma addBlock_step:
  assumes c: "holds_chain sha c bs" and h: "height c \<noteq> - 1"
    and a: "addBlock sha w now b n c fs = (r, c', fs')"
  obtains (same) "c' = c"
  | (damaged) "\<not> r" "\<not> distinct (block_spends b)"
      "c' = c\<lparr>bc_utxo := snd (connectBlockUTXO sha b (bc_utxo c))\<rparr>" "holds_chain sha c' bs"
  | (extended) "r" "extends_chain sha bs (memo_block sha b)"
      "holds_chain sha c' (bs @ [memo_block sha b])"
      "map_find (bc_utxo c') = connected sha b (map_find (bc_utxo c))"
      "chainState c' = map_option (mem_store.store (getHash sha b, height c', memo_block sha b)) (chainState c)"
proof -
  have ok: "map_ok (bc_utxo c)" and le: "map_find (bc_utxo c) \<subseteq>\<^sub>m replay sha bs"
    using c by (simp_all add: holds_chain_def)
  consider "c' = c" | (connect) "map_find (blockCache c) (getHash sha b) = None" "n = height c + 1"
      "previous_hash (header b) = bestBlockHash c" "connectBlock sha w now b n c fs = (r, c', fs')"
    using a by (auto simp: addBlock_def Let_def split: if_splits)
  then show ?thesis
  proof cases
    case 1
    then show ?thesis by (rule same)
  next
    case connect
    from ok show ?thesis
    proof (cases rule: connectBlock_cases [of c sha now b w n fs])
      case refused
      then show ?thesis using connect by (intro same) simp
    next
      case repeated
      have "map_find (snd (connectBlockUTXO sha b (bc_utxo c))) \<subseteq>\<^sub>m map_find (bc_utxo c)"
        using repeated(2) ok by (rule connectBlockUTXO_failed_subset)
      then have "map_find (snd (connectBlockUTXO sha b (bc_utxo c))) \<subseteq>\<^sub>m replay sha bs"
        using le by (rule map_le_trans)
      then show ?thesis
        using repeated connect c connectBlockUTXO_ok [OF ok, of sha b]
        by (intro damaged) (auto simp: holds_chain_def)
    next
      case accepted
      let ?u = "snd (connectBlockUTXO sha b (bc_utxo c))"
      have e: "extends_chain sha bs (memo_block sha b)"
        using c accepted(1,2) connect by (intro extends_chainI)
      have u: "map_find ?u = connected sha b (map_find (bc_utxo c))"
        using accepted(2) connectable_spends [OF accepted(1)]
        by (intro connectBlockUTXO_map ok) (simp add: connectBlockUTXO_iff ok)
      have c': "c' = fst (save_state w (getHash sha b) (memo_block sha b) n
          (record_block sha b n (c\<lparr>bc_utxo := ?u\<rparr>)) fs)"
        using accepted(3) connect(4) by (simp add: prod_eq_iff)
      have n: "unat n = length bs"
        using c unat_plus_1 [of "height c"] h connect(2)
        by (simp add: holds_chain_def eq_neg_iff_add_eq_0)
      have ix: "index_of sha (bs @ [memo_block sha b]) = (index_of sha bs)(n \<mapsto> getHash sha b)"
        using index_of_snoc [of bs n sha "memo_block sha b"] n by simp
      have "holds_chain sha c' (bs @ [memo_block sha b])"
        using c e connect(1) n connectBlockUTXO_ok [OF ok, of sha b] connected_mono [OF le, of sha b]
        by (simp add: c' holds_chain_def record_block_def Let_def u map_ok_put map_find_put
            ix cache_of_snoc extends_chain_def)
      moreover have "map_find (bc_utxo c') = connected sha b (map_find (bc_utxo c))"
        by (simp add: c' record_block_def Let_def u)
      moreover have r by (use accepted(3) connect(4) in simp)
      moreover have "chainState c' = map_option (mem_store.store (getHash sha b, height c', memo_block sha b)) (chainState c)"
        by (simp add: c' save_state_store record_block_def Let_def)
      ultimately show ?thesis using e by (intro extended)
    qed
  qed
qed


section \<open>A running node\<close>

text \<open>
  The chain \<^verbatim>\<open>main\<close> sets up: a new \<^verbatim>\<open>Blockchain\<close>, a new store attached to it, and \<^verbatim>\<open>init\<close>,
  which finds height 0 in the new store and keeps the genesis chain.
\<close>

definition main_chain :: "hasher \<Rightarrow> string \<Rightarrow> uint256 \<Rightarrow> Blockchain" where
  "main_chain sha dataDir junk =
     (let s = snd (cs_init dataDir (new_chainstate junk))
      in snd (bc_init dataDir (setChainState (Some s) (new_blockchain sha))))"

text \<open>
  The states a node passes through when blocks are submitted one after the other, with any
  height and clock. The flag says that no submitted block spent an outpoint twice, and the
  height stays below its last value.
\<close>

inductive node_run :: "hasher \<Rightarrow> bool \<Rightarrow> Blockchain \<Rightarrow> files \<Rightarrow> bool" for sha where
  boot: "node_run sha True (main_chain sha dataDir junk) fs"
| submit: "node_run sha clean c fs \<Longrightarrow> height c \<noteq> - 1 \<Longrightarrow>
     addBlock sha w now b n c fs = (r, c', fs') \<Longrightarrow>
     node_run sha (clean \<and> distinct (block_spends b)) c' fs'"

inductive_simps extend_iff: "valid_chain sha (bs @ [b])"

lemma main_chain_eq:
  "main_chain sha dataDir junk = setChainState
     (Some \<lparr>cs_path = dataDir, cs_bestHash = junk, cs_bestHeight = 0, cs_blocks = []\<rparr>) (new_blockchain sha)"
  by (simp add: main_chain_def cs_init_def new_chainstate_def bc_init_def setChainState_def
      getBestBlock_def)

lemma genesis_spends: "block_spends (makeGenesisBlock sha) = []"
  by (simp add: block_spends_def makeGenesisBlock_def)

lemma genesis_utxo:
  "map_ok (snd (connectBlockUTXO sha (makeGenesisBlock sha) []))"
  "map_find (snd (connectBlockUTXO sha (makeGenesisBlock sha) [])) = replay sha [makeGenesisBlock sha]"
  by (simp_all add: connectBlockUTXO_ok connectBlockUTXO_map connectBlockUTXO_iff genesis_spends
      replay_def std_map.find_empty)

lemma main_chain_holds:
  "holds_chain sha (main_chain sha dataDir junk) [makeGenesisBlock sha]"
  "map_find (bc_utxo (main_chain sha dataDir junk)) = replay sha [makeGenesisBlock sha]"
  by (auto simp: main_chain_eq setChainState_def new_blockchain_def holds_chain_def Let_def
      genesis_utxo index_of_def cache_of_def map_ok_Cons fun_eq_iff word_unat_eq_iff)

lemma node_run_chain:
  "node_run sha clean c fs \<Longrightarrow>
     \<exists>bs. valid_chain sha bs \<and> holds_chain sha c bs \<and> (clean \<longrightarrow> map_find (bc_utxo c) = replay sha bs)"
proof (induction rule: node_run.induct)
  case (boot dataDir junk fs)
  then show ?case using main_chain_holds by (blast intro: valid_chain.genesis)
next
  case (submit clean c fs w now b n r c' fs')
  then obtain bs where v: "valid_chain sha bs" and h: "holds_chain sha c bs"
    and u: "clean \<Longrightarrow> map_find (bc_utxo c) = replay sha bs" by blast
  from h submit.hyps(2,3) show ?case
  proof (cases rule: addBlock_step)
    case same
    then show ?thesis using v h u by blast
  next
    case damaged
    then show ?thesis using v by blast
  next
    case extended
    then have "valid_chain sha (bs @ [memo_block sha b])"
      using v by (intro valid_chain.extend)
    moreover have "clean \<Longrightarrow> map_find (bc_utxo c') = replay sha (bs @ [memo_block sha b])"
      using extended(4) u by simp
    ultimately show ?thesis using extended(3) by blast
  qed
qed


section \<open>Lookups in a chain\<close>

lemma valid_chain_distinct: "valid_chain sha bs \<Longrightarrow> distinct (map (getHash sha) bs)"
  by (induction rule: valid_chain.induct) (auto simp: extends_chain_def)

lemma cache_of_nth:
  "distinct (map (getHash sha) bs) \<Longrightarrow> i < length bs \<Longrightarrow> cache_of sha bs (getHash sha (bs ! i)) = Some (bs ! i)"
  unfolding cache_of_def
  by (rule map_of_is_SomeI) (auto simp: comp_def image_iff intro!: bexI [of _ "bs ! i"])

lemma getBlockByHeight_chain:
  assumes "holds_chain sha c bs" "valid_chain sha bs"
  shows "getBlockByHeight c h = (if unat h < length bs then Some (bs ! unat h) else None)"
  using assms(1) cache_of_nth [OF valid_chain_distinct [OF assms(2)]]
  by (simp add: getBlockByHeight_def holds_chain_def index_of_def)

lemma valid_chain_nth:
  "valid_chain sha bs \<Longrightarrow> Suc i < length bs \<Longrightarrow> extends_chain sha (take (Suc i) bs) (bs ! Suc i)"
proof (induction rule: valid_chain.induct)
  case genesis
  then show ?case by simp
next
  case (extend bs b)
  then show ?case by (cases "Suc i < length bs") (auto simp: nth_append)
qed

lemma replay_take:
  "k < length bs \<Longrightarrow> replay sha (take (Suc k) bs) = connected sha (bs ! k) (replay sha (take k bs))"
  by (simp add: take_Suc_conv_app_nth)

lemma spent_comes_back:
  "i < j \<Longrightarrow> j \<le> length bs \<Longrightarrow> op \<in> set (block_spends (bs ! i)) \<Longrightarrow> op \<in> dom (replay sha (take j bs)) \<Longrightarrow>
     \<exists>k. i \<le> k \<and> k < j \<and> op \<in> fst ` set (block_creates sha (bs ! k))"
proof (induction j)
  case 0
  then show ?case by simp
next
  case (Suc j)
  have c: "op \<in> fst ` set (block_creates sha (bs ! j)) \<or>
      op \<notin> set (block_spends (bs ! j)) \<and> op \<in> dom (replay sha (take j bs))"
    using Suc.prems(2,4) by (auto simp: replay_take connected_def map_of_eq_None_iff
        restrict_map_def split: if_splits dest!: map_of_SomeD)
      (force dest: map_of_SomeD)+
  show ?case
  proof (cases "op \<in> fst ` set (block_creates sha (bs ! j))")
    case True
    then show ?thesis using Suc.prems(1) by (intro exI [of _ j]) simp
  next
    case False
    with c Suc.prems(1,3) have "i < j" by (metis less_antisym)
    with Suc False c show ?thesis by (auto intro: less_SucI)
  qed
qed

text \<open>A valid block is accepted.\<close>

lemma addBlock_accepts:
  assumes "map_ok (bc_utxo c)" "map_find (blockCache c) (getHash sha b) = None"
    "n = height c + 1" "previous_hash (header b) = bestBlockHash c"
    "connectable sha now b c" "distinct (block_spends b)"
  shows "addBlock sha w now b n c fs = (True, save_state w (getHash sha b) (memo_block sha b) n
         (record_block sha b n (c\<lparr>bc_utxo := snd (connectBlockUTXO sha b (bc_utxo c))\<rparr>)) fs)"
  using assms(1)
proof (cases rule: connectBlock_cases [of c sha now b w n fs])
  case accepted
  with assms show ?thesis by (simp add: addBlock_def Let_def)
qed (use assms in simp_all)

end
