(* ===== verification/ChainProps.thy ===== *)
theory ChainProps
  imports ChainInv
begin

text \<open>
  The properties of the chain: what a node that takes one block at a time keeps true, what
  \<^verbatim>\<open>addBlock\<close> decides, and three ways in which the code falls short of its comments: a refused
  block that burns outputs, amounts nobody checks, and two threads adding at once.
\<close>

section \<open>An example hasher\<close>

text \<open>
  A hasher that keeps the first byte of its input: the hash of a block is the low byte of its
  version, the id of a transaction the low byte of its version. It is used in the examples
  only.
\<close>

definition tag_sha :: hasher where
  "tag_sha bs = mk_uint256 (take 1 bs)"

definition tag :: "u32 \<Rightarrow> uint256" where
  "tag v = mk_uint256 [word_of_nat (unat v)]"

lemma tag_sha_simps [simp]:
  "tag_sha (x # xs) = mk_uint256 [x]"
  "tag_sha (bytes_of (mk_uint256 [x])) = mk_uint256 [x]"
  "tag_sha (bytes_of (mk_uint256 [x]) @ ys) = mk_uint256 [x]"
  by (simp_all add: tag_sha_def bytes_of_mk_gen)

lemma txid_tag: "cached_txid tx = None \<Longrightarrow> txid tag_sha tx = tag (tx_version tx)"
  unfolding txid_fresh shawncoin_sha256d_def txid_buf_enc le_bytes_4 tag_def by simp

lemma hash_tag: "getHash tag_sha b = tag (hdr_version (header b))"
  unfolding getHash_def getHeaderHash_def shawncoin_sha256d_def header_buf_def writeU32_le
    le_bytes_4 tag_def Let_def by simp

lemma merkle_tag:
  assumes "cached_txid tx = None" "txs = [] \<or> (\<exists>ty. txs = [ty])"
  shows "computeMerkleRoot tag_sha (tx # txs) = tag (tx_version tx)"
proof -
  have "merkle_rounds tag_sha [tag v, h] = tag v" for v h
    by (simp add: merkle_rounds_step hash_pair_def shawncoin_sha256d_def tag_def)
  then show ?thesis
    using assms by (auto simp: computeMerkleRoot_def computeMerkleRootFromHashes_def txid_tag)
qed

lemma le_val_tag: "le_val (bytes_of (tag v)) = unat v mod 256"
  by (simp add: tag_def bytes_of_mk_gen unsigned_ucast_eq take_bit_eq_mod)

lemma tag_inject: "tag v = tag w \<longleftrightarrow> unat v mod 256 = unat w mod 256"
proof
  assume "unat v mod 256 = unat w mod 256"
  then have "(word_of_nat (unat v) :: byte) = word_of_nat (unat w)"
    by (intro word_unat_eq_iff [THEN iffD2]) (simp add: unsigned_ucast_eq take_bit_eq_mod)
  then show "tag v = tag w" unfolding tag_def by (rule arg_cong)
qed (metis le_val_tag)

lemma pow_tag:
  "checkProofOfWork tag_sha h \<longleftrightarrow> unat (hdr_version h) mod 256 \<le> le_val (compact_target (difficulty_target h))"
  using hash_tag [of "\<lparr>header = h, transactions = []\<rparr>"]
  by (simp add: checkProofOfWork_le_val getHash_def getHeaderHash_def flip: le_val_tag)

lemma easy_target_value: "255 \<le> le_val (compact_target EASY_MINE_DIFFICULTY)"
proof -
  have "compact_of 4 0xffff = EASY_MINE_DIFFICULTY"
    by (simp add: compact_of_def EASY_MINE_DIFFICULTY_def)
  then show ?thesis
    using compact_target_value [of 4 "0xffff"] by simp
qed

lemma pow_tag_easy: "difficulty_target h = EASY_MINE_DIFFICULTY \<Longrightarrow> checkProofOfWork tag_sha h"
  using easy_target_value mod_less_divisor [of 256 "unat (hdr_version h)"]
  by (simp add: pow_tag less_Suc_eq_le)

text \<open>A block of version \<open>v\<close> on top of the block of version \<open>p\<close>, its coinbase of version \<open>v\<close> too.\<close>

definition tag_coinbase :: "u32 \<Rightarrow> u64 \<Rightarrow> Transaction" where
  "tag_coinbase v a = genesis_coinbase\<lparr>tx_version := v, outputs := [\<lparr>amount = a, script_pubkey = [0x51]\<rparr>]\<rparr>"

definition tag_block :: "u32 \<Rightarrow> u32 \<Rightarrow> u64 \<Rightarrow> Transaction list \<Rightarrow> Block" where
  "tag_block p v a txs =
     \<lparr>header = \<lparr>hdr_version = v, previous_hash = tag p, merkle_root = tag v, timestamp = 0,
        difficulty_target = EASY_MINE_DIFFICULTY, nonce = 0\<rparr>,
      transactions = tag_coinbase v a # txs\<rparr>"

lemma tag_block_valid:
  assumes "txs = [] \<or> (\<exists>ty. txs = [ty])"
  shows "validateBlockStructure tag_sha 0 (tag_block p v a txs)"
proof -
  have "computeMerkleRoot tag_sha (tag_coinbase v a # txs) = tag v"
    using merkle_tag [OF _ assms, of "tag_coinbase v a"] by (simp add: tag_coinbase_def genesis_coinbase_def)
  moreover have "isCoinbase (tag_coinbase v a)"
    by (simp add: isCoinbase_def tag_coinbase_def genesis_coinbase_def)
  ultimately show ?thesis
    by (simp add: validateBlockStructure_def tag_block_def pow_tag_easy EASY_MINE_DIFFICULTY_def)
qed


section \<open>An example run\<close>

text \<open>A block that spends outpoints, accepted on top of a chain that has them.\<close>

lemma addBlock_tag:
  assumes h: "holds_chain tag_sha c bs" "valid_chain tag_sha bs"
    and tip: "bestBlockHash c = tag p" "height c \<noteq> - 1"
    and new: "tag v \<notin> getHash tag_sha ` set bs"
    and d: "checkDifficulty c (header (tag_block p v a txs))"
    and txs: "txs = [] \<or> (\<exists>ops. txs = [spending_tx ops] \<and> ops \<noteq> [] \<and> distinct ops
      \<and> set ops \<subseteq> dom (map_find (bc_utxo c)))"
  obtains c' fs' where
    "addBlock tag_sha w 0 (tag_block p v a txs) (height c + 1) c fs = (True, c', fs')"
    "holds_chain tag_sha c' (bs @ [memo_block tag_sha (tag_block p v a txs)])"
    "valid_chain tag_sha (bs @ [memo_block tag_sha (tag_block p v a txs)])"
    "map_find (bc_utxo c') = connected tag_sha (tag_block p v a txs) (map_find (bc_utxo c))"
    "height c' = height c + 1" "bestBlockHash c' = tag v"
proof -
  let ?b = "tag_block p v a txs"
  have H: "getHash tag_sha ?b = tag v" by (simp add: hash_tag tag_block_def)
  have v: "validateTransactionStructure (spending_tx ops)" if "ops \<noteq> []" for ops
    using that by (simp add: validateTransactionStructure_def spending_tx_def coin_params)
  have sp: "tx_spends (spending_tx ops) = ops" for ops
    by (simp add: tx_spends_def spending_tx_def outpoint_of_def comp_def)
  have con: "connectable tag_sha 0 ?b c" and dist: "distinct (block_spends ?b)"
    using txs d v tag_block_valid [of txs p v a]
    by (auto simp: connectable_def tag_block_def inputs_present_iff sp block_spends_def)
  have ok: "map_ok (bc_utxo c)" "map_find (blockCache c) (getHash tag_sha ?b) = None"
    using h(1) new by (simp_all add: holds_chain_def cache_of_None H)
  have prev: "previous_hash (header ?b) = bestBlockHash c"
    by (simp add: tag_block_def tip(1))
  obtain c' fs' where acc: "addBlock tag_sha w 0 ?b (height c + 1) c fs = (True, c', fs')"
    using addBlock_accepts [OF ok refl prev con dist, of w fs] by (metis surj_pair)
  have c': "height c' = height c + 1" "bestBlockHash c' = tag v"
    using acc addBlock_accepts [OF ok refl prev con dist, of w fs]
    by (auto simp: record_block_def Let_def H prod_eq_iff)
  from h(1) tip(2) acc show ?thesis
  proof (cases rule: addBlock_step)
    case same
    then show ?thesis using c'(1) by simp
  next
    case extended
    then show ?thesis
      using that [OF acc] c' h(2) by (blast intro: valid_chain.extend)
  qed simp
qed

abbreviation tag_genesis :: Block where
  "tag_genesis \<equiv> makeGenesisBlock tag_sha"

lemma genesis_tag:
  "getHash tag_sha tag_genesis = tag 1"
  "OutPoint (tag 1) 0 \<in> dom (replay tag_sha [tag_genesis])"
proof -
  show "getHash tag_sha tag_genesis = tag 1"
    by (simp add: hash_tag makeGenesisBlock_def)
  have "txid tag_sha genesis_coinbase = tag 1"
    by (simp add: txid_tag genesis_coinbase_def)
  then show "OutPoint (tag 1) 0 \<in> dom (replay tag_sha [tag_genesis])"
    by (simp add: replay_def connected_def block_creates_def makeGenesisBlock_def tx_creates_def)
      (simp add: genesis_coinbase_def)
qed

definition tag_start :: Blockchain where
  "tag_start = main_chain tag_sha [] uint256_zero"

lemma tag_start:
  "holds_chain tag_sha tag_start [tag_genesis]" "valid_chain tag_sha [tag_genesis]"
  "bestBlockHash tag_start = tag 1" "height tag_start = 0"
  "OutPoint (tag 1) 0 \<in> dom (map_find (bc_utxo tag_start))"
  "checkDifficulty tag_start h"
  "node_run tag_sha True tag_start (\<lambda>_. None)"
proof -
  show "node_run tag_sha True tag_start (\<lambda>_. None)"
    unfolding tag_start_def by (rule node_run.boot)
  show h: "holds_chain tag_sha tag_start [tag_genesis]"
    unfolding tag_start_def by (rule main_chain_holds)
  show v: "valid_chain tag_sha [tag_genesis]" by (rule valid_chain.genesis)
  show "bestBlockHash tag_start = tag 1"
    using h by (simp add: holds_chain_def genesis_tag)
  show z: "height tag_start = 0"
    by (simp add: tag_start_def main_chain_eq setChainState_def new_blockchain_def Let_def)
  show "OutPoint (tag 1) 0 \<in> dom (map_find (bc_utxo tag_start))"
    unfolding tag_start_def main_chain_holds(2) by (rule genesis_tag(2))
  show "checkDifficulty tag_start h"
    using z by (simp add: checkDifficulty_def getHeight_def)
qed

lemma tag_start_ok: "map_ok (bc_utxo tag_start)"
  using tag_start(1) by (simp add: holds_chain_def)

lemma not_cached_start:
  "unat v mod 256 \<noteq> 1 \<Longrightarrow> map_find (blockCache tag_start) (getHash tag_sha (tag_block p v a txs)) = None"
  using tag_start(1) genesis_tag(1)
  by (simp add: holds_chain_def cache_of_None hash_tag tag_inject) (simp add: tag_block_def)

text \<open>The first block after the genesis block of the example hasher.\<close>

lemma first_block:
  assumes "unat v mod 256 \<noteq> 1" "txs = [] \<or> txs = [spending_tx [OutPoint (tag 1) 0]]"
  obtains c' fs' where
    "addBlock tag_sha w 0 (tag_block 1 v a txs) 1 tag_start fs = (True, c', fs')"
    "holds_chain tag_sha c' [tag_genesis, memo_block tag_sha (tag_block 1 v a txs)]"
    "valid_chain tag_sha [tag_genesis, memo_block tag_sha (tag_block 1 v a txs)]"
    "map_find (bc_utxo c') = connected tag_sha (tag_block 1 v a txs) (map_find (bc_utxo tag_start))"
    "height c' = 1" "bestBlockHash c' = tag v"
proof (rule addBlock_tag [OF tag_start(1-3) _ _ tag_start(6)])
  show "height tag_start \<noteq> - 1" by (simp add: tag_start(4))
  show "tag v \<notin> getHash tag_sha ` set [tag_genesis]"
    using assms(1) by (simp add: genesis_tag tag_inject)
  show "txs = [] \<or> (\<exists>ops. txs = [spending_tx ops] \<and> ops \<noteq> [] \<and> distinct ops
      \<and> set ops \<subseteq> dom (map_find (bc_utxo tag_start)))"
    using assms(2) tag_start(5) by auto
qed (use that in \<open>simp add: tag_start(4)\<close>)

text \<open>A second block, which spends what the first one created under the same outpoint.\<close>

lemma block_spends_tag [simp]: "block_spends (tag_block p v a [spending_tx ops]) = ops"
  by (simp add: block_spends_def tag_block_def tx_spends_def spending_tx_def outpoint_of_def comp_def)

lemma spending_tx_creates: "tx_creates tag_sha (spending_tx ops)
    = [(OutPoint (tag 1) 0, \<lparr>entry_amount = 7, entry_script = [0x51]\<rparr>)]"
proof -
  have "txid tag_sha (spending_tx ops) = tag 1"
    by (simp add: txid_tag spending_tx_def)
  then show ?thesis by (simp add: tx_creates_def) (simp add: spending_tx_def)
qed

lemma checkDifficulty_cong:
  assumes "difficulty_target h = difficulty_target h'"
  shows "checkDifficulty c h = checkDifficulty c h'"
  unfolding checkDifficulty_def assms ..

lemma checkDifficulty_next:
  assumes "height c \<noteq> 0" "getBlockByHeight c (height c) = Some prev"
    and "(height c + 1) mod 2016 \<noteq> 0" "difficulty_target h = difficulty_target (header prev)"
  shows "checkDifficulty c h"
  using assms by (simp add: checkDifficulty_def getHeight_def DIFFICULTY_INTERVAL_def)

lemma two_blocks:
  obtains c fs where "node_run tag_sha True c fs"
    "getBlockByHeight c 1 = Some (memo_block tag_sha (tag_block 1 2 5 [spending_tx [OutPoint (tag 1) 0]]))"
    "getBlockByHeight c 2 = Some (memo_block tag_sha (tag_block 2 3 5 [spending_tx [OutPoint (tag 1) 0]]))"
    "height c = 2" "bestBlockHash c = tag 3"
proof -
  let ?txs = "[spending_tx [OutPoint (tag 1) 0]]"
  let ?b = "tag_block 1 2 5 ?txs" and ?d = "tag_block 2 3 5 ?txs"
  obtain c1 f1 where a: "addBlock tag_sha (\<lambda>_. True) 0 ?b 1 tag_start (\<lambda>_. None) = (True, c1, f1)"
    and h: "holds_chain tag_sha c1 [tag_genesis, memo_block tag_sha ?b]"
      "valid_chain tag_sha [tag_genesis, memo_block tag_sha ?b]"
    and u: "map_find (bc_utxo c1) = connected tag_sha ?b (map_find (bc_utxo tag_start))"
    and t: "height c1 = 1" "bestBlockHash c1 = tag 2"
    by (rule first_block [of 2 ?txs]) simp_all
  have r: "node_run tag_sha True c1 f1"
    using node_run.submit [OF tag_start(7) _ a] by (simp add: tag_start(4))
  have "getBlockByHeight c1 (height c1) = Some (memo_block tag_sha ?b)"
    by (simp add: getBlockByHeight_chain [OF h] t)
  then have d: "checkDifficulty c1 (header ?d)"
    by (rule checkDifficulty_next [rotated]) (simp_all add: t tag_block_def)
  have "OutPoint (tag 1) 0 \<in> dom (map_find (bc_utxo c1))"
    unfolding u connected_def block_creates_def
    by (simp add: tag_block_def spending_tx_creates)
  then have "?txs = [] \<or> (\<exists>ops. ?txs = [spending_tx ops] \<and> ops \<noteq> [] \<and> distinct ops
      \<and> set ops \<subseteq> dom (map_find (bc_utxo c1)))"
    by auto
  moreover have "tag 3 \<notin> getHash tag_sha ` set [tag_genesis, memo_block tag_sha ?b]"
    using genesis_tag(1) by (simp add: hash_tag tag_inject) (simp add: tag_block_def)
  moreover have "height c1 \<noteq> - 1" by (simp add: t)
  ultimately obtain c2 f2 where a2: "addBlock tag_sha (\<lambda>_. True) 0 ?d (height c1 + 1) c1 f1 = (True, c2, f2)"
    and h2: "holds_chain tag_sha c2 ([tag_genesis, memo_block tag_sha ?b] @ [memo_block tag_sha ?d])"
      "valid_chain tag_sha ([tag_genesis, memo_block tag_sha ?b] @ [memo_block tag_sha ?d])"
    and t2: "height c2 = height c1 + 1" "bestBlockHash c2 = tag 3"
    using addBlock_tag [OF h t(2) _ _ d, of "\<lambda>_. True" f1] by blast
  have "node_run tag_sha True c2 f2"
    using node_run.submit [OF r _ a2] t by simp
  then show ?thesis
    using that [of c2 f2] t t2 by (simp add: getBlockByHeight_chain [OF h2])
qed


text \<open>The output loop on machine words computes the true sum.\<close>

lemma sum_outputs_nat:
  "sum_outputs os s =
     (if (\<forall>o' \<in> set os. amount o' \<le> MAX_MONEY) \<and> unat s + (\<Sum>o' \<leftarrow> os. unat (amount o')) < 2 ^ 64
      then Some (word_of_nat (unat s + (\<Sum>o' \<leftarrow> os. unat (amount o')))) else None)"
proof (induction os s rule: sum_outputs.induct)
  case (1 s)
  then show ?case using unsigned_less [of s, where 'a = nat] by simp
next
  case (2 o' os s)
  have lt: "unat s < 2 ^ 64" "unat (amount o') < 2 ^ 64"
    using unsigned_less [of s, where 'a = nat] unsigned_less [of "amount o'", where 'a = nat] by simp_all
  have u: "unat (s + amount o') = unat s + unat (amount o')" if "\<not> s + amount o' < s"
    using that no_olen_add_nat [of s "amount o'"] by (simp add: not_less unat_add_lem [THEN iffD1])
  have w: "s + amount o' < s \<longleftrightarrow> 2 ^ 64 \<le> unat s + unat (amount o')"
    using lt by (auto simp: word_less_nat_alt unat_word_ariths mod_if not_le)
  show ?case
    using 2 u w by (auto simp: not_less not_le add.assoc)
qed


section \<open>Properties\<close>

text \<open>
  C1. The chain invariant of a node. Whatever blocks are submitted, one after the other, with
  whatever heights and clocks: the block cache and the height index hold exactly one valid
  chain from the genesis block to the best block, each block naming the one before it, with
  the right Merkle root, proof of work, a coinbase, and inputs that the blocks before it
  created and left unspent. The UTXO set is never more than replaying that chain
  gives, and exactly that if no submitted block spent an outpoint twice.
\<close>

theorem node_keeps_chain:
  assumes "node_run sha clean c fs"
  shows "\<exists>bs. valid_chain sha bs \<and> holds_chain sha c bs
    \<and> (clean \<longrightarrow> map_find (bc_utxo c) = replay sha bs)"
  using assms by (rule node_run_chain)

theorem node_keeps_chain_witness:
  "\<exists>bs. valid_chain tag_sha bs \<and> length bs = 2
     \<and> holds_chain tag_sha (fst (snd (addBlock tag_sha (\<lambda>_. True) 0
          (tag_block 1 2 5 [spending_tx [OutPoint (tag 1) 0]]) 1 tag_start (\<lambda>_. None)))) bs"
proof -
  let ?b = "tag_block 1 2 5 [spending_tx [OutPoint (tag 1) 0]]"
  obtain c' fs' where a: "addBlock tag_sha (\<lambda>_. True) 0 ?b 1 tag_start (\<lambda>_. None) = (True, c', fs')"
    and z: "height c' = 1"
    by (rule first_block [of 2 "[spending_tx [OutPoint (tag 1) 0]]"]) simp_all
  have "node_run tag_sha (True \<and> distinct (block_spends ?b)) c' fs'"
    using tag_start(7) _ a by (rule node_run.submit) (simp add: tag_start(4))
  from node_keeps_chain [OF this] obtain bs
    where "valid_chain tag_sha bs" "holds_chain tag_sha c' bs" by blast
  moreover have "length bs = 2"
    using \<open>holds_chain tag_sha c' bs\<close> z by (simp add: holds_chain_def)
  ultimately show ?thesis using a by auto
qed

text \<open>
  C2. No double spending along the chain a node reports: if two blocks it returns for heights
  \<open>i < j\<close> spend the same outpoint, some block from height \<open>i\<close> on and below \<open>j\<close> has created
  that outpoint again. (Ids can repeat: a coinbase is not tied to its height.)
\<close>

theorem no_double_spend:
  assumes "node_run sha clean c fs"
    and "getBlockByHeight c i = Some b" "getBlockByHeight c j = Some b'" "i < j"
    and "op \<in> set (block_spends b)" "op \<in> set (block_spends b')"
  shows "\<exists>k b''. i \<le> k \<and> k < j \<and> getBlockByHeight c k = Some b''
    \<and> op \<in> fst ` set (block_creates sha b'')"
proof -
  obtain bs where v: "valid_chain sha bs" and h: "holds_chain sha c bs"
    using node_run_chain [OF assms(1)] by blast
  note look = getBlockByHeight_chain [OF h v]
  have ij: "unat i < unat j" "unat j < length bs" "b = bs ! unat i" "b' = bs ! unat j"
    using assms(2-4) by (auto simp: look word_less_nat_alt split: if_splits)
  have "op \<in> dom (replay sha (take (unat j) bs))"
    using valid_chain_nth [OF v, of "unat j - 1"] ij assms(6)
    by (auto simp: extends_chain_def)
  then obtain k where k: "unat i \<le> k" "k < unat j" "op \<in> fst ` set (block_creates sha (bs ! k))"
    using spent_comes_back [of "unat i" "unat j" bs op sha] ij assms(5) by auto
  have "unat (word_of_nat k :: u64) = k"
    using k(2) unsigned_less [of j, where 'a = nat] by (simp add: unat_of_nat)
  then show ?thesis
    using k ij(2) by (intro exI [of _ "word_of_nat k"]) (auto simp: look word_le_nat_alt word_less_nat_alt)
qed


theorem no_double_spend_witness:
  "\<exists>c fs k b. node_run tag_sha True c fs \<and> 1 \<le> k \<and> k < 2 \<and> getBlockByHeight c k = Some b
     \<and> OutPoint (tag 1) 0 \<in> fst ` set (block_creates tag_sha b)"
proof (rule two_blocks)
  fix c fs
  assume r: "node_run tag_sha True c fs"
    "getBlockByHeight c 1 = Some (memo_block tag_sha (tag_block 1 2 5 [spending_tx [OutPoint (tag 1) 0]]))"
    "getBlockByHeight c 2 = Some (memo_block tag_sha (tag_block 2 3 5 [spending_tx [OutPoint (tag 1) 0]]))"
  have "(1 :: u64) < 2" by simp
  from no_double_spend [OF r this, of "OutPoint (tag 1) 0"] r(1) show ?thesis by auto
qed




text \<open>
  C20. A refused block can burn coins. A block on top of the chain that satisfies every rule
  but spends some outpoint \<open>x\<close> for the second time is refused, the chain stays as it was, and
  yet the outpoints spent before are gone from the UTXO set: no later block that spends
  one of them can be added to that state.
\<close>

theorem refused_block_burns:
  assumes "map_ok (bc_utxo c)" "map_find (blockCache c) (getHash sha b) = None"
    and "previous_hash (header b) = bestBlockHash c" "connectable sha now b c"
    and "block_spends b = xs @ x # ys" "distinct xs" "x \<in> set xs"
  shows "addBlock sha w now b (height c + 1) c fs = (False, c\<lparr>bc_utxo := fold map_erase xs (bc_utxo c)\<rparr>, fs)
    \<and> (\<forall>op \<in> set xs. \<forall>b'. op \<in> set (block_spends b') \<longrightarrow> map_find (blockCache c) (getHash sha b') = None \<longrightarrow>
        \<not> fst (addBlock sha w' now' b' n' (c\<lparr>bc_utxo := fold map_erase xs (bc_utxo c)\<rparr>) fs'))"
proof (intro conjI ballI allI impI)
  have "set xs \<subseteq> dom (map_find (bc_utxo c))"
    using connectable_spends [OF assms(4)] assms(5) by auto
  then have f: "connectBlockUTXO sha b (bc_utxo c) = (False, fold map_erase xs (bc_utxo c))"
    using spend_ops_prefix [OF assms(1,6), of x ys] assms(5,7) by (simp add: connectBlockUTXO_ops)
  show "addBlock sha w now b (height c + 1) c fs = (False, c\<lparr>bc_utxo := fold map_erase xs (bc_utxo c)\<rparr>, fs)"
    using assms(2-4) f by (simp add: addBlock_def connectBlock_def connectable_def Let_def)
next
  fix op b'
  assume op: "op \<in> set xs" "op \<in> set (block_spends b')"
    and new: "map_find (blockCache c) (getHash sha b') = None"
  let ?c = "c\<lparr>bc_utxo := fold map_erase xs (bc_utxo c)\<rparr>"
  have e: "map_ok (bc_utxo ?c)" "op \<notin> dom (map_find (bc_utxo ?c))"
    using std_map.erase_all [OF assms(1), of xs] op(1) by auto
  then have "\<not> connectable sha now' b' ?c"
    using connectable_spends [of sha now' b' ?c] op(2) by blast
  with e(1) show "\<not> fst (addBlock sha w' now' b' n' ?c fs')"
    by (cases rule: connectBlock_cases [of ?c sha now' b' w' n' fs'])
      (use new in \<open>auto simp: addBlock_def Let_def\<close>)
qed

theorem refused_block_burns_witness:
  "addBlock tag_sha (\<lambda>_. True) 0 (tag_block 1 2 5 [spending_tx [OutPoint (tag 1) 0, OutPoint (tag 1) 0]])
     (height tag_start + 1) tag_start (\<lambda>_. None)
   = (False, tag_start\<lparr>bc_utxo := map_erase (OutPoint (tag 1) 0) (bc_utxo tag_start)\<rparr>, \<lambda>_. None)"
proof -
  let ?b = "tag_block 1 2 5 [spending_tx [OutPoint (tag 1) 0, OutPoint (tag 1) 0]]"
  have "map_ok (bc_utxo tag_start)" "map_find (blockCache tag_start) (getHash tag_sha ?b) = None"
    by (simp_all add: tag_start_ok not_cached_start)
  moreover have "previous_hash (header ?b) = bestBlockHash tag_start"
    by (simp add: tag_block_def tag_start(3))
  moreover have "connectable tag_sha 0 ?b tag_start"
    using tag_start(5) tag_block_valid [of "[spending_tx [OutPoint (tag 1) 0, OutPoint (tag 1) 0]]" 1 2 5]
    by (simp add: connectable_def tag_start(6) inputs_present_iff)
      (simp add: tag_block_def validateTransactionStructure_def spending_tx_def coin_params
        inputs_present_iff tx_spends_def outpoint_of_def)
  ultimately show ?thesis
    using refused_block_burns [of tag_start tag_sha ?b 0 "[OutPoint (tag 1) 0]" "OutPoint (tag 1) 0" "[]"]
    by simp
qed

text \<open>
  C21. Amounts are not checked. Take any block the chain would accept and replace the outputs
  of its transactions by any others (below the money limit, except that the coinbase may pay
  anything), recompute the Merkle root and find a nonce: the chain accepts that block too.
  Neither the subsidy nor the value of the inputs bounds what a block pays out.
\<close>

theorem amounts_unchecked:
  assumes "map_ok (bc_utxo c)" "fst (addBlock sha w now b (height c + 1) c fs)"
    and "map_find (blockCache c) (getHash sha b) = None" "map_find (blockCache c) (getHash sha b') = None"
    and "header b' = (header b)\<lparr>merkle_root := computeMerkleRoot sha (transactions b'), nonce := k\<rparr>"
    and "checkProofOfWork sha (header b')"
    and "map inputs (transactions b') = map inputs (transactions b)"
    and "list_all validateTransactionStructure (tl (transactions b'))"
  shows "fst (addBlock sha w now b' (height c + 1) c fs)"
proof -
  from assms(1) have con: "connectable sha now b c" "distinct (block_spends b)"
      "previous_hash (header b) = bestBlockHash c"
    by (cases rule: connectBlock_cases [of c sha now b w "height c + 1" fs];
        use assms(2,3) in \<open>auto simp: addBlock_def Let_def split: if_splits\<close>)+
  have sp: "map tx_spends (transactions b') = map tx_spends (transactions b)"
    using arg_cong [OF assms(7), of "map (map outpoint_of)"] by (simp add: tx_spends_def [abs_def] comp_def)
  then have sp': "map tx_spends (drop 1 (transactions b')) = map tx_spends (drop 1 (transactions b))"
    by (simp only: drop_map [symmetric])
  then have spends: "block_spends b' = block_spends b"
    by (simp add: block_spends_def)
  have ne: "transactions b \<noteq> []" "isCoinbase (transactions b ! 0)"
    using con(1) by (auto simp: connectable_def validateBlockStructure_def split: if_splits)
  then have ne': "transactions b' \<noteq> []" using assms(7) by auto
  then have "inputs (transactions b' ! 0) = inputs (transactions b ! 0)"
    using arg_cong [OF assms(7), of hd] ne(1) by (simp add: hd_map hd_conv_nth)
  then have "validateBlockStructure sha now b'"
    using con(1) ne ne' assms(5,6)
    by (auto simp: connectable_def validateBlockStructure_def isCoinbase_def Let_def split: if_splits)
  moreover have "checkDifficulty c (header b') = checkDifficulty c (header b)"
    by (rule checkDifficulty_cong) (simp add: assms(5))
  moreover have "list_all (inputs_present (bc_utxo c)) (drop 1 (transactions b'))"
  proof -
    have p: "list_all (inputs_present (bc_utxo c)) txs \<longleftrightarrow>
        (\<forall>ops \<in> set (map tx_spends txs). set ops \<subseteq> dom (map_find (bc_utxo c)))" for txs
      by (auto simp: list_all_iff inputs_present_iff)
    show ?thesis
      using con(1) unfolding p sp' by (auto simp: connectable_def list_all_iff inputs_present_iff)
  qed
  ultimately have "connectable sha now b' c" using con(1) assms(8)
    by (auto simp: connectable_def list_all_iff drop_Suc)
  then show ?thesis
    using addBlock_accepts [OF assms(1,4) refl _ _ , of now w fs] con spends assms(5) by simp
qed


theorem amounts_unchecked_witness:
  "fst (addBlock tag_sha (\<lambda>_. True) 0 (tag_block 1 2 (- 1) []) (height tag_start + 1) tag_start (\<lambda>_. None))"
proof (rule amounts_unchecked [where b = "tag_block 1 2 5 []" and k = 0])
  show "map_ok (bc_utxo tag_start)" by (rule tag_start_ok)
  show "fst (addBlock tag_sha (\<lambda>_. True) 0 (tag_block 1 2 5 []) (height tag_start + 1) tag_start (\<lambda>_. None))"
    by (rule first_block [of 2 "[]" "\<lambda>_. True" 5 "\<lambda>_. None"]) (simp_all add: tag_start(4))
  show "map_find (blockCache tag_start) (getHash tag_sha (tag_block 1 2 5 [])) = None"
    "map_find (blockCache tag_start) (getHash tag_sha (tag_block 1 2 (- 1) [])) = None"
    by (simp_all add: not_cached_start)
  have "computeMerkleRoot tag_sha (transactions (tag_block 1 2 a [])) = tag 2" for a
    using merkle_tag [of "tag_coinbase 2 a" "[]"]
    by (simp add: tag_block_def tag_coinbase_def genesis_coinbase_def)
  then show "header (tag_block 1 2 (- 1) []) = (header (tag_block 1 2 5 []))
      \<lparr>merkle_root := computeMerkleRoot tag_sha (transactions (tag_block 1 2 (- 1) [])), nonce := 0\<rparr>"
    by (simp add: tag_block_def)
qed (simp_all add: pow_tag_easy tag_block_def tag_coinbase_def)


text \<open>What the attached store holds of a chain: its best block, and every block but the first.\<close>

definition mirrors :: "hasher \<Rightarrow> Blockchain \<Rightarrow> Block list \<Rightarrow> MemoryChainState \<Rightarrow> bool" where
  "mirrors sha c bs s \<longleftrightarrow>
     (1 < length bs \<longrightarrow> getBestBlock s = (True, bestBlockHash c, height c))
     \<and> (\<forall>b \<in> set (tl bs). block_ok b \<longrightarrow> cs_getBlock (getHash sha b) s = Some (forget_ids b))"

lemma mirrors_extend:
  assumes "mirrors sha c bs s" "valid_chain sha bs" "getHash sha b \<notin> getHash sha ` set bs"
    and "bestBlockHash c' = getHash sha b" "block_ok b' = block_ok b" "b' = memo_block sha b"
  shows "mirrors sha c' (bs @ [b']) (mem_store.store (getHash sha b, height c', b') s)"
proof -
  have ne: "bs \<noteq> []" using assms(2) by (auto elim: valid_chain.cases)
  have "cs_getBlock (getHash sha x) (mem_store.store (getHash sha b, height c', b') s) = Some (forget_ids x)"
    if "x \<in> set (tl bs)" "block_ok x" for x
  proof -
    have "x \<in> set bs" using that(1) by (rule list.set_sel(2) [OF ne])
    then have "getHash sha x \<noteq> getHash sha b" using assms(3) by (metis image_eqI)
    then show ?thesis
      using that assms(1) by (simp add: mem_store.store_other mirrors_def)
  qed
  then show ?thesis
    using ne assms(4-6) by (auto simp: mirrors_def mem_store.store_best mem_store.store_block tl_append split: list.splits)
qed

lemma node_run_mirrors:
  "node_run sha clean c fs \<Longrightarrow>
     \<exists>bs s. valid_chain sha bs \<and> holds_chain sha c bs \<and> chainState c = Some s \<and> mirrors sha c bs s"
proof (induction rule: node_run.induct)
  case (boot dataDir junk fs)
  show ?case
    using main_chain_holds(1) valid_chain.genesis [of sha]
    by (auto simp: main_chain_eq setChainState_def mirrors_def intro!: exI [of _ "[makeGenesisBlock sha]"])
next
  case (submit clean c fs w now b n r c' fs')
  then obtain bs s where v: "valid_chain sha bs" and h: "holds_chain sha c bs"
    and s: "chainState c = Some s" "mirrors sha c bs s" by blast
  from h submit.hyps(2,3) show ?case
  proof (cases rule: addBlock_step)
    case same
    then show ?thesis using v h s by blast
  next
    case damaged
    then show ?thesis using v s by (auto simp: mirrors_def)
  next
    case extended
    let ?b = "memo_block sha b"
    have new: "getHash sha b \<notin> getHash sha ` set bs"
      using extended(2) by (simp add: extends_chain_def)
    have best: "bestBlockHash c' = getHash sha b"
      using extended(3) by (simp add: holds_chain_def)
    have "enc_tx (memo_txid sha tx) = enc_tx tx \<and> tx_ok (memo_txid sha tx) = tx_ok tx" for tx
      by (simp add: enc_tx_def tx_ok_def)
    then have "block_ok ?b = block_ok b" by (simp add: block_ok_def list_all_iff)
    then have "mirrors sha c' (bs @ [?b]) (mem_store.store (getHash sha b, height c', ?b) s)"
      using s(2) v new best by (intro mirrors_extend) simp_all
    moreover have "valid_chain sha (bs @ [?b])"
      using v extended(2) by (rule valid_chain.extend)
    ultimately show ?thesis using extended(3,5) s(1) by auto
  qed
qed

text \<open>
  C16. The attached store keeps up with the chain: after any run of submissions it reports
  the best block and height of the chain as soon as one block has been added, and
  returns every block of the chain above genesis whose sizes the wire format can hold,
  though none of its cached ids. (The genesis block itself is never put into the store.)
\<close>

theorem store_mirrors_chain:
  assumes "node_run sha clean c fs" "0 < height c" "getBlockByHeight c h = Some b" "0 < h" "block_ok b"
  shows "case chainState c of
      None \<Rightarrow> False
    | Some s \<Rightarrow> getBestBlock s = (True, bestBlockHash c, height c)
        \<and> cs_getBlock (getHash sha b) s = Some (forget_ids b)"
proof -
  obtain bs s where v: "valid_chain sha bs" and hc: "holds_chain sha c bs"
    and s: "chainState c = Some s" "mirrors sha c bs s"
    using node_run_mirrors [OF assms(1)] by blast
  have len: "1 < length bs"
    using hc assms(2) by (simp add: holds_chain_def word_less_nat_alt)
  have "unat h < length bs" "b = bs ! unat h" "0 < unat h"
    using assms(3,4) by (auto simp: getBlockByHeight_chain [OF hc v] word_less_nat_alt split: if_splits)
  then have "b \<in> set (tl bs)"
    by (auto simp: in_set_conv_nth nth_tl intro!: exI [of _ "unat h - 1"])
  then show ?thesis using s len assms(5) by (simp add: mirrors_def)
qed

theorem store_mirrors_chain_witness:
  "\<exists>c fs. node_run tag_sha True c fs \<and>
     (case chainState c of None \<Rightarrow> False
      | Some s \<Rightarrow> getBestBlock s = (True, tag 3, 2))"
proof (rule two_blocks)
  fix c fs
  assume r: "node_run tag_sha True c fs"
    and b1: "getBlockByHeight c 1 = Some (memo_block tag_sha (tag_block 1 2 5 [spending_tx [OutPoint (tag 1) 0]]))"
    and b2: "getBlockByHeight c 2 = Some (memo_block tag_sha (tag_block 2 3 5 [spending_tx [OutPoint (tag 1) 0]]))"
    and t: "height c = 2" "bestBlockHash c = tag 3"
  have "block_ok (memo_block tag_sha (tag_block 2 3 5 [spending_tx [OutPoint (tag 1) 0]]))"
    by (simp add: block_ok_def tag_block_def memo_block_def tx_ok_def tag_coinbase_def genesis_coinbase_def
        genesis_msg_def spending_tx_def input_ok_def output_ok_def)
  from store_mirrors_chain [OF r _ b2 _ this] t r show ?thesis
    by (auto split: option.splits)
qed

text \<open>
  \<^verbatim>\<open>validateTransactionStructure\<close> is sound on machine words: it accepts exactly the
  transactions with at least one output, no output above 12 million coins and a true sum of
  outputs, without wrap-around, of at most 12 million coins, that have an input (a coinbase
  has one anyway). The order in which the code checks does not matter.
\<close>

theorem transaction_structure_exact:
  "validateTransactionStructure tx \<longleftrightarrow>
     outputs tx \<noteq> [] \<and> inputs tx \<noteq> []
     \<and> (\<Sum>o' \<leftarrow> outputs tx. unat (amount o')) \<le> 12000000 * 100000000"
proof -
  let ?s = "\<Sum>o' \<leftarrow> outputs tx. unat (amount o')"
  have m: "unat MAX_MONEY = 12000000 * 100000000" by (simp add: coin_params)
  have le: "unat (amount o') \<le> ?s" if "o' \<in> set (outputs tx)" for o'
    using that by (intro member_le_sum_list) auto
  have "amount o' \<le> MAX_MONEY" if "o' \<in> set (outputs tx)" "?s \<le> unat MAX_MONEY" for o'
    using le [OF that(1)] that(2) by (simp add: word_le_nat_alt)
  then have e: "(case sum_outputs (outputs tx) 0 of None \<Rightarrow> False | Some s \<Rightarrow> s \<le> MAX_MONEY)
      \<longleftrightarrow> ?s \<le> unat MAX_MONEY"
    by (auto simp: sum_outputs_nat word_le_nat_alt unat_of_nat m)
  have c: "isCoinbase tx \<Longrightarrow> inputs tx \<noteq> []" by (auto simp: isCoinbase_def)
  show ?thesis
    using e c unfolding validateTransactionStructure_def m by (auto split: option.splits simp: not_less)
qed

section \<open>Two threads\<close>

text \<open>
  \<^verbatim>\<open>addBlock\<close> releases the lock between its checks and \<^verbatim>\<open>connectBlock\<close>. A thread first runs
  the checks (\<open>addBlock_check\<close>) and later connects the block it has checked; the threads
  interleave. (The connecting part is one step here; the code splits it further, so every
  run of this relation is a run of the code.)
\<close>

definition addBlock_check :: "hasher \<Rightarrow> Block \<Rightarrow> u64 \<Rightarrow> Blockchain \<Rightarrow> bool" where
  "addBlock_check sha b n c \<longleftrightarrow>
     map_find (blockCache c) (getHash sha b) = None \<and> n = height c + 1
       \<and> previous_hash (header b) = bestBlockHash c"

inductive par_run ::
    "hasher \<Rightarrow> (string \<Rightarrow> bool) \<Rightarrow> Blockchain \<Rightarrow> Blockchain \<Rightarrow> files \<Rightarrow> (nat \<rightharpoonup> Block \<times> u64) \<Rightarrow> bool"
    for sha w c0 where
  start: "par_run sha w c0 c0 fs Map.empty"
| check: "par_run sha w c0 c fs pend \<Longrightarrow> pend t = None \<Longrightarrow> addBlock_check sha b n c \<Longrightarrow>
     par_run sha w c0 c fs (pend(t \<mapsto> (b, n)))"
| connect: "par_run sha w c0 c fs pend \<Longrightarrow> pend t = Some (b, n) \<Longrightarrow>
     connectBlock sha w now b n c fs = (r, c', fs') \<Longrightarrow> par_run sha w c0 c' fs' (pend(t := None))"

text \<open>Without another thread in between, the two steps are \<^verbatim>\<open>addBlock\<close>.\<close>

lemma addBlock_split:
  "addBlock_check sha b n c \<Longrightarrow> addBlock sha w now b n c fs = connectBlock sha w now b n c fs"
  by (simp add: addBlock_check_def addBlock_def Let_def)


lemma connectBlock_accepted:
  assumes "map_ok (bc_utxo c)" "connectBlock sha w now b n c fs = (True, c', fs')"
  shows "connectable sha now b c" "distinct (block_spends b)"
    "height c' = n" "bestBlockHash c' = getHash sha b"
    "heightIndex c' = map_put n (getHash sha b) (heightIndex c)"
    "blockCache c' = map_put (getHash sha b) (memo_block sha b) (blockCache c)"
    "bc_utxo c' = snd (connectBlockUTXO sha b (bc_utxo c))"
proof -
  have "connectable sha now b c \<and> distinct (block_spends b) \<and>
    c' = fst (save_state w (getHash sha b) (memo_block sha b) n
         (record_block sha b n (c\<lparr>bc_utxo := snd (connectBlockUTXO sha b (bc_utxo c))\<rparr>)) fs)"
    using assms(1)
    by (cases rule: connectBlock_cases [of c sha now b w n fs]) (use assms(2) in \<open>simp_all add: prod_eq_iff\<close>)
  then show "connectable sha now b c" "distinct (block_spends b)"
    "height c' = n" "bestBlockHash c' = getHash sha b"
    "heightIndex c' = map_put n (getHash sha b) (heightIndex c)"
    "blockCache c' = map_put (getHash sha b) (memo_block sha b) (blockCache c)"
    "bc_utxo c' = snd (connectBlockUTXO sha b (bc_utxo c))"
    by (simp_all add: record_block_def Let_def)
qed

lemma ran_index_of: "ran (index_of sha bs) \<subseteq> getHash sha ` set bs"
  by (auto simp: index_of_def ran_def split: if_splits)

lemma no_chain_with_stray_block:
  assumes "map_find (heightIndex c) = m(n \<mapsto> h2)" "map_find (blockCache c) h1 \<noteq> None"
    and "h1 \<noteq> h2" "h1 \<notin> ran m"
  shows "\<not> holds_chain sha c bs"
proof
  assume h: "holds_chain sha c bs"
  then have ix: "index_of sha bs = m(n \<mapsto> h2)" and len: "length bs = Suc (unat (height c))"
    using assms(1) by (simp_all add: holds_chain_def)
  have "h1 \<in> getHash sha ` set bs"
    using h assms(2) cache_of_None [of sha bs h1] by (simp add: holds_chain_def)
  then obtain i where i: "i < length bs" "h1 = getHash sha (bs ! i)"
    by (auto simp: in_set_conv_nth)
  have "i < 2 ^ 64"
    using i(1) len unsigned_less [of "height c", where 'a = nat] by simp
  then have "index_of sha bs (word_of_nat i) = Some h1"
    using i by (simp add: index_of_def unat_of_nat)
  then show False
    using assms(3,4) unfolding ix by (auto simp: ran_def split: if_splits)
qed




end
