(* ===== verification/Mempool.thy ===== *)
theory Mempool
  imports Util ChainProps
begin

text \<open>
  \<^verbatim>\<open>src/core/mempool.cpp\<close>: the pool of unconfirmed transactions, a map from ids to
  transactions, and the event line it appends to the realtime feed
  (\<^verbatim>\<open>src/util/realtime.cpp\<close>). The feed is the text of the file, or \<open>None\<close> when it cannot be
  opened; finding and creating its directory is in \<open>Realtime\<close>.
\<close>

type_synonym Mempool = "(uint256, Transaction) std_map"
type_synonym feed = "string option"

definition MAX_MEMPOOL_SIZE :: nat where "MAX_MEMPOOL_SIZE = 100000"
definition MAX_TX_SIZE :: nat where "MAX_TX_SIZE = 100000"

definition appendRealtimeEvent :: "string \<Rightarrow> feed \<Rightarrow> feed" where
  "appendRealtimeEvent jsonLine f =
     (case f of
        None \<Rightarrow> None
      | Some text \<Rightarrow> Some (text @ jsonLine @ [CHR 0x0A]))"

text \<open>\<^verbatim>\<open>std::to_string\<close> of an unsigned integer.\<close>

fun to_string :: "nat \<Rightarrow> string" where
  "to_string n =
     (if n < 10 then [char_of (48 + n)] else to_string (n div 10) @ [char_of (48 + n mod 10)])"

declare to_string.simps [simp del]

definition tx_event :: "uint256 \<Rightarrow> u64 \<Rightarrow> string" where
  "tx_event ident value =
     ''{\"type\":\"tx\",\"txid\":\"'' @ uint256ToHex ident @ ''\",\"value\":'' @ to_string (unat value) @ ''}''"

definition mempool_add ::
    "hasher \<Rightarrow> Transaction \<Rightarrow> u64 \<Rightarrow> Mempool \<Rightarrow> feed \<Rightarrow> bool \<times> Mempool \<times> feed" where
  "mempool_add sha tx fee m f =
     (if \<not> validateTransactionStructure tx then (False, m, f)
      else
        let (ident, tx) = getTxid sha tx
        in if MAX_MEMPOOL_SIZE \<le> length m \<and> map_find m ident = None then (False, m, f)
           else (True, map_put ident tx m, appendRealtimeEvent (tx_event ident (getTotalOutput tx)) f))"

definition mempool_remove :: "uint256 \<Rightarrow> Mempool \<Rightarrow> bool \<times> Mempool" where
  "mempool_remove ident m = (let m' = map_erase ident m in (length m' < length m, m'))"

definition mempool_get :: "uint256 \<Rightarrow> Mempool \<Rightarrow> Transaction option" where
  "mempool_get ident m = map_find m ident"

definition getBlockTemplate :: "Mempool \<Rightarrow> Transaction list" where
  "getBlockTemplate m = fold (\<lambda>p out. out @ [snd p]) m []"

definition mempool_size :: "Mempool \<Rightarrow> nat" where
  "mempool_size m = length m"

definition mempool_clear :: "Mempool \<Rightarrow> Mempool" where
  "mempool_clear m = []"

lemma getBlockTemplate_eq: "getBlockTemplate m = map snd m"
proof -
  have "fold (\<lambda>p out. out @ [snd p]) m out = out @ concat (map (\<lambda>p. [snd p]) m)" for out
    by (rule fold_append_concat) simp
  then show ?thesis by (simp add: getBlockTemplate_def concat_map_singleton)
qed

text \<open>
  What every operation keeps: the map is in order, filed under the ids, within its limit, and
  holds structurally valid transactions with their ids cached.
\<close>

definition mempool_ok :: "hasher \<Rightarrow> Mempool \<Rightarrow> bool" where
  "mempool_ok sha m \<longleftrightarrow> map_ok m \<and> length m \<le> MAX_MEMPOOL_SIZE
     \<and> (\<forall>k tx. map_find m k = Some tx \<longrightarrow>
          txid sha tx = k \<and> cached_txid tx = Some k \<and> validateTransactionStructure tx)"

inductive mempool_run :: "hasher \<Rightarrow> Mempool \<Rightarrow> bool" for sha where
  empty: "mempool_run sha []"
| add: "mempool_run sha m \<Longrightarrow> mempool_add sha tx fee m f = (r, m', f') \<Longrightarrow> mempool_run sha m'"
| remove: "mempool_run sha m \<Longrightarrow> mempool_run sha (snd (mempool_remove k m))"
| clear: "mempool_run sha m \<Longrightarrow> mempool_run sha (mempool_clear m)"

lemma memo_cached: "cached_txid (memo_txid sha tx) = Some (txid sha tx)"
  by (simp add: getTxid_def Let_def split: option.split)

lemma mempool_add_cases:
  "mempool_add sha tx fee m f =
     (if validateTransactionStructure tx
          \<and> (length m < MAX_MEMPOOL_SIZE \<or> map_find m (txid sha tx) \<noteq> None)
      then (True, map_put (txid sha tx) (memo_txid sha tx) m,
            appendRealtimeEvent (tx_event (txid sha tx) (getTotalOutput (memo_txid sha tx))) f)
      else (False, m, f))"
  by (auto simp: mempool_add_def case_prod_unfold Let_def)

lemma mempool_ok_put:
  assumes "mempool_ok sha m" "validateTransactionStructure tx"
    and "length m < MAX_MEMPOOL_SIZE \<or> map_find m (txid sha tx) \<noteq> None"
  shows "mempool_ok sha (map_put (txid sha tx) (memo_txid sha tx) m)"
  using assms std_map.count_put [of m "txid sha tx" "memo_txid sha tx"]
  by (auto simp: mempool_ok_def std_map_simps memo_cached validate_structure_memo)

lemma mempool_ok_erase: "mempool_ok sha m \<Longrightarrow> mempool_ok sha (map_erase k m)"
  using std_map.count_erase [of m k] by (auto simp: mempool_ok_def std_map_simps split: if_splits)

lemma mempool_run_ok: "mempool_run sha m \<Longrightarrow> mempool_ok sha m"
proof (induction rule: mempool_run.induct)
  case empty
  then show ?case by (simp add: mempool_ok_def)
next
  case (add m tx fee f r m' f')
  then show ?case
    by (auto simp: mempool_add_cases mempool_ok_put split: if_splits)
next
  case (remove m k)
  then show ?case by (simp add: mempool_remove_def Let_def mempool_ok_erase)
next
  case (clear m)
  then show ?case by (simp add: mempool_clear_def mempool_ok_def)
qed


section \<open>Properties\<close>

text \<open>
  C12. The mempool invariant: after any series of additions, removals and clearings the pool
  holds at most 100000 transactions, each structurally valid, under its own id and with
  that id cached; and its block template is determined by what it holds, in the order of the
  ids, whatever the order of arrival and the fees were.
\<close>

theorem mempool_invariant:
  assumes "mempool_run sha m" "mempool_run sha m'" "\<And>k. mempool_get k m = mempool_get k m'"
  shows "mempool_ok sha m \<and> getBlockTemplate m = getBlockTemplate m'
    \<and> sorted_wrt (<) (map (txid sha) (getBlockTemplate m))"
proof -
  have ok: "mempool_ok sha m" "mempool_ok sha m'"
    using assms(1,2) by (simp_all add: mempool_run_ok)
  then have "m = m'"
    using assms(3) by (intro map_ok_eqI) (auto simp: mempool_ok_def mempool_get_def)
  moreover have "map (txid sha) (getBlockTemplate m) = map fst m"
    using ok(1) by (auto simp: getBlockTemplate_eq mempool_ok_def simp flip: in_map_iff)
  ultimately show ?thesis
    using ok(1) by (simp add: mempool_ok_def map_ok_def)
qed


theorem mempool_invariant_witness:
  "getBlockTemplate (fst (snd (mempool_add const_sha (spending_tx [OutPoint uint256_zero 0]) 3 [] None)))
   = getBlockTemplate (fst (snd (mempool_add const_sha (spending_tx [OutPoint uint256_zero 0]) 9 [] None)))"
proof -
  let ?m = "\<lambda>fee. fst (snd (mempool_add const_sha (spending_tx [OutPoint uint256_zero 0]) fee [] None))"
  have r: "mempool_run const_sha (?m fee)" for fee
    by (cases "mempool_add const_sha (spending_tx [OutPoint uint256_zero 0]) fee [] None")
      (auto intro: mempool_run.add [OF mempool_run.empty])
  show ?thesis
    using mempool_invariant [OF r [of 3] r [of 9]] by (simp add: mempool_add_cases)
qed

text \<open>
  What \<^verbatim>\<open>Mempool::add\<close> decides. It accepts exactly the structurally valid transactions,
  as long as the pool is not full or holds the id already; a replacement under the same id
  wins. The fee plays no part (nothing is ever evicted), nor does the size of the
  transaction, nor whether its inputs exist. A refusal changes neither the pool nor the feed.
\<close>

theorem mempool_add_decides:
  "(fst (mempool_add sha tx fee m f) \<longleftrightarrow>
      validateTransactionStructure tx \<and> (mempool_size m < 100000 \<or> mempool_get (txid sha tx) m \<noteq> None))
   \<and> map_find (fst (snd (mempool_add sha tx fee m f))) =
      (if fst (mempool_add sha tx fee m f) then (map_find m)(txid sha tx \<mapsto> memo_txid sha tx) else map_find m)
   \<and> snd (snd (mempool_add sha tx fee m f)) =
      (if fst (mempool_add sha tx fee m f)
       then appendRealtimeEvent (tx_event (txid sha tx) (getTotalOutput tx)) f else f)"
  by (auto simp: mempool_add_cases mempool_size_def mempool_get_def MAX_MEMPOOL_SIZE_def map_find_put
      getTotalOutput_def)

end
