(* ===== verification/Config.thy ===== *)
theory Config
  imports StdMap "HOL-Library.Char_ord"
begin

text \<open>
  \<^verbatim>\<open>src/util/config.cpp\<close>: the configuration, a map from keys to cfg_values filled from the command
  line and from a file of \<^verbatim>\<open>key=value\<close> lines with \<^verbatim>\<open>[section]\<close>s and \<^verbatim>\<open>#\<close> comments. The
  command line is the list of the arguments behind the program name; the file is its text,
  or \<open>None\<close> when it cannot be opened. \<^verbatim>\<open>std::stoi\<close> may throw: \<open>getInt\<close> is \<open>None\<close> then.
\<close>

record Config =
  cfg_values :: "(string, string) std_map"
  addNodes :: "string list"
  testnet :: bool

definition new_config :: Config where
  "new_config = \<lparr>cfg_values = [], addNodes = [], testnet = False\<rparr>"

section \<open>Reading\<close>

text \<open>The lines \<^verbatim>\<open>std::getline\<close> delivers: a last line without a newline counts, an empty one does not.\<close>

function get_lines :: "string \<Rightarrow> string list" where
  "get_lines s =
     (if s = [] then []
      else takeWhile (\<lambda>c. c \<noteq> CHR 0x0A) s # get_lines (drop 1 (dropWhile (\<lambda>c. c \<noteq> CHR 0x0A) s)))"
  by pat_completeness auto
termination
proof (relation "measure length")
  fix s :: string
  assume "s \<noteq> []"
  then show "(drop 1 (dropWhile (\<lambda>c. c \<noteq> CHR 0x0A) s), s) \<in> measure length"
    using length_dropWhile_le [of "\<lambda>c. c \<noteq> CHR 0x0A" s]
    by (cases s) (auto simp: less_Suc_eq_le intro: diff_le_self order.trans)
qed simp

declare get_lines.simps [simp del]

text \<open>\<^verbatim>\<open>line.find(ch)\<close> from a position on.\<close>

definition find_char :: "string \<Rightarrow> char \<Rightarrow> nat \<Rightarrow> nat option" where
  "find_char s ch pos =
     (let n = pos + length (takeWhile (\<lambda>c. c \<noteq> ch) (drop pos s))
      in if n < length s then Some n else None)"

definition substr :: "string \<Rightarrow> nat \<Rightarrow> nat \<Rightarrow> string" where
  "substr s pos n = take n (drop pos s)"

definition trim_back :: "(char \<Rightarrow> bool) \<Rightarrow> string \<Rightarrow> string" where
  "trim_back p s = rev (dropWhile p (rev s))"

definition contains :: "string \<Rightarrow> string \<Rightarrow> bool" where
  "contains s pat \<longleftrightarrow> list_ex (\<lambda>i. take (length pat) (drop i s) = pat) [0..<Suc (length s)]"

text \<open>One line: the section it leaves and the configuration.\<close>

definition load_line :: "string \<Rightarrow> string \<times> Config \<Rightarrow> string \<times> Config" where
  "load_line line st =
     (let (section, cfg) = st;
          line = (case find_char line (CHR ''#'') 0 of Some c \<Rightarrow> take c line | None \<Rightarrow> line);
          line = trim_back (\<lambda>c. c = CHR 0x0D \<or> c = CHR '' '') line
      in if line = [] then (section, cfg)
         else if line ! 0 = CHR ''['' then
           (case find_char line (CHR '']'') 0 of
              Some end' \<Rightarrow> (substr line 1 (end' - 1), cfg)
            | None \<Rightarrow> ([], cfg))
         else
           (case find_char line (CHR ''='') 0 of
              None \<Rightarrow> (section, cfg)
            | Some eq \<Rightarrow>
                (let key = substr line 0 eq;
                     val = drop (eq + 1) line;
                     key = trim_back (\<lambda>c. c = CHR '' '') key;
                     val = dropWhile (\<lambda>c. c = CHR '' '') val;
                     key = (if section \<noteq> [] then section @ ''.'' @ key else key);
                     cfg = cfg\<lparr>cfg_values := map_put key val (cfg_values cfg)\<rparr>;
                     cfg = (if contains key ''addnode'' then cfg\<lparr>addNodes := addNodes cfg @ [val]\<rparr> else cfg)
                 in (section, cfg))))"

definition load :: "string option \<Rightarrow> Config \<Rightarrow> bool \<times> Config" where
  "load file cfg =
     (case file of
        None \<Rightarrow> (False, cfg)
      | Some text \<Rightarrow> (True, snd (fold load_line (get_lines text) ([], cfg))))"

definition load_arg :: "string \<Rightarrow> Config \<Rightarrow> Config" where
  "load_arg arg cfg =
     (if take 2 arg = ''--'' then
        let eq = find_char arg (CHR ''='') 2;
            key = (case eq of Some e \<Rightarrow> substr arg 2 (e - 2) | None \<Rightarrow> drop 2 arg);
            val = (case eq of Some e \<Rightarrow> drop (e + 1) arg | None \<Rightarrow> [])
        in cfg\<lparr>cfg_values := map_put key val (cfg_values cfg)\<rparr>
      else cfg)"

fun load_args :: "string list \<Rightarrow> Config \<Rightarrow> Config" where
  "load_args [] cfg = cfg"
| "load_args (arg # args) cfg =
     (if arg = ''--testnet'' then load_args args (cfg\<lparr>testnet := True\<rparr>)
      else if arg = ''--mine'' then load_args args (cfg\<lparr>cfg_values := map_put ''mine'' ''1'' (cfg_values cfg)\<rparr>)
      else case args of
        dir # args' \<Rightarrow>
          if arg = ''--datadir'' then load_args args' (cfg\<lparr>cfg_values := map_put ''datadir'' dir (cfg_values cfg)\<rparr>)
          else load_args args (load_arg arg cfg)
      | [] \<Rightarrow> load_arg arg cfg)"

definition loadFromArgs :: "string list \<Rightarrow> Config \<Rightarrow> bool \<times> Config" where
  "loadFromArgs args cfg = (True, load_args args cfg)"


section \<open>Looking up\<close>

definition config_get :: "Config \<Rightarrow> string \<Rightarrow> string \<Rightarrow> string" where
  "config_get cfg key defaultValue =
     (case map_find (cfg_values cfg) key of Some v \<Rightarrow> v | None \<Rightarrow> defaultValue)"

text \<open>
  \<^verbatim>\<open>std::stoi\<close>: leading white space, a sign, decimal digits, then anything; \<open>None\<close> for its
  exceptions (no digit, or outside the 32-bit \<^verbatim>\<open>int\<close>).
\<close>

definition is_space :: "char \<Rightarrow> bool" where
  "is_space c \<longleftrightarrow> c \<in> {CHR '' '', CHR 0x09, CHR 0x0A, CHR 0x0B, CHR 0x0C, CHR 0x0D}"

definition is_digit :: "char \<Rightarrow> bool" where
  "is_digit c \<longleftrightarrow> CHR ''0'' \<le> c \<and> c \<le> CHR ''9''"

definition digits_val :: "string \<Rightarrow> int" where
  "digits_val ds = fold (\<lambda>c v. v * 10 + (of_char c - 48)) ds 0"

definition stoi :: "string \<Rightarrow> int option" where
  "stoi s =
     (let s = dropWhile is_space s;
          (neg, s) = (case s of
              c # s' \<Rightarrow> (if c = CHR ''-'' then (True, s') else if c = CHR ''+'' then (False, s') else (False, s))
            | [] \<Rightarrow> (False, s));
          ds = takeWhile is_digit s;
          v = (if neg then - digits_val ds else digits_val ds)
      in if ds = [] \<or> v < - (2 ^ 31) \<or> 2 ^ 31 \<le> v then None else Some v)"

definition getInt :: "Config \<Rightarrow> string \<Rightarrow> int \<Rightarrow> int option" where
  "getInt cfg key defaultValue =
     (let v = config_get cfg key [] in if v = [] then Some defaultValue else stoi v)"

definition getPort :: "Config \<Rightarrow> string \<Rightarrow> u16 \<Rightarrow> u16 option" where
  "getPort cfg key defaultPort =
     (case getInt cfg key (uint defaultPort) of
        None \<Rightarrow> None
      | Some p \<Rightarrow> Some (if 0 < p \<and> p < 65536 then word_of_int p else defaultPort))"

text \<open>\<^verbatim>\<open>std::getenv("HOME")\<close> is the argument \<open>home\<close>.\<close>

definition getDataDir :: "string option \<Rightarrow> Config \<Rightarrow> string" where
  "getDataDir home cfg =
     (let d = config_get cfg ''datadir'' []
      in if d \<noteq> [] then d
         else case home of Some h \<Rightarrow> h @ ''/.shawncoin'' | None \<Rightarrow> ''.shawncoin'')"



section \<open>What a line does\<close>

lemma get_lines_Nil [simp]: "get_lines [] = []"
  by (subst get_lines.simps) simp

lemma get_lines_line: "CHR 0x0A \<notin> set l \<Longrightarrow> get_lines (l @ CHR 0x0A # s) = l # get_lines s"
proof -
  assume "CHR 0x0A \<notin> set l"
  then have p: "\<And>c. c \<in> set l \<Longrightarrow> c \<noteq> CHR 0x0A" by metis
  have "takeWhile (\<lambda>c. c \<noteq> CHR 0x0A) (l @ CHR 0x0A # s) = l"
    "dropWhile (\<lambda>c. c \<noteq> CHR 0x0A) (l @ CHR 0x0A # s) = CHR 0x0A # s"
    using p by (simp_all add: takeWhile_append2 dropWhile_append2)
  then show ?thesis
    unfolding get_lines.simps [of "l @ CHR 0x0A # s"] by simp
qed

lemma find_char_None: "ch \<notin> set s \<Longrightarrow> find_char s ch 0 = None"
proof -
  assume "ch \<notin> set s"
  then have "takeWhile (\<lambda>c. c \<noteq> ch) s = s" by (auto simp: takeWhile_eq_all_conv)
  then have "length (takeWhile (\<lambda>c. c \<noteq> ch) s) = length s" by (rule arg_cong)
  then show ?thesis by (simp add: find_char_def Let_def)
qed

lemma find_char_Some: "ch \<notin> set s \<Longrightarrow> find_char (s @ ch # t) ch 0 = Some (length s)"
proof -
  assume "ch \<notin> set s"
  then have "\<And>c. c \<in> set s \<Longrightarrow> c \<noteq> ch" by metis
  then have "takeWhile (\<lambda>c. c \<noteq> ch) (s @ ch # t) = s" by (simp add: takeWhile_append2)
  then show ?thesis by (simp add: find_char_def)
qed

lemma trim_back_id: "s = [] \<or> \<not> p (List.last s) \<Longrightarrow> trim_back p s = s"
  by (cases s rule: rev_cases) (auto simp: trim_back_def)

text \<open>The update of the last lines of \<open>load_line\<close>.\<close>

definition set_entry :: "string \<Rightarrow> string \<Rightarrow> Config \<Rightarrow> Config" where
  "set_entry key val cfg =
     (let cfg = cfg\<lparr>cfg_values := map_put key val (cfg_values cfg)\<rparr>
      in if contains key ''addnode'' then cfg\<lparr>addNodes := addNodes cfg @ [val]\<rparr> else cfg)"

text \<open>An entry that a line can hold: it survives the comment, white-space and section rules.\<close>

definition clean_entry :: "string \<times> string \<Rightarrow> bool" where
  "clean_entry e \<longleftrightarrow>
     (case e of (k, v) \<Rightarrow>
        k \<noteq> [] \<and> hd k \<noteq> CHR ''['' \<and> List.last k \<noteq> CHR '' ''
        \<and> set k \<inter> {CHR ''#'', CHR ''='', CHR 0x0A} = {} \<and> set v \<inter> {CHR ''#'', CHR 0x0A} = {}
        \<and> (v = [] \<or> hd v \<noteq> CHR '' '' \<and> List.last v \<noteq> CHR '' '' \<and> List.last v \<noteq> CHR 0x0D))"

definition print_entry :: "string \<times> string \<Rightarrow> string" where
  "print_entry e = (case e of (k, v) \<Rightarrow> k @ ''='' @ v @ [CHR 0x0A])"

lemma load_line_entry:
  assumes "clean_entry (k, v)"
  shows "load_line (k @ ''='' @ v) ([], cfg) = ([], set_entry k v cfg)"
proof -
  have k: "k \<noteq> []" "k ! 0 \<noteq> CHR ''[''" "List.last k \<noteq> CHR '' ''" "CHR ''='' \<notin> set k"
    and hash: "CHR ''#'' \<notin> set (k @ ''='' @ v)"
    and v: "v = [] \<or> hd v \<noteq> CHR '' '' \<and> List.last v \<noteq> CHR '' '' \<and> List.last v \<noteq> CHR 0x0D"
    using assms by (auto simp: clean_entry_def hd_conv_nth)
  have t: "trim_back (\<lambda>c. c = CHR 0x0D \<or> c = CHR '' '') (k @ ''='' @ v) = k @ ''='' @ v"
    using v by (intro trim_back_id) auto
  have e: "find_char (k @ ''='' @ v) (CHR ''='') 0 = Some (length k)"
    using find_char_Some [OF k(4), of v] by simp
  have tk: "trim_back (\<lambda>c. c = CHR '' '') k = k" using k(3) by (intro trim_back_id) simp
  have tv: "dropWhile (\<lambda>c. c = CHR '' '') v = v" using v by (cases v) auto
  have n: "(k @ ''='' @ v) ! 0 \<noteq> CHR ''[''" using k(1,2) by (simp add: nth_append)
  show ?thesis
    unfolding load_line_def Let_def prod.case find_char_None [OF hash] option.case t e
    using n by (simp add: substr_def tk tv set_entry_def Let_def)
qed

lemma load_entries:
  "list_all clean_entry es \<Longrightarrow>
     fold load_line (get_lines (concat (map print_entry es))) ([], cfg) = ([], fold (\<lambda>(k, v). set_entry k v) es cfg)"
proof (induction es arbitrary: cfg)
  case Nil
  then show ?case by simp
next
  case (Cons e es)
  obtain k v where e: "e = (k, v)" by (cases e)
  have "CHR 0x0A \<notin> set (k @ ''='' @ v)"
    using Cons.prems by (auto simp: e clean_entry_def)
  moreover have "load_line (k @ ''='' @ v) ([], cfg) = ([], set_entry k v cfg)"
    using Cons.prems by (intro load_line_entry) (simp add: e)
  ultimately show ?case
    using get_lines_line [of "k @ ''='' @ v"] Cons by (simp add: e print_entry_def)
qed

lemma set_entries_values:
  "cfg_values (fold (\<lambda>(k, v). set_entry k v) es cfg) = fold (\<lambda>(k, v). map_put k v) es (cfg_values cfg)"
  by (induction es arbitrary: cfg) (auto simp: set_entry_def Let_def)

lemma set_entries_nodes:
  "addNodes (fold (\<lambda>(k, v). set_entry k v) es cfg)
     = addNodes cfg @ map snd (filter (\<lambda>(k, v). contains k ''addnode'') es)"
  by (induction es arbitrary: cfg) (auto simp: set_entry_def Let_def)

text \<open>What a file sets does not depend on what is set already.\<close>

lemma load_line_overrides:
  assumes "map_find (cfg_values cfg) = m ++ map_find (cfg_values cfg0)"
  shows "fst (load_line l (sec, cfg)) = fst (load_line l (sec, cfg0))
    \<and> map_find (cfg_values (snd (load_line l (sec, cfg)))) = m ++ map_find (cfg_values (snd (load_line l (sec, cfg0))))"
  using assms by (simp add: load_line_def Let_def map_find_put split: option.split)

lemma load_overrides:
  "map_find (cfg_values cfg) = m ++ map_find (cfg_values cfg0) \<Longrightarrow>
     map_find (cfg_values (snd (fold load_line ls (sec, cfg))))
       = m ++ map_find (cfg_values (snd (fold load_line ls (sec, cfg0))))"
proof (induction ls arbitrary: sec cfg cfg0)
  case Nil
  then show ?case by simp
next
  case (Cons l ls)
  obtain s1 c1 s0 c0 where l: "load_line l (sec, cfg) = (s1, c1)" "load_line l (sec, cfg0) = (s0, c0)"
    by (metis surj_pair)
  show ?case using load_line_overrides [OF Cons.prems, of l sec] Cons.IH [of c1 c0 s0] by (simp add: l)
qed


section \<open>Properties\<close>

text \<open>
  A configuration file that is a sequence of clean \<open>key=value\<close> lines is read back: every
  key gets its last value, on top of what was set before, and the values of the keys that
  contain \<open>addnode\<close> are collected in order.
\<close>

theorem config_file_roundtrip:
  assumes "list_all clean_entry es"
  shows "load (Some (concat (map print_entry es))) cfg =
      (True, fold (\<lambda>(k, v). set_entry k v) es cfg)
    \<and> map_find (cfg_values (fold (\<lambda>(k, v). set_entry k v) es cfg)) = map_find (cfg_values cfg) ++ map_of (rev es)
    \<and> addNodes (fold (\<lambda>(k, v). set_entry k v) es cfg)
      = addNodes cfg @ map snd (filter (\<lambda>(k, v). contains k ''addnode'') es)"
proof -
  have "map_find (fold (\<lambda>(k, v). map_put k v) es m) = map_find m ++ map_of (rev es)" for m
    by (induction es arbitrary: m) (auto simp: map_find_put)
  then show ?thesis
    using load_entries [OF assms] by (simp add: load_def set_entries_values set_entries_nodes)
qed

theorem config_file_roundtrip_witness:
  "config_get (snd (load (Some (concat (map print_entry [(''port'', ''7333''), (''addnode'', ''10.0.0.1''), (''port'', ''80'')])))
     new_config)) ''port'' [] = ''80''"
proof -
  have "list_all clean_entry [(''port'', ''7333''), (''addnode'', ''10.0.0.1''), (''port'', ''80'')]"
    by (simp add: clean_entry_def)
  from config_file_roundtrip [OF this, of new_config] show ?thesis
    by (simp add: config_get_def new_config_def map_add_def)
qed

text \<open>
  The configuration file wins over the command line. \<^verbatim>\<open>main\<close> reads the arguments first and
  the file second, and every key of the file replaces the argument of the same name.
\<close>

theorem file_overrides_arguments:
  "map_find (cfg_values (snd (load (Some text) (snd (loadFromArgs args new_config)))))
     = map_find (cfg_values (snd (loadFromArgs args new_config)))
       ++ map_find (cfg_values (snd (load (Some text) new_config)))"
proof -
  let ?cfg = "snd (loadFromArgs args new_config)"
  have "map_find (cfg_values ?cfg) = map_find (cfg_values ?cfg) ++ map_find (cfg_values new_config)"
    by (simp add: new_config_def std_map.find_empty)
  from load_overrides [OF this, of "get_lines text" "[]"] show ?thesis by (simp add: load_def)
qed

text \<open>
  \<^verbatim>\<open>getPort\<close> never returns a wrapped-around port: it returns the number the text starts
  with when that is from 1 to 65535, the default for a missing or empty value and for other
  32-bit numbers, and throws only where \<^verbatim>\<open>std::stoi\<close> does.
\<close>

theorem getPort_in_range:
  "case getPort cfg key d of
     None \<Rightarrow> config_get cfg key [] \<noteq> [] \<and> stoi (config_get cfg key []) = None
   | Some p \<Rightarrow> p = d \<or> p \<noteq> 0 \<and> stoi (config_get cfg key []) = Some (uint p)"
proof -
  have u: "uint (word_of_int p :: u16) = p" if "0 < p" "p < 65536" for p
    using that by (simp add: uint_word_of_int)
  then have "(word_of_int p :: u16) \<noteq> 0" if "0 < p" "p < 65536" for p
    using that by (metis less_irrefl unsigned_0)
  with u show ?thesis
    by (auto simp: getPort_def getInt_def Let_def split: option.splits)
qed

end
