(* ===== verification/Json.thy ===== *)
theory Json
  imports Mempool Config
begin

text \<open>
  The class \<^verbatim>\<open>SimpleJson\<close> of \<^verbatim>\<open>src/rpc/api.cpp\<close>: the values the RPC interface computes with.
  The type of \<^verbatim>\<open>double\<close> is a type parameter, and how a stream prints one is a function
  parameter. An object is a \<^verbatim>\<open>std::map\<close>, so its keys are in order.

  Both subscript operators return a copy. An assignment \<^verbatim>\<open>j["key"] = v\<close> therefore changes a
  temporary and leaves \<^verbatim>\<open>j\<close> as it was: this is \<open>assign_index\<close>. A string literal that is
  assigned or put into an initializer list converts to \<^verbatim>\<open>bool\<close>, not to \<^verbatim>\<open>std::string\<close>: the
  conversion of a pointer is a standard one.
\<close>

datatype 'd json =
  JString string
| JInt u64
| JDouble 'd
| JBool bool
| JNull
| JArray "'d json list"
| JObject "(string \<times> 'd json) list"

text \<open>\<^verbatim>\<open>int64_t\<close> is a word read as signed; the assignments from unsigned types cast to it.\<close>

definition json_int :: "nat \<Rightarrow> 'd json" where
  "json_int n = JInt (word_of_nat n)"

definition literal :: "'d json" where
  "literal = JBool True"

definition create_object :: "(string \<times> 'd json) list \<Rightarrow> 'd json" where
  "create_object kvs = JObject (fold (\<lambda>(k, v) m. if map_find m k = None then map_put k v m else m) kvs [])"

text \<open>\<^verbatim>\<open>s.find(pat, pos)\<close>: the first position from \<open>pos\<close> on where the text is found.\<close>

definition find_str :: "string \<Rightarrow> string \<Rightarrow> nat \<Rightarrow> nat option" where
  "find_str s pat pos = List.find (\<lambda>i. take (length pat) (drop i s) = pat \<and> i + length pat \<le> length s) [pos..<Suc (length s)]"

definition quote :: string where "quote = [CHR 0x22]"

definition parse_method :: "string \<Rightarrow> string option" where
  "parse_method s =
     (case find_str s (quote @ ''method'' @ quote) 0 of
        None \<Rightarrow> None
      | Some method_pos \<Rightarrow>
          (case find_str s '':'' method_pos of
             None \<Rightarrow> None
           | Some colon \<Rightarrow>
               (case find_str s quote colon of
                  None \<Rightarrow> None
                | Some start \<Rightarrow>
                    (case find_str s quote (start + 1) of
                       None \<Rightarrow> None
                     | Some end' \<Rightarrow> Some (substr s (start + 1) (end' - start - 1))))))"

definition parse :: "string \<Rightarrow> 'd json" where
  "parse s =
     (let obj = [];
          obj = (case parse_method s of None \<Rightarrow> obj | Some m \<Rightarrow> map_put ''method'' (JString m) obj)
      in JObject obj)"

definition json_contains :: "'d json \<Rightarrow> string \<Rightarrow> bool" where
  "json_contains j key = (case j of JObject obj \<Rightarrow> map_find obj key \<noteq> None | _ \<Rightarrow> False)"

definition json_index :: "'d json \<Rightarrow> string \<Rightarrow> 'd json" where
  "json_index j key =
     (case j of
        JObject obj \<Rightarrow> (case map_find obj key of Some v \<Rightarrow> v | None \<Rightarrow> JNull)
      | _ \<Rightarrow> JNull)"

definition assign_index :: "'d json \<Rightarrow> string \<Rightarrow> 'd json \<Rightarrow> 'd json" where
  "assign_index j key v = (let temporary = json_index j key; temporary = v in j)"

definition op_at :: "'d json \<Rightarrow> int \<Rightarrow> 'd json" where
  "op_at j index =
     (case j of
        JArray arr \<Rightarrow> if 0 \<le> index \<and> index < int (length arr) then arr ! nat index else JNull
      | _ \<Rightarrow> JNull)"

definition is_string :: "'d json \<Rightarrow> bool" where
  "is_string j = (case j of JString _ \<Rightarrow> True | _ \<Rightarrow> False)"

definition is_object :: "'d json \<Rightarrow> bool" where
  "is_object j = (case j of JObject _ \<Rightarrow> True | _ \<Rightarrow> False)"

definition is_array :: "'d json \<Rightarrow> bool" where
  "is_array j = (case j of JArray _ \<Rightarrow> True | _ \<Rightarrow> False)"

definition get_string :: "'d json \<Rightarrow> string" where
  "get_string j = (case j of JString s \<Rightarrow> s | _ \<Rightarrow> [])"

definition get_uint64 :: "'d json \<Rightarrow> u64" where
  "get_uint64 j = (case j of JInt i \<Rightarrow> i | _ \<Rightarrow> 0)"

definition get_int :: "'d json \<Rightarrow> u32" where
  "get_int j = (case j of JInt i \<Rightarrow> ucast i | _ \<Rightarrow> 0)"

definition json_size :: "'d json \<Rightarrow> nat" where
  "json_size j = (case j of JArray arr \<Rightarrow> length arr | JObject obj \<Rightarrow> length obj | _ \<Rightarrow> 0)"

definition push_back :: "'d json \<Rightarrow> 'd json \<Rightarrow> 'd json" where
  "push_back j v = (case j of JArray arr \<Rightarrow> JArray (arr @ [v]) | _ \<Rightarrow> JArray [v])"

definition show_int :: "u64 \<Rightarrow> string" where
  "show_int i = (if sint i < 0 then ''-'' @ to_string (nat (- sint i)) else to_string (nat (sint i)))"

fun commas :: "string list \<Rightarrow> string" where
  "commas [] = []"
| "commas [x] = x"
| "commas (x # xs) = x @ '','' @ commas xs"

fun dump :: "('d \<Rightarrow> string) \<Rightarrow> 'd json \<Rightarrow> string" where
  "dump show_double (JString s) = quote @ s @ quote"
| "dump show_double (JInt i) = show_int i"
| "dump show_double (JDouble d) = show_double d"
| "dump show_double (JBool b) = (if b then ''true'' else ''false'')"
| "dump show_double JNull = ''null''"
| "dump show_double (JArray arr) = ''['' @ commas (map (dump show_double) arr) @ '']''"
| "dump show_double (JObject obj) =
     ''{'' @ commas (map (\<lambda>(k, v). quote @ k @ quote @ '':'' @ dump show_double v) obj) @ ''}''"

lemma assign_index [simp]: "assign_index j key v = j"
  by (simp add: assign_index_def)

lemma parse_keys: "json_contains (parse s) key \<longleftrightarrow> key = ''method'' \<and> parse_method s \<noteq> None"
  by (auto simp: json_contains_def parse_def split: option.split)

lemma parse_index:
  "json_index (parse s) ''method'' = (case parse_method s of None \<Rightarrow> JNull | Some m \<Rightarrow> JString m)"
  by (simp add: json_index_def parse_def split: option.split)

lemma find_str_least:
  "find_str s pat pos = Some i \<longleftrightarrow>
     pos \<le> i \<and> i + length pat \<le> length s \<and> take (length pat) (drop i s) = pat
     \<and> (\<forall>k. pos \<le> k \<longrightarrow> k < i \<longrightarrow> take (length pat) (drop k s) \<noteq> pat)"
  (is "?l \<longleftrightarrow> ?r")
proof
  assume ?l
  then obtain n where n: "n < Suc (length s) - pos" "i = pos + n"
    "take (length pat) (drop i s) = pat" "i + length pat \<le> length s"
    "\<forall>m<n. \<not> (take (length pat) (drop (pos + m) s) = pat \<and> pos + m + length pat \<le> length s)"
    unfolding find_str_def find_Some_iff by (auto simp del: upt_Suc)
  have "take (length pat) (drop k s) \<noteq> pat" if "pos \<le> k" "k < i" for k
  proof -
    have "k - pos < n" using that n(2) by simp
    then have "\<not> (take (length pat) (drop k s) = pat \<and> k + length pat \<le> length s)"
      using n(5) that(1) by fastforce
    then show ?thesis using that(2) n(4) by auto
  qed
  then show ?r using n by auto
next
  assume ?r
  then show ?l
    unfolding find_str_def find_Some_iff by (intro exI [of _ "i - pos"]) (auto simp del: upt_Suc)
qed

end
