(* ===== verification/Base58.thy ===== *)
theory Base58
  imports Util
begin

text \<open>
  \<^verbatim>\<open>src/crypto/address.cpp\<close>: Base58 text and addresses. Encoding and decoding run the same
  digit loop: multiply a number, kept as digits with the lowest first, and add a carry. The
  interface \<open>carry_loop\<close> states it once, for any base and factor; the two loops of the code,
  on 32-bit carries and 8-bit digits, are its two interpretations.
\<close>

definition BASE58_ALPHABET :: string where
  "BASE58_ALPHABET = ''123456789ABCDEFGHJKLMNPQRSTUVWXYZabcdefghijkmnopqrstuvwxyz''"

definition ADDRESS_VERSION :: byte where
  "ADDRESS_VERSION = 0x3f"

section \<open>The loops\<close>

text \<open>\<^verbatim>\<open>for (auto& d : digits)\<close> of \<^verbatim>\<open>encodeBase58\<close>, with the carry it leaves.\<close>

fun enc_digits :: "u32 \<Rightarrow> bytes \<Rightarrow> u32 \<times> bytes" where
  "enc_digits carry [] = (carry, [])"
| "enc_digits carry (d # digits) =
     (let carry = carry + push_bit 8 (ucast d);
          d = ucast (carry mod 58);
          (carry, digits) = enc_digits (carry div 58) digits
      in (carry, d # digits))"

function enc_carry :: "u32 \<Rightarrow> bytes \<Rightarrow> bytes" where
  "enc_carry carry digits =
     (if carry = 0 then digits else enc_carry (carry div 58) (digits @ [ucast (carry mod 58)]))"
  by pat_completeness auto
termination
  by (relation "measure (\<lambda>(carry, digits). unat carry)") (simp_all add: unat_div word_unat_eq_iff)

declare enc_carry.simps [simp del]

definition encodeBase58 :: "bytes \<Rightarrow> string" where
  "encodeBase58 data =
     (if data = [] then []
      else
        let digits = fold (\<lambda>b digits.
              let (carry, digits) = enc_digits (ucast b) digits in enc_carry carry digits) data [];
            result = replicate (length (takeWhile (\<lambda>b. b = 0) data)) (CHR ''1'')
        in result @ map (\<lambda>d. BASE58_ALPHABET ! unat d) (rev digits))"

fun dec_digits :: "u32 \<Rightarrow> bytes \<Rightarrow> u32 \<times> bytes" where
  "dec_digits carry [] = (carry, [])"
| "dec_digits carry (r # result) =
     (let carry = carry + ucast r * 58;
          r = ucast (carry AND 0xff);
          (carry, result) = dec_digits (drop_bit 8 carry) result
      in (carry, r # result))"

function dec_carry :: "u32 \<Rightarrow> bytes \<Rightarrow> bytes" where
  "dec_carry carry result =
     (if carry = 0 then result else dec_carry (drop_bit 8 carry) (result @ [ucast (carry AND 0xff)]))"
  by pat_completeness auto
termination
  by (relation "measure (\<lambda>(carry, result). unat carry)")
    (simp_all add: unat_drop_bit_div word_unat_eq_iff)

declare dec_carry.simps [simp del]

text \<open>\<^verbatim>\<open>strchr\<close> also finds the terminating NUL of the alphabet, at index 58.\<close>

fun strchr :: "string \<Rightarrow> char \<Rightarrow> nat \<Rightarrow> nat option" where
  "strchr [] c i = (if c = CHR 0x00 then Some i else None)"
| "strchr (a # s) c i = (if a = c then Some i else strchr s c (Suc i))"

fun decode_loop :: "string \<Rightarrow> bytes \<Rightarrow> bytes option" where
  "decode_loop [] result = Some result"
| "decode_loop (c # s) result =
     (case strchr BASE58_ALPHABET c 0 of
        None \<Rightarrow> None
      | Some p \<Rightarrow>
          let (carry, result) = dec_digits (word_of_nat p) result
          in decode_loop s (dec_carry carry result))"

definition decodeBase58 :: "string \<Rightarrow> bytes" where
  "decodeBase58 s =
     (case decode_loop s [] of
        None \<Rightarrow> []
      | Some result \<Rightarrow> replicate (length (takeWhile (\<lambda>c. c = CHR ''1'') s)) 0 @ result)"

definition encodeBase58Check :: "hasher \<Rightarrow> bytes \<Rightarrow> byte \<Rightarrow> string" where
  "encodeBase58Check sha payload version =
     (let buf = version # payload;
          hash = bytes_of (shawncoin_sha256d sha buf)
      in encodeBase58 (buf @ take 4 hash))"

text \<open>The payload, and the version byte written through \<^verbatim>\<open>out_version\<close> (\<open>ver\<close> before).\<close>

definition decodeBase58Check :: "hasher \<Rightarrow> string \<Rightarrow> byte \<Rightarrow> bytes \<times> byte" where
  "decodeBase58Check sha address ver =
     (let decoded = decodeBase58 address in
      if length decoded < 5 then ([], ver)
      else
        let ver = decoded ! 0;
            payload = take (length decoded - 4) decoded;
            hash = bytes_of (shawncoin_sha256d sha payload)
        in if memcmp (take 4 hash) (drop (length decoded - 4) decoded) \<noteq> 0 then ([], ver)
           else (drop 1 (take (length decoded - 4) decoded), ver))"

definition pubKeyHashToAddress :: "hasher \<Rightarrow> bytes \<Rightarrow> string" where
  "pubKeyHashToAddress sha hash160 = encodeBase58Check sha hash160 ADDRESS_VERSION"

definition addressToPubKeyHash :: "hasher \<Rightarrow> string \<Rightarrow> bytes" where
  "addressToPubKeyHash sha address =
     (let (hash, ver) = decodeBase58Check sha address 0
      in if length hash \<noteq> 20 \<or> ver \<noteq> ADDRESS_VERSION then [] else hash)"


section \<open>Numbers as digits\<close>

text \<open>The value of a digit list, lowest digit first.\<close>

primrec digit_val :: "nat \<Rightarrow> bytes \<Rightarrow> nat" where
  "digit_val base [] = 0"
| "digit_val base (d # ds) = unat d + base * digit_val base ds"

definition proper :: "nat \<Rightarrow> bytes \<Rightarrow> bool" where
  "proper base ds \<longleftrightarrow> (\<forall>d \<in> set ds. unat d < base) \<and> (ds \<noteq> [] \<longrightarrow> List.last ds \<noteq> 0)"

lemma digit_val_append: "digit_val base (xs @ ys) = digit_val base xs + base ^ length xs * digit_val base ys"
  by (induction xs) (simp_all add: algebra_simps)

lemma proper_Nil [simp]: "proper base []"
  by (simp add: proper_def)

lemma proper_Cons: "proper base (d # ds) \<longleftrightarrow> unat d < base \<and> proper base ds \<and> (ds = [] \<longrightarrow> d \<noteq> 0)"
  by (auto simp: proper_def)

lemma proper_pos: "proper base ds \<Longrightarrow> ds \<noteq> [] \<Longrightarrow> 0 < base \<Longrightarrow> 0 < digit_val base ds"
proof (induction ds)
  case Nil
  then show ?case by simp
next
  case (Cons d ds)
  then show ?case
    by (cases "ds = []") (simp_all add: proper_Cons word_unat_eq_iff)
qed

text \<open>A number has one proper digit list.\<close>

lemma proper_unique:
  "proper base xs \<Longrightarrow> proper base ys \<Longrightarrow> 0 < base \<Longrightarrow> digit_val base xs = digit_val base ys \<Longrightarrow> xs = ys"
proof (induction xs arbitrary: ys)
  case Nil
  then show ?case using proper_pos [of base ys] by auto
next
  case (Cons x xs)
  then obtain y ys' where ys: "ys = y # ys'"
    using proper_pos [OF Cons.prems(1)] by (cases ys) auto
  have p: "unat x < base" "unat y < base" "proper base xs" "proper base ys'"
    using Cons.prems by (simp_all add: ys proper_Cons)
  have e: "unat x + base * digit_val base xs = unat y + base * digit_val base ys'"
    using Cons.prems(4) by (simp add: ys)
  have "unat x = unat y"
    using arg_cong [OF e, of "\<lambda>v. v mod base"] p by simp
  moreover have "digit_val base xs = digit_val base ys'"
    using e calculation Cons.prems(3) by simp
  ultimately show ?case
    using Cons.IH [OF p(3,4) Cons.prems(3)] by (simp add: ys word_unat_eq_iff)
qed


lemma digit_val_less: "\<forall>d \<in> set ds. unat d < base \<Longrightarrow> digit_val base ds < base ^ length ds"
proof (induction ds)
  case Nil
  then show ?case by simp
next
  case (Cons d ds)
  then have "unat d + base * digit_val base ds < base * (digit_val base ds + 1)" by simp
  also have "\<dots> \<le> base * base ^ length ds" using Cons by (intro mult_le_mono2) simp
  finally show ?case by simp
qed

lemma proper_ge: "proper base ds \<Longrightarrow> ds \<noteq> [] \<Longrightarrow> base ^ (length ds - 1) \<le> digit_val base ds"
proof -
  assume a: "proper base ds" "ds \<noteq> []"
  then have "digit_val base ds = digit_val base (butlast ds) + base ^ (length ds - 1) * unat (List.last ds)"
    using digit_val_append [of base "butlast ds" "[List.last ds]"] by simp
  moreover have "0 < unat (List.last ds)"
    using a by (simp add: proper_def word_unat_eq_iff)
  ultimately show ?thesis by (simp add: trans_le_add2)
qed

lemma proper_if_ge:
  assumes "\<forall>d \<in> set ds. unat d < base" "ds \<noteq> []" "base ^ (length ds - 1) \<le> digit_val base ds"
  shows "proper base ds"
proof -
  have "digit_val base (butlast ds) < base ^ (length ds - 1)"
    using digit_val_less [of "butlast ds" base] assms(1) by (auto dest: in_set_butlastD)
  then have "List.last ds \<noteq> 0"
    using digit_val_append [of base "butlast ds" "[List.last ds]"] assms(2,3) by auto
  with assms(1) show ?thesis by (simp add: proper_def)
qed


section \<open>The contract of the digit loops\<close>

locale carry_loop =
  fixes base mult :: nat
    and inner :: "u32 \<Rightarrow> bytes \<Rightarrow> u32 \<times> bytes"
    and tail :: "u32 \<Rightarrow> bytes \<Rightarrow> bytes"
  assumes base: "2 \<le> base" "base \<le> 256" and mult: "0 < mult" "mult \<le> 256"
    and inner_Nil: "inner c [] = (c, [])"
    and inner_Cons: "unat c \<le> mult \<Longrightarrow> unat d < base \<Longrightarrow> inner c (d # ds) =
      (let v = unat c + mult * unat d; (c', ds') = inner (word_of_nat (v div base)) ds
       in (c', word_of_nat (v mod base) # ds'))"
    and tail_eq: "tail c ds =
      (if c = 0 then ds else tail (word_of_nat (unat c div base)) (ds @ [word_of_nat (unat c mod base)]))"
begin

lemma inner_spec:
  "unat c \<le> mult \<Longrightarrow> \<forall>d \<in> set ds. unat d < base \<Longrightarrow> inner c ds = (c', ds') \<Longrightarrow>
     length ds' = length ds \<and> (\<forall>d \<in> set ds'. unat d < base) \<and> unat c' \<le> mult
     \<and> digit_val base ds' + base ^ length ds * unat c' = unat c + mult * digit_val base ds"
proof (induction ds arbitrary: c c' ds')
  case Nil
  then show ?case by (simp add: inner_Nil)
next
  case (Cons d ds)
  let ?v = "unat c + mult * unat d"
  have "?v \<le> mult * base"
  proof -
    have "?v \<le> mult + mult * unat d" using Cons.prems(1) by simp
    also have "\<dots> = mult * Suc (unat d)" by simp
    also have "\<dots> \<le> mult * base" using Cons.prems(2) by (intro mult_le_mono2) simp
    finally show ?thesis .
  qed
  then have q: "?v div base \<le> mult"
    using base div_le_mono [of ?v "mult * base" base] by simp
  then have uq: "unat (word_of_nat (?v div base) :: u32) = ?v div base"
    using mult by (simp add: unat_of_nat)
  have r: "?v mod base < base" using base by simp
  then have ur: "unat (word_of_nat (?v mod base) :: byte) = ?v mod base"
    using base by (intro unat_byte_id) linarith
  obtain c2 ds2 where i: "inner (word_of_nat (?v div base)) ds = (c2, ds2)"
    by (cases "inner (word_of_nat (?v div base)) ds")
  have c': "c' = c2" "ds' = word_of_nat (?v mod base) # ds2"
    using Cons.prems i by (simp_all add: inner_Cons Let_def)
  have IH: "length ds2 = length ds \<and> (\<forall>d \<in> set ds2. unat d < base) \<and> unat c2 \<le> mult
     \<and> digit_val base ds2 + base ^ length ds * unat c2 = ?v div base + mult * digit_val base ds"
    using Cons.IH [of "word_of_nat (?v div base)" c2 ds2] Cons.prems(2) i q uq by simp
  have "digit_val base ds' + base ^ length (d # ds) * unat c'
      = ?v mod base + base * (digit_val base ds2 + base ^ length ds * unat c2)"
    by (simp only: c' digit_val.simps ur length_Cons power_Suc) (simp add: algebra_simps)
  also have "\<dots> = ?v mod base + base * (?v div base) + base * (mult * digit_val base ds)"
    using IH by (simp add: algebra_simps)
  also have "\<dots> = unat c + mult * digit_val base (d # ds)"
    by (simp add: algebra_simps)
  finally show ?case using IH r by (auto simp: c' ur)
qed

lemma tail_spec:
  "unat c \<le> mult \<Longrightarrow> \<forall>d \<in> set ds. unat d < base \<Longrightarrow>
     (\<forall>d \<in> set (tail c ds). unat d < base) \<and> (c \<noteq> 0 \<longrightarrow> proper base (tail c ds))
     \<and> digit_val base (tail c ds) = digit_val base ds + base ^ length ds * unat c"
proof (induction "unat c" arbitrary: c ds rule: less_induct)
  case less
  show ?case
  proof (cases "c = 0")
    case True
    then show ?thesis using less.prems by (subst tail_eq) (simp add: tail_eq [of 0])
  next
    case False
    then have pos: "0 < unat c" by (simp add: word_unat_eq_iff)
    let ?q = "word_of_nat (unat c div base) :: u32" and ?r = "word_of_nat (unat c mod base) :: byte"
    have lt: "unat c div base < unat c" using base pos by simp
    have uq: "unat ?q = unat c div base"
      using lt less.prems(1) mult by (simp add: unat_of_nat)
    have ur: "unat ?r = unat c mod base"
      using base mod_less_divisor [of base "unat c"] by (intro unat_byte_id) linarith
    have t: "tail c ds = tail ?q (ds @ [?r])" using False by (subst tail_eq) simp
    have IH: "(\<forall>d \<in> set (tail ?q (ds @ [?r])). unat d < base)
        \<and> (?q \<noteq> 0 \<longrightarrow> proper base (tail ?q (ds @ [?r])))
        \<and> digit_val base (tail ?q (ds @ [?r])) = digit_val base (ds @ [?r]) + base ^ length (ds @ [?r]) * unat ?q"
      using less.hyps [of ?q "ds @ [?r]"] less.prems lt uq ur base by auto
    have "proper base (tail ?q (ds @ [?r]))" if "?q = 0"
    proof -
      have "unat c div base = 0" using that uq by simp
      then have "?r \<noteq> 0" using pos ur by (auto simp: div_eq_0_iff word_unat_eq_iff)
      then show ?thesis
        using that less.prems ur base by (simp add: tail_eq [of 0] proper_def)
    qed
    moreover have "digit_val base (ds @ [?r]) + base ^ length (ds @ [?r]) * unat ?q
        = digit_val base ds + base ^ length ds * unat c"
    proof -
      have "unat c = unat c mod base + base * (unat c div base)" by simp
      then have "base ^ length ds * unat c
          = base ^ length ds * (unat c mod base) + base ^ length ds * (base * (unat c div base))"
        by (metis add_mult_distrib2)
      then show ?thesis by (simp add: digit_val_append uq ur algebra_simps)
    qed
    ultimately show ?thesis using IH unfolding t by auto
  qed
qed

text \<open>One round: the number is multiplied and the carry added; no leading zero appears.\<close>

lemma round_spec:
  assumes "unat c \<le> mult" "proper base ds"
  shows "case inner c ds of (c', ds') \<Rightarrow> proper base (tail c' ds')
     \<and> digit_val base (tail c' ds') = unat c + mult * digit_val base ds"
proof -
  obtain c' ds' where i: "inner c ds = (c', ds')" by (cases "inner c ds")
  have d: "\<forall>d \<in> set ds. unat d < base" using assms(2) by (simp add: proper_def)
  note s = inner_spec [OF assms(1) d i]
  then have t: "(\<forall>d \<in> set (tail c' ds'). unat d < base) \<and> (c' \<noteq> 0 \<longrightarrow> proper base (tail c' ds'))
     \<and> digit_val base (tail c' ds') = digit_val base ds' + base ^ length ds' * unat c'"
    by (intro tail_spec) simp_all
  have "proper base ds'" if z: "c' = 0"
  proof (cases "ds' = []")
    case False
    then have "ds \<noteq> []" using s by auto
    then have "base ^ (length ds - 1) \<le> digit_val base ds" using assms(2) by (intro proper_ge)
    also have "\<dots> \<le> digit_val base ds'" using s z mult(1) by (simp add: trans_le_add2)
    finally show ?thesis using s False by (intro proper_if_ge) simp_all
  qed simp
  then have "proper base (tail c' ds')"
    using t tail_eq [of 0 ds'] by (cases "c' = 0") auto
  then show ?thesis using s t by (simp add: i)
qed

end


lemma enc_sum: "unat c \<le> 256 \<Longrightarrow> unat (c + push_bit 8 (ucast (d :: byte)) :: u32) = unat c + 256 * unat d"
proof -
  assume c: "unat c \<le> 256"
  have "unat (push_bit 8 (ucast d) :: u32) = 256 * unat d"
    using less_trans [OF unat_byte_less [of d], of 16777216]
    by (simp add: push_bit_eq_mult unat_word_ariths)
  then show ?thesis
    using c less_trans [OF unat_byte_less [of d], of 16777215] by (simp add: unat_word_ariths)
qed

interpretation enc_loop: carry_loop 58 256 enc_digits enc_carry
proof unfold_locales
  show "enc_digits c (d # ds) = (let v = unat c + 256 * unat d; (c', ds') = enc_digits (word_of_nat (v div 58)) ds
      in (c', word_of_nat (v mod 58) # ds'))" if "unat c \<le> 256" "unat d < 58" for c d ds
  proof -
    let ?w = "c + push_bit 8 (ucast d) :: u32"
    have u: "unat ?w = unat c + 256 * unat d" using that(1) by (rule enc_sum)
    have "ucast (?w mod 58) = (word_of_nat ((unat c + 256 * unat d) mod 58) :: byte)"
      unfolding ucast_byte_of_nat by (simp add: unat_mod u)
    moreover have "?w div 58 = word_of_nat ((unat c + 256 * unat d) div 58)"
      by (simp add: word_div_nat u)
    ultimately show ?thesis by (simp add: Let_def)
  qed
  show "enc_carry c ds = (if c = 0 then ds
      else enc_carry (word_of_nat (unat c div 58)) (ds @ [word_of_nat (unat c mod 58)]))" for c ds
  proof -
    have "ucast (c mod 58) = (word_of_nat (unat c mod 58) :: byte)"
      unfolding ucast_byte_of_nat by (simp add: unat_mod)
    moreover have "c div 58 = word_of_nat (unat c div 58)" by (simp add: word_div_nat)
    ultimately show ?thesis by (subst enc_carry.simps) simp
  qed
qed simp_all

interpretation dec_loop: carry_loop 256 58 dec_digits dec_carry
proof unfold_locales
  have low: "ucast (w AND 0xff) = (word_of_nat (unat w mod 256) :: byte)" for w :: u32
    unfolding ff_mask and_ff_byte unfolding ucast_byte_of_nat
    by (rule word_unat_eq_iff [THEN iffD2]) (simp add: unsigned_ucast_eq take_bit_eq_mod unat_byte_of_nat)
  have high: "drop_bit 8 w = word_of_nat (unat w div 256)" for w :: u32
    by (rule word_unat_eq_iff [THEN iffD2])
      (use unsigned_less [of w, where 'a = nat] in \<open>simp add: unat_drop_bit_div unat_of_nat\<close>)
  show "dec_digits c (d # ds) = (let v = unat c + 58 * unat d; (c', ds') = dec_digits (word_of_nat (v div 256)) ds
      in (c', word_of_nat (v mod 256) # ds'))" if "unat c \<le> 58" "unat d < 256" for c d ds
  proof -
    let ?w = "c + ucast d * 58 :: u32"
    have u: "unat ?w = unat c + 58 * unat d"
      using that(1) less_trans [OF unat_byte_less [of d], of 1000] by (simp add: unat_word_ariths)
    show ?thesis by (simp add: Let_def low high u del: word_of_nat_eq_iff)
  qed
  show "dec_carry c ds = (if c = 0 then ds
      else dec_carry (word_of_nat (unat c div 256)) (ds @ [word_of_nat (unat c mod 256)]))" for c ds
    by (subst dec_carry.simps) (simp only: low high)
qed simp_all


section \<open>The number a text stands for\<close>

definition be_val :: "nat \<Rightarrow> nat list \<Rightarrow> nat" where
  "be_val base ds = fold (\<lambda>d v. v * base + d) ds 0"

definition base58_digits :: "bytes \<Rightarrow> bytes" where
  "base58_digits data = fold (\<lambda>b digits.
     let (carry, digits) = enc_digits (ucast b) digits in enc_carry carry digits) data []"

lemma base58_digits_spec:
  "proper 58 (base58_digits data) \<and> digit_val 58 (base58_digits data) = be_val 256 (map unat data)"
proof -
  have "proper 58 (fold (\<lambda>b digits. let (carry, digits) = enc_digits (ucast b) digits in enc_carry carry digits) data ds)
     \<and> digit_val 58 (fold (\<lambda>b digits. let (carry, digits) = enc_digits (ucast b) digits in enc_carry carry digits) data ds)
       = fold (\<lambda>d v. v * 256 + d) (map unat data) (digit_val 58 ds)" if "proper 58 ds" for ds
    using that
  proof (induction data arbitrary: ds)
    case Nil
    then show ?case by simp
  next
    case (Cons b data)
    have "unat (ucast b :: u32) \<le> 256"
      unfolding unat_byte_u32 by (rule less_imp_le) (rule unat_byte_less)
    from enc_loop.round_spec [OF this Cons.prems] Cons.IH show ?case
      by (simp add: case_prod_unfold Let_def add.commute mult.commute)
  qed
  then show ?thesis by (simp add: base58_digits_def be_val_def)
qed

lemma strchr_nth:
  "distinct s \<Longrightarrow> n < length s \<Longrightarrow> strchr s (s ! n) i = Some (i + n)"
proof (induction s arbitrary: n i)
  case Nil
  then show ?case by simp
next
  case (Cons a s)
  then show ?case by (cases n) auto
qed

lemma alphabet: "length BASE58_ALPHABET = 58" "distinct BASE58_ALPHABET" "BASE58_ALPHABET ! 0 = CHR ''1''"
  by (simp_all add: BASE58_ALPHABET_def)

lemma decode_digits:
  assumes "proper 256 result" "\<forall>d \<in> set ds. d < 58"
  shows "\<exists>r. decode_loop (map (\<lambda>d. BASE58_ALPHABET ! d) ds) result = Some r \<and> proper 256 r
    \<and> digit_val 256 r = fold (\<lambda>d v. v * 58 + d) ds (digit_val 256 result)"
  using assms
proof (induction ds arbitrary: result)
  case Nil
  then show ?case by simp
next
  case (Cons d ds)
  then have p: "strchr BASE58_ALPHABET (BASE58_ALPHABET ! d) 0 = Some d"
    using strchr_nth [of BASE58_ALPHABET d 0] by (simp add: alphabet)
  have d: "unat (word_of_nat d :: u32) = d" using Cons.prems(2) by (simp add: unat_of_nat)
  then have "unat (word_of_nat d :: u32) \<le> 58" using Cons.prems(2) by simp
  note r = dec_loop.round_spec [OF this Cons.prems(1), unfolded d]
  obtain c' ds' where i: "dec_digits (word_of_nat d) result = (c', ds')"
    by (cases "dec_digits (word_of_nat d) result")
  have r': "proper 256 (dec_carry c' ds')" "digit_val 256 (dec_carry c' ds') = digit_val 256 result * 58 + d"
    using r by (simp_all add: i)
  show ?case
    using Cons.IH [OF r'(1)] Cons.prems(2) by (simp add: p i r'(2))
qed


text \<open>Leading zero bytes, and the rest of the data.\<close>

definition zeros :: "bytes \<Rightarrow> nat" where
  "zeros data = length (takeWhile (\<lambda>b. b = 0) data)"

lemma data_split: "data = replicate (zeros data) 0 @ drop (zeros data) data"
proof -
  have "takeWhile (\<lambda>b. b = 0) data = replicate (zeros data) 0"
    unfolding zeros_def by (rule replicate_eqI) (auto dest: set_takeWhileD)
  then show ?thesis
    by (metis takeWhile_dropWhile_id dropWhile_eq_drop zeros_def)
qed

lemma be_val_zeros: "be_val base (replicate n 0 @ ds) = be_val base ds"
proof -
  have "fold (\<lambda>d v. v * base + d) (replicate n 0) 0 = 0" by (induction n) simp_all
  then show ?thesis by (simp add: be_val_def)
qed

lemma be_val_rev: "be_val base (map unat (rev ds)) = digit_val base ds"
  by (induction ds) (simp_all add: be_val_def mult.commute)

lemma proper_rest: "proper 256 (rev (drop (zeros data) data))"
proof (cases "drop (zeros data) data = []")
  case False
  then have "hd (dropWhile (\<lambda>b. b = 0) data) \<noteq> 0"
    using hd_dropWhile [of "\<lambda>b. b = 0" data] by (simp add: zeros_def flip: dropWhile_eq_drop)
  then show ?thesis
    using False by (simp add: proper_def last_rev zeros_def flip: dropWhile_eq_drop)
qed (simp add: proper_def)

lemma encodeBase58_digits:
  "encodeBase58 data = replicate (zeros data) (CHR ''1'')
     @ map (\<lambda>d. BASE58_ALPHABET ! unat d) (rev (base58_digits data))"
  by (simp add: encodeBase58_def base58_digits_def zeros_def)

lemma decode_encode:
  "decodeBase58 (encodeBase58 data) = replicate (zeros data) 0 @ rev (drop (zeros data) data)"
proof -
  let ?ds = "base58_digits data"
  let ?ns = "replicate (zeros data) 0 @ map unat (rev ?ds)"
  have p: "proper 58 ?ds" "digit_val 58 ?ds = be_val 256 (map unat data)"
    using base58_digits_spec by simp_all
  have s: "encodeBase58 data = map (\<lambda>d. BASE58_ALPHABET ! d) ?ns"
    by (simp add: encodeBase58_digits alphabet comp_def)
  have "\<forall>d \<in> set ?ns. d < 58" using p(1) by (auto simp: proper_def)
  from decode_digits [OF proper_Nil this] obtain r where
    r: "decode_loop (encodeBase58 data) [] = Some r" "proper 256 r" "digit_val 256 r = be_val 58 ?ns"
    unfolding s by (auto simp: be_val_def)
  have "digit_val 256 r = be_val 256 (map unat data)"
    using p(2) by (simp add: r(3) be_val_zeros be_val_rev)
  also have "\<dots> = be_val 256 (map unat (rev (rev (drop (zeros data) data))))"
    by (subst data_split) (simp add: be_val_zeros)
  also have "\<dots> = digit_val 256 (rev (drop (zeros data) data))"
    by (rule be_val_rev)
  finally have rr: "r = rev (drop (zeros data) data)"
    using r(2) proper_rest by (intro proper_unique) simp_all
  have "BASE58_ALPHABET ! unat (List.last ?ds) \<noteq> CHR ''1''" if "?ds \<noteq> []"
  proof -
    have "unat (List.last ?ds) < 58" "unat (List.last ?ds) \<noteq> 0"
      using p(1) that by (auto simp: proper_def word_unat_eq_iff)
    then show ?thesis
      using alphabet nth_eq_iff_index_eq [of BASE58_ALPHABET "unat (List.last ?ds)" 0] by simp
  qed
  then have "takeWhile (\<lambda>c. c = CHR ''1'') (map (\<lambda>d. BASE58_ALPHABET ! unat d) (rev ?ds)) = []"
    by (cases "rev ?ds") (auto simp: rev_eq_Cons_iff)
  then have "length (takeWhile (\<lambda>c. c = CHR ''1'') (encodeBase58 data)) = zeros data"
    unfolding encodeBase58_digits by (subst takeWhile_append2) auto
  then show ?thesis by (simp add: decodeBase58_def r(1) rr)
qed


lemma strchr_None: "strchr s c i = None \<longleftrightarrow> c \<notin> set s \<and> c \<noteq> CHR 0x00"
  by (induction s arbitrary: i) auto

lemma decode_loop_None:
  "decode_loop s result = None \<longleftrightarrow> (\<exists>c \<in> set s. c \<notin> set BASE58_ALPHABET \<and> c \<noteq> CHR 0x00)"
proof (induction s arbitrary: result)
  case Nil
  then show ?case by simp
next
  case (Cons c s)
  then show ?case
    using strchr_None [of BASE58_ALPHABET c 0]
    by (cases "strchr BASE58_ALPHABET c 0") (auto simp: case_prod_unfold Let_def)
qed


section \<open>Properties\<close>

text \<open>
  C28. \<^verbatim>\<open>encodeBase58\<close> is the Base58 encoding: a \<open>'1'\<close> for every leading zero byte, then the
  base-58 digits of the big-endian number the bytes stand for, highest first, without
  leading zeros. No carry overflows its 32 bits and no digit its 8.
\<close>

theorem encodeBase58_correct:
  "\<exists>!ds. proper 58 ds \<and> digit_val 58 ds = be_val 256 (map unat data)
     \<and> encodeBase58 data = replicate (zeros data) (CHR ''1'') @ map (\<lambda>d. BASE58_ALPHABET ! unat d) (rev ds)"
proof (rule ex1I [of _ "base58_digits data"])
  fix ds
  assume "proper 58 ds \<and> digit_val 58 ds = be_val 256 (map unat data)
     \<and> encodeBase58 data = replicate (zeros data) (CHR ''1'') @ map (\<lambda>d. BASE58_ALPHABET ! unat d) (rev ds)"
  then show "ds = base58_digits data"
    using base58_digits_spec [of data] by (intro proper_unique [of 58]) simp_all
qed (simp add: base58_digits_spec encodeBase58_digits)

text \<open>
  \<^verbatim>\<open>decodeBase58\<close> does not undo \<^verbatim>\<open>encodeBase58\<close>: it never reverses its digits, so the bytes
  behind the leading zeros come back in reverse order.
\<close>

theorem decodeBase58_reverses:
  "decodeBase58 (encodeBase58 data) = replicate (zeros data) 0 @ rev (drop (zeros data) data)"
  by (rule decode_encode)

text \<open>
  When decoding the address of a hash succeeds: the fourth checksum byte is the version byte
  and four more bytes are a checksum.
\<close>

definition reads_back :: "hasher \<Rightarrow> bytes \<Rightarrow> bool" where
  "reads_back sha h \<longleftrightarrow>
     (let c = take 4 (bytes_of (shawncoin_sha256d sha (ADDRESS_VERSION # h)))
      in c ! 3 = ADDRESS_VERSION
         \<and> take 4 (bytes_of (shawncoin_sha256d sha (rev (drop 3 h @ c)))) = [h ! 2, h ! 1, h ! 0, ADDRESS_VERSION])"

lemma address_decoded:
  assumes "length h = 20"
  shows "addressToPubKeyHash sha (pubKeyHashToAddress sha h) =
    (if reads_back sha h
     then rev (drop 3 h @ take 3 (bytes_of (shawncoin_sha256d sha (ADDRESS_VERSION # h)))) else [])"
proof -
  let ?c = "take 4 (bytes_of (shawncoin_sha256d sha (ADDRESS_VERSION # h)))"
  have "length ?c = Suc (Suc (Suc (Suc 0)))" by simp
  then obtain c0 c1 c2 c3 where c: "?c = [c0, c1, c2, c3]"
    unfolding length_Suc_conv by auto
  have "length h = Suc (Suc (Suc 17))" using assms by simp
  then obtain h0 h1 h2 hs where h: "h = h0 # h1 # h2 # hs" "length hs = 17"
    unfolding length_Suc_conv by auto
  let ?buf = "ADDRESS_VERSION # h @ ?c"
  have "zeros ?buf = 0" by (simp add: zeros_def ADDRESS_VERSION_def)
  then have d: "decodeBase58 (pubKeyHashToAddress sha h) = rev ?buf"
    using decode_encode [of ?buf]
    by (simp add: pubKeyHashToAddress_def encodeBase58Check_def Let_def)
  have r: "rev ?buf = c3 # c2 # c1 # c0 # rev hs @ [h2, h1, h0, ADDRESS_VERSION]"
    by (simp add: c) (simp add: h)
  have t: "take 21 (rev ?buf) = c3 # c2 # c1 # c0 # rev hs"
      "drop 21 (rev ?buf) = [h2, h1, h0, ADDRESS_VERSION]" "length (rev ?buf) = 25"
    unfolding r using h(2) by simp_all
  have m: "memcmp (take 4 (bytes_of x)) [h2, h1, h0, ADDRESS_VERSION] = 0
      \<longleftrightarrow> take 4 (bytes_of x) = [h2, h1, h0, ADDRESS_VERSION]" for x
    by (rule memcmp_0) simp
  have "rev (drop 3 h @ ?c) = c3 # c2 # c1 # c0 # rev hs" "rev (drop 3 h @ take 3 ?c) = c2 # c1 # c0 # rev hs"
    by (simp_all add: c) (simp_all add: h)
  moreover have "take 3 (bytes_of (shawncoin_sha256d sha (ADDRESS_VERSION # h))) = [c0, c1, c2]"
    using arg_cong [OF c, of "take 3"] by simp
  ultimately show ?thesis
    using h unfolding addressToPubKeyHash_def decodeBase58Check_def d Let_def
    by (simp add: t m reads_back_def Let_def)
qed



text \<open>
  \<^verbatim>\<open>decodeBase58\<close> rejects exactly the texts with a character outside the alphabet, with
  one exception: the character NUL passes, as a digit of value 58.
\<close>

theorem decodeBase58_alphabet:
  "(decode_loop s [] = None \<longleftrightarrow> (\<exists>c \<in> set s. c \<notin> set BASE58_ALPHABET \<and> c \<noteq> CHR 0x00))
   \<and> decodeBase58 [CHR 0x00] = [58]"
proof -
  have "strchr BASE58_ALPHABET (CHR 0x00) 0 = Some 58"
    by (simp add: BASE58_ALPHABET_def)
  then have "decodeBase58 [CHR 0x00] = [58]"
    by (simp add: decodeBase58_def dec_carry.simps [of 58] dec_carry.simps [of 0])
  then show ?thesis using decode_loop_None by blast
qed

end
