(* ===== verification/Mnemonic.thy ===== *)
theory Mnemonic
  imports Base58
begin

text \<open>
  \<^verbatim>\<open>src/wallet/mnemonic.cpp\<close>: twelve-word phrases and the seed they stand for. \<^verbatim>\<open>RAND_bytes\<close>
  (through \<^verbatim>\<open>crypto/secure_random.c\<close>), the one-shot \<^verbatim>\<open>SHA256\<close> and \<^verbatim>\<open>PKCS5_PBKDF2_HMAC\<close> are
  OpenSSL's: the drawn bytes (\<open>None\<close> when the call fails), the hash and the key derivation
  are parameters. The array of words has 2048 places and 2045 initialisers; the other three are
  null pointers, and writing one to a stream is undefined: \<open>generateMnemonic12\<close> is \<open>None\<close> then.
\<close>

section \<open>The word list\<close>

definition BIP39_WORDS_1 :: "string list" where
  "BIP39_WORDS_1 =
    [
     ''abandon'', ''ability'', ''able'', ''about'', ''above'', ''absent'', ''absorb'', ''abstract'', ''absurd'', ''abuse'',
     ''access'', ''accident'', ''account'', ''accuse'', ''achieve'', ''acid'', ''acoustic'', ''acquire'', ''across'', ''act'',
     ''action'', ''actor'', ''actress'', ''actual'', ''adapt'', ''add'', ''addict'', ''address'', ''adjust'', ''admit'',
     ''adult'', ''advance'', ''advice'', ''aerobic'', ''affair'', ''afford'', ''afraid'', ''again'', ''age'', ''agent'',
     ''agree'', ''ahead'', ''aim'', ''air'', ''airport'', ''aisle'', ''alarm'', ''album'', ''alcohol'', ''alert'',
     ''alien'', ''all'', ''alley'', ''allow'', ''almost'', ''alone'', ''alpha'', ''already'', ''also'', ''alter'',
     ''always'', ''amateur'', ''amazing'', ''among'', ''amount'', ''amused'', ''analyst'', ''anchor'', ''ancient'', ''anger'',
     ''angle'', ''angry'', ''animal'', ''ankle'', ''announce'', ''annual'', ''another'', ''answer'', ''antenna'', ''antique'',
     ''anxiety'', ''any'', ''apart'', ''apology'', ''appear'', ''apple'', ''approve'', ''april'', ''arch'', ''arctic'',
     ''area'', ''arena'', ''argue'', ''arm'', ''armed'', ''armor'', ''army'', ''around'', ''arrange'', ''arrest'',
     ''arrive'', ''arrow'', ''art'', ''artefact'', ''artist'', ''artwork'', ''ask'', ''aspect'', ''assault'', ''asset'',
     ''assist'', ''assume'', ''asthma'', ''athlete'', ''atom'', ''attack'', ''attend'', ''attitude'', ''attract'', ''auction'',
     ''audit'', ''august'', ''aunt'', ''author'', ''auto'', ''autumn'', ''average'', ''avocado'', ''avoid'', ''awake'',
     ''aware'', ''away'', ''awesome'', ''awful'', ''awkward'', ''axis'', ''baby'', ''bachelor'', ''bacon'', ''badge'',
     ''bag'', ''balance'', ''balcony'', ''ball'', ''bamboo'', ''banana'', ''banner'', ''bar'', ''barely'', ''bargain'',
     ''barrel'', ''base'', ''basic'', ''basket'', ''battle'', ''beach'', ''bean'', ''beauty'', ''because'', ''become'',
     ''beef'', ''before'', ''begin'', ''behave'', ''behind'', ''believe'', ''below'', ''belt'', ''bench'', ''benefit'',
     ''best'', ''betray'', ''better'', ''between'', ''beyond'', ''bicycle'', ''bid'', ''bike'', ''bind'', ''biology'',
     ''bird'', ''birth'', ''bitter'', ''black'', ''blade'', ''blame'', ''blanket'', ''blast'', ''bleak'', ''bless'',
     ''blind'', ''blood'', ''blossom'', ''blouse'', ''blue'', ''blur'', ''blush'', ''board'', ''boat'', ''body'',
     ''boil'', ''bomb'', ''bone'', ''bonus'', ''book'', ''boost'', ''border'', ''boring'', ''borrow'', ''boss'',
     ''bottom'', ''bounce'', ''box'', ''boy'', ''bracket'', ''brain'', ''brand'', ''brass'', ''brave'', ''bread'',
     ''breeze'', ''brick'', ''bridge'', ''brief'', ''bright'', ''bring'', ''brisk'', ''broccoli'', ''broken'', ''bronze'',
     ''broom'', ''brother'', ''brown'', ''brush'', ''bubble'', ''buddy'', ''budget'', ''buffalo'', ''build'', ''bulb'',
     ''bulk'', ''bullet'', ''bundle'', ''bunker'', ''burden'', ''burger'', ''burst'', ''bus'', ''business'', ''busy'',
     ''butter'', ''buyer'', ''buzz'', ''cabbage'', ''cabin'', ''cable'', ''cactus'', ''cage'', ''cake'', ''call'',
     ''calm'', ''camera'', ''camp'', ''can'', ''canal'', ''cancel'', ''candy'', ''cannon'', ''canoe'', ''canvas'',
     ''canyon'', ''capable'', ''capital'', ''captain'', ''car'', ''carbon'', ''card'', ''cargo'', ''carpet'', ''carry'',
     ''cart'', ''case'', ''cash'', ''casino'', ''castle'', ''casual'', ''cat'', ''catalog'', ''catch'', ''category'',
     ''cattle'', ''caught'', ''cause'', ''caution'', ''cave'', ''ceiling'', ''celery'', ''cement'', ''census'', ''century'',
     ''cereal'', ''certain'', ''chair'', ''chalk'', ''champion'', ''change'', ''chaos'', ''chapter'', ''charge'', ''chase'',
     ''chat'', ''cheap'', ''check'', ''cheese'', ''chef'', ''cherry'', ''chest'', ''chicken'', ''chief'', ''child'',
     ''chimney'', ''choice'', ''choose'', ''chronic'', ''chuckle'', ''chunk'', ''churn'', ''cigar'', ''cinnamon'', ''circle'',
     ''citizen'', ''city'', ''civil'', ''claim'', ''clap'', ''clarify'', ''claw'', ''clay'', ''clean'', ''clerk'',
     ''clever'', ''click'', ''client'', ''cliff'', ''climb'', ''clinic'', ''clip'', ''clock'', ''clog'', ''close'',
     ''cloth'', ''cloud'', ''clown'', ''club'', ''clump'', ''cluster'', ''clutch'', ''coach'', ''coast'', ''coconut'',
     ''code'', ''coffee'', ''coil'', ''coin'', ''collect'', ''color'', ''column'', ''combine'', ''come'', ''comfort'',
     ''comic'', ''common'', ''company'', ''concert'', ''conduct'', ''confirm'', ''congress'', ''connect'', ''consider'', ''control'',
     ''convince'', ''cook'', ''cool'', ''copper'', ''copy'', ''coral'', ''core'', ''corn'', ''correct'', ''cost'',
     ''cotton'', ''couch'', ''country'', ''couple'', ''course'', ''cousin'', ''cover'', ''coyote'', ''crack'', ''cradle'',
     ''craft'', ''cram'', ''crane'', ''crash'', ''crater'', ''crawl'', ''crazy'', ''cream'', ''credit'', ''creek'',
     ''crew'', ''cricket'', ''crime'', ''crisp'', ''critic'', ''crop'', ''cross'', ''crouch'', ''crowd'', ''crucial'',
     ''cruel'', ''cruise'', ''crumble'', ''crunch'', ''crush'', ''cry'', ''crystal'', ''cube'', ''culture'', ''cup'',
     ''cupboard'', ''curious'', ''current'', ''curtain'', ''curve'', ''cushion'', ''custom'', ''cute'', ''cycle'', ''dad'',
     ''damage'', ''damp'', ''dance'', ''danger'', ''daring'', ''dash'', ''daughter'', ''dawn'', ''day'', ''deal'',
     ''debate'', ''debris'', ''decade'', ''december'', ''decide'', ''decline'', ''decorate'', ''decrease'', ''deer'', ''defense'',
     ''define'', ''defy'', ''degree'', ''delay'', ''deliver'', ''demand'', ''demise'', ''denial'', ''dentist'', ''deny'',
     ''depart'', ''depend'', ''deposit'', ''depth'', ''deputy'', ''derive'', ''describe'', ''desert'', ''design'', ''desk'',
     ''despair'', ''destroy'', ''detail'', ''detect'', ''develop'', ''device'', ''devote'', ''diagram'', ''dial'', ''diamond'',
     ''diary'', ''dice'', ''diesel'', ''diet'', ''differ'', ''digital'', ''dignity'', ''dilemma'', ''dinner'', ''dinosaur'',
     ''direct'', ''dirt'', ''disagree'', ''discover'', ''disease'', ''dish'', ''dismiss'', ''disorder'', ''display'', ''distance'',
     ''divert'', ''divide'', ''divorce'', ''dizzy'', ''doctor'', ''document'', ''dog'', ''doll'', ''dolphin'', ''domain'',
     ''donate'', ''donkey'', ''donor'', ''door'', ''dose'', ''double'', ''dove'', ''draft'', ''dragon'', ''drama'',
     ''drastic'', ''draw'', ''dream'', ''dress'', ''drift'', ''drill'', ''drink'', ''drip'', ''drive'', ''drop'',
     ''drum'', ''dry'', ''duck'', ''dumb'', ''dune'', ''during'', ''dust'', ''dutch'', ''duty'', ''dwarf'',
     ''dynamic'', ''eager'', ''eagle'', ''early'', ''earn'', ''earth'', ''easily'', ''east'', ''easy'', ''echo'',
     ''ecology'', ''economy'', ''edge'', ''edit'', ''educate'', ''effort'', ''egg'', ''eight'', ''either'', ''elbow'',
     ''elder'', ''electric'', ''elegant'', ''element'', ''elephant'', ''elevator'', ''elite'', ''else'', ''embark'', ''embody'',
     ''embrace'', ''emerge'', ''emotion'', ''employ'', ''empower'', ''empty'', ''enable'', ''enact'', ''end'', ''endless'',
     ''endorse'', ''enemy'', ''energy'', ''enforce'', ''engage'', ''engine'', ''enhance'', ''enjoy'', ''enlist'', ''enough'',
     ''enrich'', ''enroll'', ''ensure'', ''enter'', ''entire'', ''entry'', ''envelope'', ''episode'', ''equal'', ''equip'',
     ''era'', ''erase'', ''erode'', ''erosion'', ''error'', ''erupt'', ''escape'', ''essay'', ''essence'', ''estate'',
     ''eternal'', ''ethics'', ''evidence'', ''evil'', ''evoke'', ''evolve'', ''exact'', ''example'', ''excess'', ''exchange'',
     ''excite'', ''exclude'', ''excuse'', ''execute'', ''exercise'', ''exhaust'', ''exhibit'', ''exist'', ''exit'', ''exotic'',
     ''expand'', ''expect'', ''expire'', ''explain'', ''expose'', ''express'', ''extend'', ''extra'', ''eye'', ''eyebrow'',
     ''fabric'', ''face'', ''faculty'', ''fade'', ''faint'', ''faith'', ''fall'', ''false'', ''fame'', ''family'',
     ''famous'', ''fan'', ''fancy'', ''fantasy'', ''farm'', ''fashion'', ''fat'', ''fatal'', ''father'', ''fatigue'',
     ''fault'', ''favorite'', ''feature'', ''february'', ''federal'', ''fee'', ''feed'', ''feel'', ''female'', ''fence'',
     ''festival'', ''fetch'', ''fever'', ''few'', ''fiber'', ''fiction'', ''field'', ''figure'', ''file'', ''film'',
     ''filter'', ''final'', ''find'', ''fine'', ''finger'', ''finish'', ''fire'', ''firm'', ''first'', ''fiscal'',
     ''fish'', ''fit'', ''fitness'', ''fix'', ''flag'', ''flame'', ''flash'', ''flat'', ''flavor'', ''flee'',
     ''flight'', ''flip'', ''float'', ''flock'', ''floor'', ''flower'', ''fluid'', ''flush'', ''fly'', ''foam'',
     ''focus'', ''fog'', ''foil'', ''fold'', ''follow'', ''food'', ''foot'', ''force'', ''forest'', ''forget'',
     ''fork'', ''fortune'', ''forum'', ''forward'', ''fossil'', ''foster'', ''found'', ''fox'', ''fragile'', ''frame'',
     ''frequent'', ''fresh'', ''friend'', ''fringe'', ''frog'', ''front'', ''frost'', ''frown'', ''frozen'', ''fruit'',
     ''fuel'', ''fun'', ''funny'', ''furnace'', ''fury'', ''future'', ''gadget'', ''gain'', ''galaxy'', ''gallery'',
     ''game'', ''gap'', ''garage'', ''garbage'', ''garden'', ''garlic'', ''garment'', ''gas'', ''gasp'', ''gate'',
     ''gather'', ''gauge'', ''gaze'', ''general'', ''genius'', ''genre'', ''gentle'', ''genuine'', ''gesture'', ''ghost'',
     ''giant'', ''gift'', ''giggle'', ''ginger'', ''giraffe'', ''girl'', ''give'', ''glad'', ''glance'', ''glare'',
     ''glass'', ''glide'', ''glimpse'', ''globe'', ''gloom'', ''glory'', ''glove'', ''glow'', ''glue'', ''goat'',
     ''goddess'', ''gold'', ''good'', ''goose'', ''gorilla'', ''gospel'', ''gossip'', ''govern'', ''gown'', ''grab'',
     ''grace'', ''grain'', ''grant'', ''grape'', ''grass'', ''gravity'', ''great'', ''green'', ''grid'', ''grief'',
     ''grit'', ''grocery'', ''group'', ''grow'', ''grunt'', ''guard'', ''guess'', ''guide'', ''guilt'', ''guitar'',
     ''gun'', ''gym'', ''habit'', ''hair'', ''half'', ''hammer'', ''hamster'', ''hand'', ''happy'', ''harbor'',
     ''hard'', ''harsh'', ''harvest'', ''hat'', ''have'', ''hawk'', ''hazard'', ''head'', ''health'', ''heart'',
     ''heavy'', ''hedgehog'', ''height'', ''hello'', ''helmet'', ''help'', ''hen'', ''hero'', ''hidden'', ''high'',
     ''hill'', ''hint'', ''hip'', ''hire'', ''history'', ''hobby'', ''hockey'', ''hold'', ''hole'', ''holiday'',
     ''hollow'', ''home'', ''honey'', ''hood'', ''hope'', ''horn'', ''horror'', ''horse'', ''hospital'', ''host'',
     ''hotel'', ''hour'', ''hover'', ''hub'', ''huge'', ''human'', ''humble'', ''humor'', ''hundred'', ''hungry'',
     ''hunt'', ''hurdle'', ''hurry'', ''hurt'', ''husband'', ''hybrid'', ''ice'', ''icon'', ''idea'', ''identify'',
     ''idle'', ''ignore'', ''ill'', ''illegal'', ''illness'', ''image'', ''imitate'', ''immense'', ''immune'', ''impact'',
     ''impose'', ''improve'', ''impulse'', ''inch'', ''include'', ''income'', ''increase'', ''index'', ''indicate'', ''indoor'',
     ''industry'', ''infant'', ''inflict'', ''inform'', ''inherit'', ''initial'', ''inject'', ''injury'', ''inmate'', ''inner'',
     ''innocent'', ''input'', ''inquiry'', ''insane'', ''insect'', ''inside'', ''inspire'', ''install'', ''intact'', ''interest'',
     ''into'', ''invest'', ''invite'', ''involve'', ''iron'', ''island'', ''isolate'', ''issue'', ''item'', ''ivory'',
     ''jacket'', ''jaguar'', ''jar'', ''jazz'', ''jealous'', ''jeans'', ''jelly'', ''jewel'', ''job'', ''join'',
     ''joke'', ''journey'', ''joy'', ''judge'', ''juice'', ''jump'', ''jungle'', ''junior'', ''junk'', ''just'',
     ''kangaroo'', ''keen'', ''keep'', ''ketchup'', ''key'', ''kick'', ''kid'', ''kidney'', ''kind'', ''king'',
     ''kit'', ''kitchen'', ''kite'', ''kitten'', ''kiwi'', ''knee'', ''knife'', ''knock'', ''know'', ''lab'',
     ''label'', ''labor'', ''ladder'', ''lady'', ''lake'', ''lamp'', ''language'', ''laptop'', ''large'', ''later'',
     ''latin'', ''laugh'', ''laundry'', ''lava'', ''law'', ''lawn'', ''lawsuit'', ''layer'', ''lazy'', ''leader'',
     ''leaf'', ''learn'', ''leave'', ''lecture'', ''left'', ''leg'', ''legal'', ''legend'', ''leisure'', ''lemon'',
     ''lend'', ''length'', ''lens'', ''leopard'', ''lesson'', ''letter'', ''level'', ''liar'', ''liberty'', ''library'']"

definition BIP39_WORDS_2 :: "string list" where
  "BIP39_WORDS_2 =
    [
     ''license'', ''life'', ''lift'', ''light'', ''like'', ''limb'', ''limit'', ''link'', ''lion'', ''liquid'',
     ''list'', ''little'', ''live'', ''lizard'', ''load'', ''loan'', ''lobster'', ''local'', ''lock'', ''logic'',
     ''lonely'', ''long'', ''loop'', ''lottery'', ''loud'', ''lounge'', ''love'', ''loyal'', ''lucky'', ''luggage'',
     ''lumber'', ''lunar'', ''lunch'', ''luxury'', ''lyrics'', ''machine'', ''mad'', ''magic'', ''magnet'', ''maid'',
     ''mail'', ''main'', ''major'', ''make'', ''mammal'', ''man'', ''manage'', ''mandate'', ''mango'', ''mansion'',
     ''manual'', ''maple'', ''marble'', ''march'', ''margin'', ''marine'', ''market'', ''marriage'', ''mask'', ''mass'',
     ''master'', ''match'', ''material'', ''math'', ''matrix'', ''matter'', ''maximum'', ''maze'', ''meadow'', ''mean'',
     ''measure'', ''meat'', ''mechanic'', ''medal'', ''media'', ''melody'', ''melt'', ''member'', ''memory'', ''mention'',
     ''menu'', ''mercy'', ''merge'', ''merit'', ''merry'', ''mesh'', ''message'', ''metal'', ''method'', ''middle'',
     ''midnight'', ''milk'', ''million'', ''mimic'', ''mind'', ''minimum'', ''minor'', ''minute'', ''miracle'', ''mirror'',
     ''misery'', ''miss'', ''mistake'', ''mix'', ''mixed'', ''mixture'', ''mobile'', ''model'', ''modify'', ''mom'',
     ''moment'', ''monitor'', ''monkey'', ''monster'', ''month'', ''moon'', ''moral'', ''more'', ''morning'', ''mosquito'',
     ''mother'', ''motion'', ''motor'', ''mountain'', ''mouse'', ''move'', ''movie'', ''much'', ''muffin'', ''mule'',
     ''multiply'', ''muscle'', ''museum'', ''mushroom'', ''music'', ''must'', ''mutual'', ''myself'', ''mystery'', ''myth'',
     ''naive'', ''name'', ''napkin'', ''narrow'', ''nasty'', ''nation'', ''nature'', ''near'', ''neck'', ''need'',
     ''negative'', ''neglect'', ''neither'', ''nephew'', ''nerve'', ''nest'', ''net'', ''network'', ''neutral'', ''never'',
     ''news'', ''next'', ''nice'', ''night'', ''noble'', ''noise'', ''nominee'', ''noodle'', ''normal'', ''north'',
     ''nose'', ''notable'', ''note'', ''nothing'', ''notice'', ''novel'', ''now'', ''nuclear'', ''number'', ''nurse'',
     ''nut'', ''oak'', ''obey'', ''object'', ''oblige'', ''obscure'', ''observe'', ''obtain'', ''obvious'', ''occur'',
     ''ocean'', ''october'', ''odor'', ''off'', ''offer'', ''office'', ''often'', ''oil'', ''okay'', ''old'',
     ''olive'', ''olympic'', ''omit'', ''once'', ''one'', ''onion'', ''online'', ''only'', ''open'', ''opera'',
     ''opinion'', ''oppose'', ''option'', ''orange'', ''orbit'', ''orchard'', ''order'', ''ordinary'', ''organ'', ''orient'',
     ''original'', ''orphan'', ''ostrich'', ''other'', ''outdoor'', ''outer'', ''output'', ''outside'', ''oval'', ''oven'',
     ''over'', ''own'', ''owner'', ''oxygen'', ''oyster'', ''ozone'', ''pact'', ''paddle'', ''page'', ''pair'',
     ''palace'', ''palm'', ''panda'', ''panel'', ''panic'', ''panther'', ''paper'', ''parade'', ''parent'', ''park'',
     ''parrot'', ''party'', ''pass'', ''patch'', ''path'', ''patient'', ''patrol'', ''pattern'', ''pause'', ''pave'',
     ''payment'', ''peace'', ''peanut'', ''pear'', ''peasant'', ''pelican'', ''pen'', ''penalty'', ''pencil'', ''people'',
     ''pepper'', ''perfect'', ''permit'', ''person'', ''pet'', ''phone'', ''photo'', ''phrase'', ''physical'', ''piano'',
     ''picnic'', ''picture'', ''piece'', ''pig'', ''pigeon'', ''pill'', ''pilot'', ''pink'', ''pioneer'', ''pipe'',
     ''pistol'', ''pitch'', ''pizza'', ''place'', ''planet'', ''plastic'', ''plate'', ''play'', ''please'', ''pledge'',
     ''pluck'', ''plug'', ''plunge'', ''poem'', ''poet'', ''point'', ''polar'', ''pole'', ''police'', ''pond'',
     ''pony'', ''pool'', ''popular'', ''portion'', ''position'', ''possible'', ''post'', ''potato'', ''pottery'', ''poverty'',
     ''powder'', ''power'', ''practice'', ''praise'', ''predict'', ''prefer'', ''prepare'', ''present'', ''pretty'', ''prevent'',
     ''price'', ''pride'', ''primary'', ''print'', ''priority'', ''prison'', ''private'', ''prize'', ''problem'', ''process'',
     ''produce'', ''profit'', ''program'', ''project'', ''promote'', ''proof'', ''property'', ''prosper'', ''protect'', ''proud'',
     ''provide'', ''public'', ''pudding'', ''pull'', ''pulp'', ''pulse'', ''pumpkin'', ''punch'', ''pupil'', ''puppy'',
     ''purchase'', ''purity'', ''purpose'', ''purse'', ''push'', ''put'', ''puzzle'', ''pyramid'', ''quality'', ''quantum'',
     ''quarter'', ''question'', ''quick'', ''quit'', ''quiz'', ''quote'', ''rabbit'', ''raccoon'', ''race'', ''rack'',
     ''radar'', ''radio'', ''rail'', ''rain'', ''raise'', ''rally'', ''ramp'', ''ranch'', ''random'', ''range'',
     ''rapid'', ''rare'', ''rate'', ''rather'', ''raven'', ''raw'', ''razor'', ''ready'', ''real'', ''reason'',
     ''rebel'', ''rebuild'', ''recall'', ''receive'', ''recipe'', ''record'', ''recycle'', ''reduce'', ''reflect'', ''reform'',
     ''refuse'', ''region'', ''regret'', ''regular'', ''reject'', ''relax'', ''release'', ''relief'', ''rely'', ''remain'',
     ''remember'', ''remind'', ''remove'', ''render'', ''renew'', ''rent'', ''reopen'', ''repair'', ''repeat'', ''replace'',
     ''report'', ''require'', ''rescue'', ''resemble'', ''resist'', ''resource'', ''response'', ''result'', ''retire'', ''retreat'',
     ''return'', ''reunion'', ''reveal'', ''review'', ''reward'', ''rhythm'', ''rib'', ''ribbon'', ''rice'', ''rich'',
     ''ride'', ''ridge'', ''rifle'', ''right'', ''rigid'', ''ring'', ''riot'', ''ripple'', ''risk'', ''ritual'',
     ''rival'', ''river'', ''road'', ''roast'', ''robot'', ''robust'', ''rocket'', ''romance'', ''roof'', ''rookie'',
     ''room'', ''rose'', ''rotate'', ''rough'', ''round'', ''route'', ''royal'', ''rubber'', ''rude'', ''rug'',
     ''rule'', ''run'', ''runway'', ''rural'', ''sad'', ''saddle'', ''sadness'', ''safe'', ''sail'', ''salad'',
     ''salmon'', ''salon'', ''salt'', ''salute'', ''same'', ''sample'', ''sand'', ''satisfy'', ''satoshi'', ''sauce'',
     ''sausage'', ''save'', ''say'', ''scale'', ''scan'', ''scare'', ''scatter'', ''scene'', ''scheme'', ''school'',
     ''science'', ''scissors'', ''scorpion'', ''scout'', ''scrap'', ''screen'', ''script'', ''scrub'', ''sea'', ''search'',
     ''season'', ''seat'', ''second'', ''secret'', ''section'', ''security'', ''seed'', ''seek'', ''segment'', ''select'',
     ''sell'', ''seminar'', ''senior'', ''sense'', ''sentence'', ''series'', ''service'', ''session'', ''settle'', ''setup'',
     ''seven'', ''shadow'', ''shaft'', ''shallow'', ''share'', ''shed'', ''shell'', ''sheriff'', ''shield'', ''shift'',
     ''shine'', ''ship'', ''shiver'', ''shock'', ''shoe'', ''shoot'', ''shop'', ''short'', ''shoulder'', ''shove'',
     ''shrimp'', ''shrug'', ''shuffle'', ''shy'', ''sibling'', ''sick'', ''side'', ''siege'', ''sight'', ''sign'',
     ''silent'', ''silk'', ''silly'', ''silver'', ''similar'', ''simple'', ''since'', ''sing'', ''siren'', ''sister'',
     ''situate'', ''six'', ''size'', ''skate'', ''sketch'', ''ski'', ''skill'', ''skin'', ''skirt'', ''skull'',
     ''slab'', ''slam'', ''sleep'', ''slender'', ''slice'', ''slide'', ''slight'', ''slim'', ''slogan'', ''slot'',
     ''slow'', ''slush'', ''small'', ''smart'', ''smile'', ''smoke'', ''smooth'', ''snack'', ''snake'', ''snap'',
     ''sniff'', ''snow'', ''soap'', ''soccer'', ''social'', ''sock'', ''soda'', ''soft'', ''solar'', ''soldier'',
     ''solid'', ''solution'', ''solve'', ''someone'', ''song'', ''soon'', ''sorry'', ''sort'', ''soul'', ''sound'',
     ''soup'', ''source'', ''south'', ''space'', ''spare'', ''spatial'', ''spawn'', ''speak'', ''special'', ''speed'',
     ''spell'', ''spend'', ''sphere'', ''spice'', ''spider'', ''spike'', ''spin'', ''spirit'', ''split'', ''spoil'',
     ''sponsor'', ''spoon'', ''sport'', ''spot'', ''spray'', ''spread'', ''spring'', ''spy'', ''square'', ''squeeze'',
     ''squirrel'', ''stable'', ''stadium'', ''staff'', ''stage'', ''stairs'', ''stamp'', ''stand'', ''start'', ''state'',
     ''stay'', ''steak'', ''steel'', ''stem'', ''step'', ''stereo'', ''stick'', ''still'', ''sting'', ''stock'',
     ''stomach'', ''stone'', ''stool'', ''story'', ''stove'', ''strategy'', ''street'', ''strike'', ''strong'', ''struggle'',
     ''student'', ''stuff'', ''stumble'', ''style'', ''subject'', ''submit'', ''subway'', ''success'', ''such'', ''sudden'',
     ''suffer'', ''sugar'', ''suggest'', ''suit'', ''summer'', ''sun'', ''sunny'', ''sunset'', ''super'', ''supply'',
     ''supreme'', ''sure'', ''surface'', ''surge'', ''surprise'', ''surround'', ''survey'', ''suspect'', ''sustain'', ''swallow'',
     ''swamp'', ''swap'', ''swarm'', ''swear'', ''sweet'', ''swift'', ''swim'', ''swing'', ''switch'', ''sword'',
     ''symbol'', ''symptom'', ''syrup'', ''system'', ''table'', ''tackle'', ''tag'', ''tail'', ''talent'', ''talk'',
     ''tank'', ''tape'', ''target'', ''task'', ''taste'', ''tattoo'', ''taxi'', ''teach'', ''team'', ''tell'',
     ''ten'', ''tenant'', ''tennis'', ''tent'', ''term'', ''test'', ''text'', ''thank'', ''that'', ''theme'',
     ''then'', ''theory'', ''there'', ''they'', ''thing'', ''this'', ''thought'', ''three'', ''thrive'', ''throw'',
     ''thumb'', ''thunder'', ''ticket'', ''tide'', ''tiger'', ''tilt'', ''timber'', ''time'', ''tiny'', ''tip'',
     ''tired'', ''tissue'', ''title'', ''toast'', ''tobacco'', ''today'', ''toddler'', ''toe'', ''together'', ''toilet'',
     ''token'', ''tomato'', ''tomorrow'', ''tone'', ''tongue'', ''tonight'', ''tool'', ''tooth'', ''top'', ''topic'',
     ''topple'', ''torch'', ''tornado'', ''tortoise'', ''toss'', ''total'', ''tourist'', ''toward'', ''tower'', ''town'',
     ''toy'', ''track'', ''trade'', ''traffic'', ''tragic'', ''train'', ''transfer'', ''trap'', ''trash'', ''travel'',
     ''tray'', ''treat'', ''tree'', ''trend'', ''trial'', ''tribe'', ''trick'', ''trigger'', ''trim'', ''trip'',
     ''trophy'', ''trouble'', ''truck'', ''true'', ''truly'', ''trumpet'', ''trust'', ''truth'', ''try'', ''tube'',
     ''tuition'', ''tumble'', ''tuna'', ''tunnel'', ''turkey'', ''turn'', ''turtle'', ''twelve'', ''twenty'', ''twice'',
     ''twin'', ''twist'', ''two'', ''type'', ''typical'', ''ugly'', ''umbrella'', ''unable'', ''unaware'', ''uncle'',
     ''uncover'', ''under'', ''undo'', ''unfair'', ''unfold'', ''unhappy'', ''uniform'', ''unique'', ''unit'', ''universe'',
     ''unknown'', ''unlock'', ''until'', ''unusual'', ''unveil'', ''update'', ''upgrade'', ''uphold'', ''upon'', ''upper'',
     ''upset'', ''urban'', ''urge'', ''usage'', ''use'', ''used'', ''useful'', ''useless'', ''usual'', ''utility'',
     ''vacant'', ''vacuum'', ''vague'', ''valid'', ''valley'', ''valve'', ''van'', ''vanish'', ''vapor'', ''various'',
     ''vast'', ''vault'', ''vehicle'', ''velvet'', ''vendor'', ''venture'', ''venue'', ''verb'', ''verify'', ''version'',
     ''very'', ''vessel'', ''veteran'', ''viable'', ''vibrant'', ''vicious'', ''victory'', ''video'', ''view'', ''village'',
     ''vintage'', ''violin'', ''virtual'', ''virus'', ''visa'', ''visit'', ''visual'', ''vital'', ''vivid'', ''vocal'',
     ''voice'', ''void'', ''volcano'', ''volume'', ''vote'', ''voyage'', ''wage'', ''wagon'', ''wait'', ''walk'',
     ''wall'', ''walnut'', ''want'', ''ward'', ''warm'', ''warrior'', ''wash'', ''wasp'', ''waste'', ''water'',
     ''wave'', ''way'', ''wealth'', ''weapon'', ''wear'', ''weasel'', ''weather'', ''web'', ''wedding'', ''week'',
     ''weird'', ''welcome'', ''west'', ''wet'', ''whale'', ''what'', ''wheat'', ''wheel'', ''when'', ''where'',
     ''whip'', ''whisper'', ''wide'', ''width'', ''wife'', ''wild'', ''will'', ''win'', ''window'', ''wine'',
     ''wing'', ''wink'', ''winner'', ''winter'', ''wire'', ''wisdom'', ''wise'', ''wish'', ''witness'', ''wolf'',
     ''woman'', ''wonder'', ''wood'', ''wool'', ''word'', ''work'', ''world'', ''worry'', ''worth'', ''wrap'',
     ''wreck'', ''wrestle'', ''wrist'', ''write'', ''wrong'', ''yard'', ''year'', ''yellow'', ''you'', ''young'',
     ''youth'', ''zebra'', ''zero'', ''zone'', ''zoo'']"

definition BIP39_WORD_COUNT :: nat where "BIP39_WORD_COUNT = 2048"

definition BIP39_WORDS :: "string option list" where
  "BIP39_WORDS =
     (let ws = BIP39_WORDS_1 @ BIP39_WORDS_2
      in map Some ws @ replicate (2048 - length ws) None)"

lemma length_BIP39_WORDS_1 [simp]: "length BIP39_WORDS_1 = 1030"
  by (simp add: BIP39_WORDS_1_def)

lemma length_BIP39_WORDS_2 [simp]: "length BIP39_WORDS_2 = 1015"
  by (simp add: BIP39_WORDS_2_def)

lemma length_BIP39_WORDS [simp]: "length BIP39_WORDS = BIP39_WORD_COUNT"
  by (simp add: BIP39_WORDS_def BIP39_WORD_COUNT_def Let_def)

lemma BIP39_WORDS_null:
  assumes "i < BIP39_WORD_COUNT"
  shows "BIP39_WORDS ! i = None \<longleftrightarrow> 2045 \<le> i"
  using assms by (simp add: BIP39_WORDS_def BIP39_WORD_COUNT_def nth_append Let_def) linarith


section \<open>Phrases and seeds\<close>

definition shawncoin_secure_rand :: "(nat \<Rightarrow> bytes option) \<Rightarrow> nat \<Rightarrow> bytes option" where
  "shawncoin_secure_rand RAND len = (if len = 0 then None else RAND len)"

definition mnemonic_bits :: "bytes \<Rightarrow> bytes \<Rightarrow> nat list" where
  "mnemonic_bits entropy hash =
     (let bits = fold (\<lambda>i bits. fold (\<lambda>j bits. bits @ [unat (drop_bit j (entropy ! i) AND 1)])
                   (rev [0..<8]) bits) [0..<16] []
      in fold (\<lambda>i bits. bits @ [unat (drop_bit (7 - i) (hash ! 0) AND 1)]) [0..<4] bits)"

definition word_index :: "nat list \<Rightarrow> nat \<Rightarrow> nat" where
  "word_index bits i = fold (\<lambda>j idx. push_bit 1 idx OR bits ! (i * 11 + j)) [0..<11] 0"

definition put_word :: "nat list \<Rightarrow> nat \<Rightarrow> string option \<Rightarrow> string option" where
  "put_word bits i ss =
     (case ss of
        None \<Rightarrow> None
      | Some s \<Rightarrow>
          (let idx = word_index bits i;
               s = (if i \<noteq> 0 then s @ '' '' else s)
           in case BIP39_WORDS ! idx of None \<Rightarrow> None | Some w \<Rightarrow> Some (s @ w)))"

definition generateMnemonic12 :: "hasher \<Rightarrow> (nat \<Rightarrow> bytes option) \<Rightarrow> string option" where
  "generateMnemonic12 SHA256 RAND =
     (case shawncoin_secure_rand RAND 16 of
        None \<Rightarrow> Some []
      | Some entropy \<Rightarrow>
          (let hash = bytes_of (SHA256 entropy);
               bits = mnemonic_bits entropy hash
           in fold (put_word bits) [0..<12] (Some [])))"

datatype evp_md = EVP_sha256 | EVP_sha512

text \<open>\<^verbatim>\<open>PKCS5_PBKDF2_HMAC(pass, salt, iterations, digest, length)\<close>.\<close>

type_synonym pbkdf2 = "bytes \<Rightarrow> bytes \<Rightarrow> nat \<Rightarrow> evp_md \<Rightarrow> nat \<Rightarrow> bytes option"

definition string_bytes :: "string \<Rightarrow> bytes" where
  "string_bytes s = map of_char s"

definition derive_seed_from_mnemonic :: "pbkdf2 \<Rightarrow> string \<Rightarrow> string \<Rightarrow> bool \<times> bytes" where
  "derive_seed_from_mnemonic KDF mnemonic passphrase =
     (let salt = ''mnemonic'' @ passphrase
      in case KDF (string_bytes mnemonic) (string_bytes salt) 2048 EVP_sha512 64 of
           None \<Rightarrow> (False, replicate 64 0)
         | Some seed \<Rightarrow> (True, seed))"

definition mnemonicToSeed :: "pbkdf2 \<Rightarrow> string \<Rightarrow> string \<Rightarrow> bytes" where
  "mnemonicToSeed KDF mnemonic passphrase =
     (let (ok, seed) = derive_seed_from_mnemonic KDF mnemonic passphrase
      in if \<not> ok then [] else seed)"


section \<open>Digits\<close>

lemma be_val_append: "be_val B (xs @ ys) = be_val B xs * B ^ length ys + be_val B ys"
  by (induction ys rule: rev_induct) (simp_all add: be_val_def algebra_simps)

lemma be_val_Cons: "be_val B (x # xs) = x * B ^ length xs + be_val B xs"
  using be_val_append [of B "[x]" xs] by (simp add: be_val_def)

lemma be_val_concat:
  assumes "\<forall>c\<in>set cs. length c = k"
  shows "be_val B (concat cs) = be_val (B ^ k) (map (be_val B) cs)"
  using assms
proof (induction cs)
  case (Cons c cs)
  have "length (concat cs) = k * length cs"
    using Cons.prems by (induction cs) auto
  then show ?case
    using Cons by (simp add: be_val_append be_val_Cons power_mult)
qed (simp add: be_val_def)

lemma be_val_bits: "be_val 2 (map (\<lambda>j. n div 2 ^ j mod 2) (rev [0..<k])) = n mod 2 ^ k"
proof (induction k)
  case (Suc k)
  then show ?case
    using mod_mult2_eq [of n "2 ^ k" 2] by (simp add: be_val_Cons ac_simps)
qed (simp add: be_val_def)

lemma be_val_ones: "be_val 2 (replicate n 1) + 1 = 2 ^ n"
proof (induction n)
  case (Suc n)
  then show ?case by (simp add: be_val_Cons)
qed (simp add: be_val_def)

lemma concat_replicates: "concat (replicate n (replicate m x)) = replicate (n * m) x"
  by (induction n) (simp_all add: replicate_add)

lemma be_val_less:
  assumes "\<forall>d\<in>set ds. d < B"
  shows "be_val B ds < B ^ length ds"
  using assms
proof (induction ds rule: rev_induct)
  case (snoc d ds)
  then have "be_val B ds + 1 \<le> B ^ length ds" "d < B" by auto
  then have "(be_val B ds + 1) * B \<le> B ^ length ds * B" by (intro mult_le_mono1)
  then show ?case using \<open>d < B\<close> by (simp add: be_val_append be_val_def algebra_simps)
qed (simp add: be_val_def)

lemma be_val_inject:
  assumes "length xs = length ys" "\<forall>d\<in>set xs \<union> set ys. d < B" "be_val B xs = be_val B ys"
  shows "xs = ys"
  using assms
proof (induction xs ys rule: list_induct2)
  case (Cons x xs y ys)
  have "be_val B xs < B ^ length ys" "be_val B ys < B ^ length ys"
    using Cons be_val_less [of xs B] be_val_less [of ys B] by auto
  moreover have "x * B ^ length ys + be_val B xs = y * B ^ length ys + be_val B ys"
    using Cons by (simp add: be_val_Cons)
  ultimately have "x = y"
    by (metis add.commute add_cancel_right_left div_less div_mult_self1 gr_implies_not0)
  then show ?case using Cons by (simp add: be_val_Cons)
qed simp

section \<open>Bits and words\<close>

lemma fold_push: "fold (\<lambda>x out. out @ [f x]) xs out = out @ map f xs"
  by (induction xs arbitrary: out) simp_all

definition byte_bits :: "byte \<Rightarrow> nat list" where
  "byte_bits b = map (\<lambda>j. unat b div 2 ^ j mod 2) (rev [0..<8])"

lemma unat_bit: "unat (drop_bit j (b :: byte) AND 1) = unat b div 2 ^ j mod 2"
proof -
  have "drop_bit j b AND 1 = take_bit 1 (drop_bit j b)"
    by (simp add: take_bit_eq_mask mask_eq_exp_minus_1)
  then show ?thesis by (simp add: take_bit_eq_mod unat_mod unat_drop_bit_div)
qed

lemma mnemonic_bits_eq:
  assumes "length e = 16"
  shows "mnemonic_bits e h = concat (map byte_bits e) @ take 4 (byte_bits (h ! 0))"
proof -
  have "fold (\<lambda>i bits. fold (\<lambda>j bits. bits @ [unat (drop_bit j (e ! i) AND 1)]) (rev [0..<8]) bits) is out
      = out @ concat (map (\<lambda>i. byte_bits (e ! i)) is)" for "is" :: "nat list" and out
    unfolding fold_push by (induction "is" arbitrary: out) (simp_all add: byte_bits_def unat_bit)
  moreover have "map (\<lambda>i. byte_bits (e ! i)) [0..<16] = map byte_bits e"
    using map_nth [of e] assms by (metis (no_types, lifting) map_map o_def map_cong)
  moreover have "map (\<lambda>i. unat (drop_bit (7 - i) (h ! 0) AND 1)) [0..<4] = take 4 (byte_bits (h ! 0))"
    by (simp add: byte_bits_def unat_bit upt_rec)
  ultimately show ?thesis by (simp add: mnemonic_bits_def fold_push Let_def)
qed

lemma byte_bits [simp]: "length (byte_bits b) = 8" "set (byte_bits b) \<subseteq> {0, 1}" "be_val 2 (byte_bits b) = unat b"
  using unat_byte_less [of b] be_val_bits [of "unat b" 8] by (auto simp: byte_bits_def)

lemma take_byte_bits: "be_val 2 (take 4 (byte_bits b)) = unat b div 16"
proof -
  have "be_val 2 (take 4 (byte_bits b)) * 16 + be_val 2 (drop 4 (byte_bits b)) = unat b"
    using be_val_append [of 2 "take 4 (byte_bits b)" "drop 4 (byte_bits b)"] by simp
  moreover have "be_val 2 (drop 4 (byte_bits b)) < 2 ^ length (drop 4 (byte_bits b))"
    using byte_bits(2) [of b] by (intro be_val_less) (auto dest!: in_set_dropD)
  ultimately show ?thesis by simp
qed

lemma mnemonic_bits_facts:
  assumes "length e = 16"
  shows "length (mnemonic_bits e h) = 132" "set (mnemonic_bits e h) \<subseteq> {0, 1}"
    "be_val 2 (mnemonic_bits e h) = be_val 256 (map unat e) * 16 + unat (h ! 0) div 16"
proof -
  have "length (concat (map byte_bits e)) = 8 * length e"
    by (induction e) simp_all
  then show "length (mnemonic_bits e h) = 132" using assms by (simp add: mnemonic_bits_eq)
  show "set (mnemonic_bits e h) \<subseteq> {0, 1}"
    using assms byte_bits(2) by (auto simp: mnemonic_bits_eq dest!: in_set_takeD)
  show "be_val 2 (mnemonic_bits e h) = be_val 256 (map unat e) * 16 + unat (h ! 0) div 16"
    using be_val_concat [of "map byte_bits e" 8 2] assms
    by (simp add: mnemonic_bits_eq be_val_append take_byte_bits o_def)
qed

lemma push_bit_or: "b < 2 \<Longrightarrow> n * 2 OR b = n * 2 + (b :: nat)"
  using or_one_eq [of "n * 2"] by (auto simp: less_2_cases_iff)

lemma word_index_eq:
  assumes "length bits = 132" "set bits \<subseteq> {0, 1}" "i < 12"
  shows "word_index bits i = be_val 2 (take 11 (drop (i * 11) bits))" "word_index bits i < 2048"
proof -
  have ds: "map (\<lambda>j. bits ! (i * 11 + j)) [0..<11] = take 11 (drop (i * 11) bits)"
    using assms by (intro nth_equalityI) auto
  have b: "\<forall>j<11. bits ! (i * 11 + j) < 2"
  proof (intro allI impI)
    fix j :: nat assume "j < 11"
    then have "bits ! (i * 11 + j) \<in> set bits" using assms by (intro nth_mem) simp
    then show "bits ! (i * 11 + j) < 2" using assms by auto
  qed
  have "fold (\<lambda>j idx. push_bit 1 idx OR bits ! (i * 11 + j)) [0..<n] 0
      = fold (\<lambda>j idx. idx * 2 + bits ! (i * 11 + j)) [0..<n] 0" if "n \<le> 11" for n
    using that b by (induction n) (simp_all add: push_bit_or)
  then have "word_index bits i = fold (\<lambda>j idx. idx * 2 + bits ! (i * 11 + j)) [0..<11] 0"
    unfolding word_index_def by blast
  also have "\<dots> = be_val 2 (map (\<lambda>j. bits ! (i * 11 + j)) [0..<11])"
    by (simp add: be_val_def fold_map o_def add.commute)
  finally show eq: "word_index bits i = be_val 2 (take 11 (drop (i * 11) bits))" unfolding ds .
  have "be_val 2 (take 11 (drop (i * 11) bits)) < 2 ^ length (take 11 (drop (i * 11) bits))"
    using assms(2) by (intro be_val_less) (auto dest!: in_set_takeD in_set_dropD)
  also have "\<dots> = 2048" using assms by simp
  finally show "word_index bits i < 2048" unfolding eq .
qed

lemma word_indices:
  assumes "length bits = 132" "set bits \<subseteq> {0, 1}"
  shows "be_val 2048 (map (word_index bits) [0..<12]) = be_val 2 bits"
proof -
  let ?cs = "map (\<lambda>i. take 11 (drop (i * 11) bits)) [0..<12]"
  have "concat (map (\<lambda>i. take 11 (drop (i * 11) bits)) [0..<n]) = take (n * 11) bits" for n
    by (induction n) (simp_all add: take_add add.commute [of 11])
  from this [of 12] have "concat ?cs = bits" using assms(1) by simp
  moreover have "map (word_index bits) [0..<12] = map (\<lambda>i. be_val 2 (take 11 (drop (i * 11) bits))) [0..<12]"
    by (rule map_cong [OF refl]) (rule word_index_eq(1) [OF assms], simp only: set_upt atLeastLessThan_iff)
  moreover have "be_val 2 (concat ?cs) = be_val (2 ^ 11) (map (be_val 2) ?cs)"
    by (rule be_val_concat) (use assms(1) in auto)
  moreover have "(2 ^ 11 :: nat) = 2048" by simp
  ultimately show ?thesis by (simp only: map_map o_def)
qed

definition mnemonic_indices :: "bytes \<Rightarrow> bytes \<Rightarrow> nat list" where
  "mnemonic_indices e h = map (word_index (mnemonic_bits e h)) [0..<12]"

text \<open>The phrase: the words of the indices with a space between two of them.\<close>

fun phrase :: "string list \<Rightarrow> string" where
  "phrase [] = []"
| "phrase [w] = w"
| "phrase (w # ws) = w @ '' '' @ phrase ws"

lemma phrase_snoc: "phrase (ws @ [w]) = (if ws = [] then w else phrase ws @ '' '' @ w)"
  by (induction ws rule: phrase.induct) auto

lemma put_words:
  assumes "\<forall>i<n. word_index bits i < BIP39_WORD_COUNT"
  shows "fold (put_word bits) [0..<n] (Some []) =
    (if \<exists>i<n. 2045 \<le> word_index bits i then None
     else Some (phrase (map (\<lambda>i. the (BIP39_WORDS ! word_index bits i)) [0..<n])))"
  using assms
proof (induction n)
  case (Suc n)
  have w: "word_index bits n < BIP39_WORD_COUNT" using Suc.prems by simp
  have IH: "fold (put_word bits) [0..<n] (Some []) =
    (if \<exists>i<n. 2045 \<le> word_index bits i then None
     else Some (phrase (map (\<lambda>i. the (BIP39_WORDS ! word_index bits i)) [0..<n])))"
    using Suc by simp
  show ?case
  proof (cases "\<exists>i<n. 2045 \<le> word_index bits i")
    case True
    then have "fold (put_word bits) [0..<n] (Some []) = None" using IH by simp
    moreover have "\<exists>i<Suc n. 2045 \<le> word_index bits i" using True less_SucI by blast
    ultimately show ?thesis by (simp add: put_word_def [of bits n])
  next
    case False
    then have ex: "(\<exists>i<Suc n. 2045 \<le> word_index bits i) \<longleftrightarrow> 2045 \<le> word_index bits n"
      by (auto simp: less_Suc_eq)
    have st: "fold (put_word bits) [0..<n] (Some [])
      = Some (phrase (map (\<lambda>i. the (BIP39_WORDS ! word_index bits i)) [0..<n]))"
      using IH False by simp
    show ?thesis
    proof (cases "BIP39_WORDS ! word_index bits n")
      case None
      then show ?thesis using BIP39_WORDS_null [OF w] st ex by (simp add: put_word_def [of bits n])
    next
      case (Some v)
      then have "\<not> 2045 \<le> word_index bits n" using BIP39_WORDS_null [OF w] by simp
      then show ?thesis using Some st ex by (simp add: put_word_def [of bits n] phrase_snoc)
    qed
  qed
qed simp

text \<open>
  The standard's reading of the same bits: the 128 bits of entropy and 4 bits of checksum are
  one number, and the twelve words are its digits in base 2048.
\<close>

definition digits_of :: "nat \<Rightarrow> nat \<Rightarrow> nat \<Rightarrow> nat list" where
  "digits_of B k n = map (\<lambda>i. n div B ^ (k - 1 - i) mod B) [0..<k]"

definition bip39_number :: "bytes \<Rightarrow> byte \<Rightarrow> nat" where
  "bip39_number e h0 = be_val 256 (map unat e) * 16 + unat h0 div 16"

lemma digits_of_Suc: "digits_of B (Suc k) n = digits_of B k (n div B) @ [n mod B]"
proof -
  have "B ^ (k - i) = B * B ^ (k - 1 - i)" if "i < k" for i
    using that by (simp add: Suc_diff_Suc flip: power_Suc)
  then show ?thesis by (simp add: digits_of_def div_mult2_eq)
qed

lemma digits_of_be_val:
  assumes "\<forall>d\<in>set ds. d < B"
  shows "digits_of B (length ds) (be_val B ds) = ds"
  using assms
proof (induction ds rule: rev_induct)
  case (snoc d ds)
  then show ?case by (simp add: digits_of_Suc be_val_append be_val_def [of B "[d]"])
qed (simp add: digits_of_def)

lemma mnemonic_indices_eq:
  assumes "length e = 16"
  shows "mnemonic_indices e h = digits_of 2048 12 (bip39_number e (h ! 0))"
    "set (mnemonic_indices e h) \<subseteq> {..<2048}"
    "be_val 2048 (mnemonic_indices e h) = bip39_number e (h ! 0)"
proof -
  note b = mnemonic_bits_facts [OF assms, of h]
  show d: "set (mnemonic_indices e h) \<subseteq> {..<2048}"
    using word_index_eq(2) [OF b(1,2)] unfolding mnemonic_indices_def set_map set_upt by auto
  show v: "be_val 2048 (mnemonic_indices e h) = bip39_number e (h ! 0)"
    unfolding mnemonic_indices_def word_indices [OF b(1,2)] b(3) bip39_number_def ..
  have "length (mnemonic_indices e h) = 12" by (simp add: mnemonic_indices_def)
  moreover have "\<forall>d\<in>set (mnemonic_indices e h). d < 2048" using d by auto
  ultimately show "mnemonic_indices e h = digits_of 2048 12 (bip39_number e (h ! 0))"
    using digits_of_be_val [of "mnemonic_indices e h" 2048] unfolding v by argo
qed

lemma bip39_number_inject:
  assumes "length e = 16" "length e' = 16" "bip39_number e a = bip39_number e' b"
  shows "e = e'"
proof -
  have "unat a div 16 < 16" "unat b div 16 < 16"
    using unat_byte_less [of a] unat_byte_less [of b] by (simp_all add: div_less_iff_less_mult del: unat_byte_less)
  then have "be_val 256 (map unat e) = be_val 256 (map unat e')"
    using assms(3) unfolding bip39_number_def by linarith
  then have "map unat e = map unat e'"
    using assms by (intro be_val_inject [of _ _ 256]) (auto simp: image_iff)
  then show ?thesis by (simp add: inj_map_eq_map [OF injI])
qed


section \<open>Properties\<close>



text \<open>
  The word table is short: it declares 2048 words and initialises 2045, so an index from
  2045 on reads a null pointer. Entropy whose bits are all ones has such an index whatever its
  hash, and the phrase generated from it is undefined.
\<close>

theorem word_table_short:
  assumes "RAND 16 = Some (replicate 16 0xff)"
  shows "length BIP39_WORDS = BIP39_WORD_COUNT
    \<and> (\<forall>i<BIP39_WORD_COUNT. BIP39_WORDS ! i = None \<longleftrightarrow> 2045 \<le> i)
    \<and> generateMnemonic12 SHA256 RAND = None"
proof (intro conjI allI impI)
  let ?e = "replicate 16 0xff :: bytes"
  let ?bits = "mnemonic_bits ?e (bytes_of (SHA256 ?e))"
  have "length ?e = 16" by simp
  note b = mnemonic_bits_facts [OF this, of "bytes_of (SHA256 ?e)"]
  have w: "\<forall>i<12. word_index ?bits i < BIP39_WORD_COUNT"
    using word_index_eq(2) [OF b(1,2)] by (simp add: BIP39_WORD_COUNT_def)
  have "byte_bits 0xff = replicate 8 1"
    by (rule replicate_eqI) (auto simp: byte_bits_def upt_rec)
  then have "take 11 ?bits = replicate 11 1"
    unfolding mnemonic_bits_eq [OF \<open>length ?e = 16\<close>] map_replicate by (simp only: concat_replicates) simp
  then have "word_index ?bits 0 = 2047"
    using word_index_eq(1) [OF b(1,2), of 0] be_val_ones [of 11] by simp
  then have "\<exists>i<12. 2045 \<le> word_index ?bits i" by (intro exI [of _ 0]) simp
  then have "fold (put_word ?bits) [0..<12] (Some []) = None" unfolding put_words [OF w] by simp
  then show "generateMnemonic12 SHA256 RAND = None"
    using assms by (simp only: generateMnemonic12_def shawncoin_secure_rand_def Let_def option.case if_False numeral_neq_zero)
qed (simp_all add: BIP39_WORDS_null)

theorem word_table_short_witness:
  "generateMnemonic12 const_sha (\<lambda>n. Some (replicate n 0xff)) = None"
  using word_table_short [of "\<lambda>n. Some (replicate n 0xff)" const_sha] by simp

end
