(* ===== verification/Keys.thy ===== *)
theory Keys
  imports Mnemonic Pow
begin

text \<open>
  \<^verbatim>\<open>src/crypto/keys.c\<close> and \<^verbatim>\<open>signatures.c\<close>: key pairs and signatures over the curve
  secp256k1, with two back ends chosen when the program is built: OpenSSL and libsecp256k1.
  What the libraries compute (big numbers, points, ECDSA) is a parameter, a record of
  functions with one field per library call. Memory allocation is taken to succeed, and the
  pointers the callers pass are not null; \<open>Resources\<close> is the same code without these assumptions. A result \<open>None\<close> is the code's null or 0.
\<close>

section \<open>The OpenSSL back end\<close>

record ('bn, 'pt) openssl =
  BN_bin2bn :: "bytes \<Rightarrow> 'bn"
  BN_num_bytes :: "'bn \<Rightarrow> nat"
  BN_bn2bin :: "'bn \<Rightarrow> bytes"
  EC_KEY_generate_key :: "('bn \<times> 'pt) option"
  EC_KEY_set_private_key :: "'bn \<Rightarrow> bool"
  EC_POINT_mul :: "'bn \<Rightarrow> 'pt option"
  EC_POINT_point2oct :: "'pt \<Rightarrow> bytes"
  EC_POINT_oct2point :: "bytes \<Rightarrow> 'pt option"
  ECDSA_do_sign :: "bytes \<Rightarrow> 'bn \<Rightarrow> ('bn \<times> 'bn) option"
  ECDSA_do_verify :: "bytes \<Rightarrow> 'bn \<times> 'bn \<Rightarrow> 'pt \<Rightarrow> bool"

record ('bn, 'pt) EC_KEY =
  ec_priv :: 'bn
  ec_pub :: 'pt

definition openssl_keypair_create :: "('bn, 'pt) openssl \<Rightarrow> ('bn, 'pt) EC_KEY option" where
  "openssl_keypair_create lib =
     (case EC_KEY_generate_key lib of
        None \<Rightarrow> None
      | Some (d, q) \<Rightarrow> Some \<lparr>ec_priv = d, ec_pub = q\<rparr>)"

definition openssl_keypair_from_priv :: "('bn, 'pt) openssl \<Rightarrow> bytes \<Rightarrow> ('bn, 'pt) EC_KEY option" where
  "openssl_keypair_from_priv lib priv32 =
     (let bn = BN_bin2bn lib priv32
      in if \<not> EC_KEY_set_private_key lib bn then None
         else case EC_POINT_mul lib bn of
           None \<Rightarrow> None
         | Some pub \<Rightarrow> Some \<lparr>ec_priv = bn, ec_pub = pub\<rparr>)"

definition openssl_pubkey_get :: "('bn, 'pt) openssl \<Rightarrow> ('bn, 'pt) EC_KEY \<Rightarrow> bytes option" where
  "openssl_pubkey_get lib key =
     (let out33 = EC_POINT_point2oct lib (ec_pub key)
      in if length out33 = 33 then Some out33 else None)"

definition openssl_privkey_get :: "('bn, 'pt) openssl \<Rightarrow> ('bn, 'pt) EC_KEY \<Rightarrow> bytes option" where
  "openssl_privkey_get lib key =
     (let bn = ec_priv key; n = BN_num_bytes lib bn
      in if 32 < n then None else Some (replicate (32 - n) 0 @ BN_bn2bin lib bn))"

definition openssl_sign :: "('bn, 'pt) openssl \<Rightarrow> ('bn, 'pt) EC_KEY \<Rightarrow> bytes \<Rightarrow> nat \<Rightarrow> bytes option" where
  "openssl_sign lib key hash32 sig_len =
     (if sig_len < 64 then None
      else case ECDSA_do_sign lib hash32 (ec_priv key) of
        None \<Rightarrow> None
      | Some (r, s) \<Rightarrow>
          (let r_len = BN_num_bytes lib r; s_len = BN_num_bytes lib s
           in if 32 < r_len \<or> 32 < s_len then None
              else
                let sig = replicate 64 0;
                    sig = memcpy_at sig (32 - r_len) (BN_bn2bin lib r);
                    sig = memcpy_at sig (32 + (32 - s_len)) (BN_bn2bin lib s)
                in Some sig))"

definition openssl_verify :: "('bn, 'pt) openssl \<Rightarrow> bytes \<Rightarrow> bytes \<Rightarrow> bytes \<Rightarrow> bool" where
  "openssl_verify lib pubkey33 hash32 sig =
     (case EC_POINT_oct2point lib pubkey33 of
        None \<Rightarrow> False
      | Some pub \<Rightarrow>
          if length sig \<noteq> 64 then False
          else
            let r = BN_bin2bn lib (take 32 sig); s = BN_bin2bn lib (take 32 (drop 32 sig))
            in ECDSA_do_verify lib hash32 (r, s) pub)"


section \<open>The libsecp256k1 back end\<close>

record ('pk, 'sig) libsecp256k1 =
  seckey_verify :: "bytes \<Rightarrow> bool"
  ec_pubkey_create :: "bytes \<Rightarrow> 'pk option"
  ec_pubkey_serialize :: "'pk \<Rightarrow> bytes option"
  ec_pubkey_parse :: "bytes \<Rightarrow> 'pk option"
  ecdsa_sign :: "bytes \<Rightarrow> bytes \<Rightarrow> 'sig option"
  signature_serialize_compact :: "'sig \<Rightarrow> bytes option"
  signature_parse_compact :: "bytes \<Rightarrow> 'sig option"
  ecdsa_verify :: "'sig \<Rightarrow> bytes \<Rightarrow> 'pk \<Rightarrow> bool"

text \<open>
  A key pair of this back end is its secret key. \<open>draws\<close> is the sequence of results of the
  random source; the loop stops at the first failure or the first valid key, and does not
  return (the outer \<open>None\<close>) when there is none.
\<close>

partial_function (option) draw_seckey ::
    "('pk, 'sig) libsecp256k1 \<Rightarrow> (nat \<Rightarrow> nat \<Rightarrow> bytes option) \<Rightarrow> nat \<Rightarrow> bytes option option" where
  "draw_seckey lib draws i =
     (case shawncoin_secure_rand (draws i) 32 of
        None \<Rightarrow> Some None
      | Some seckey \<Rightarrow>
          if seckey_verify lib seckey then Some (Some seckey) else draw_seckey lib draws (Suc i))"

definition secp_keypair_create ::
    "('pk, 'sig) libsecp256k1 \<Rightarrow> (nat \<Rightarrow> nat \<Rightarrow> bytes option) \<Rightarrow> bytes option option" where
  "secp_keypair_create lib draws = draw_seckey lib draws 0"

definition secp_keypair_from_priv :: "('pk, 'sig) libsecp256k1 \<Rightarrow> bytes \<Rightarrow> bytes option" where
  "secp_keypair_from_priv lib priv32 = (if \<not> seckey_verify lib priv32 then None else Some priv32)"

definition secp_pubkey_get :: "('pk, 'sig) libsecp256k1 \<Rightarrow> bytes \<Rightarrow> bytes option" where
  "secp_pubkey_get lib key =
     (case ec_pubkey_create lib key of None \<Rightarrow> None | Some pk \<Rightarrow> ec_pubkey_serialize lib pk)"

definition secp_privkey_get :: "('pk, 'sig) libsecp256k1 \<Rightarrow> bytes \<Rightarrow> bytes option" where
  "secp_privkey_get lib key = Some key"

definition secp_sign :: "('pk, 'sig) libsecp256k1 \<Rightarrow> bytes \<Rightarrow> bytes \<Rightarrow> nat \<Rightarrow> bytes option" where
  "secp_sign lib key hash32 sig_len =
     (if sig_len < 64 then None
      else case ecdsa_sign lib hash32 key of
        None \<Rightarrow> None
      | Some secp_sig \<Rightarrow> signature_serialize_compact lib secp_sig)"

definition secp_verify :: "('pk, 'sig) libsecp256k1 \<Rightarrow> bytes \<Rightarrow> bytes \<Rightarrow> bytes \<Rightarrow> bool" where
  "secp_verify lib pubkey33 hash32 sig =
     (case ec_pubkey_parse lib pubkey33 of
        None \<Rightarrow> False
      | Some pub \<Rightarrow>
          if length sig \<noteq> 64 then False
          else case signature_parse_compact lib sig of
            None \<Rightarrow> False
          | Some secp_sig \<Rightarrow> ecdsa_verify lib secp_sig hash32 pub)"


section \<open>The interface\<close>

text \<open>What the wallet uses of a back end.\<close>

record 'kp key_ops =
  keypair_from_priv :: "bytes \<Rightarrow> 'kp option"
  pubkey_get :: "'kp \<Rightarrow> bytes option"
  sign_hash :: "'kp \<Rightarrow> bytes \<Rightarrow> nat \<Rightarrow> bytes option"

definition openssl_ops :: "('bn, 'pt) openssl \<Rightarrow> ('bn, 'pt) EC_KEY key_ops" where
  "openssl_ops lib = \<lparr>keypair_from_priv = openssl_keypair_from_priv lib,
     pubkey_get = openssl_pubkey_get lib, sign_hash = openssl_sign lib\<rparr>"

definition secp_ops :: "('pk, 'sig) libsecp256k1 \<Rightarrow> bytes key_ops" where
  "secp_ops lib = \<lparr>keypair_from_priv = secp_keypair_from_priv lib,
     pubkey_get = secp_pubkey_get lib, sign_hash = secp_sign lib\<rparr>"


section \<open>What the libraries promise\<close>

text \<open>
  OpenSSL's documentation of big numbers: \<^verbatim>\<open>BN_bn2bin\<close> writes the big-endian bytes without
  leading zeros, \<^verbatim>\<open>BN_num_bytes\<close> of them, and \<^verbatim>\<open>BN_bin2bn\<close> reads big-endian bytes.
\<close>

definition bignums_ok :: "('bn, 'pt) openssl \<Rightarrow> bool" where
  "bignums_ok lib \<longleftrightarrow>
     (\<forall>v. length (BN_bn2bin lib v) = BN_num_bytes lib v)
     \<and> (\<forall>v k. BN_bin2bn lib (replicate k 0 @ BN_bn2bin lib v) = v)
     \<and> (\<forall>bs. BN_bn2bin lib (BN_bin2bn lib bs) = dropWhile (\<lambda>b. b = 0) bs)"

text \<open>Points are read back from their compressed form, and a signature verifies under the point of its key.\<close>

definition ecdsa_ok :: "('bn, 'pt) openssl \<Rightarrow> bool" where
  "ecdsa_ok lib \<longleftrightarrow>
     (\<forall>q. EC_POINT_oct2point lib (EC_POINT_point2oct lib q) = Some q)
     \<and> (\<forall>h d q rs. EC_POINT_mul lib d = Some q \<longrightarrow> ECDSA_do_sign lib h d = Some rs \<longrightarrow> ECDSA_do_verify lib h rs q)"

definition libsecp_ok :: "('pk, 'sig) libsecp256k1 \<Rightarrow> bool" where
  "libsecp_ok lib \<longleftrightarrow>
     (\<forall>q bs. ec_pubkey_serialize lib q = Some bs \<longrightarrow> ec_pubkey_parse lib bs = Some q)
     \<and> (\<forall>sg bs. signature_serialize_compact lib sg = Some bs \<longrightarrow> length bs = 64 \<and> signature_parse_compact lib bs = Some sg)
     \<and> (\<forall>h d q sg. ec_pubkey_create lib d = Some q \<longrightarrow> ecdsa_sign lib h d = Some sg \<longrightarrow> ecdsa_verify lib sg h q)"

lemma zero_prefix: "replicate (length bs - length (dropWhile (\<lambda>b. b = 0) bs)) 0 @ dropWhile (\<lambda>b. b = (0 :: byte)) bs = bs"
proof (induction bs)
  case (Cons b bs)
  have "length (dropWhile (\<lambda>b. b = 0) bs) \<le> length bs" by (rule length_dropWhile_le)
  then show ?case using Cons by (auto simp: Suc_diff_le)
qed simp

lemma openssl_sign_bytes:
  assumes "bignums_ok lib" "openssl_sign lib key h n = Some sig"
  obtains r s where "ECDSA_do_sign lib h (ec_priv key) = Some (r, s)" "length sig = 64"
    "BN_bin2bn lib (take 32 sig) = r" "BN_bin2bn lib (take 32 (drop 32 sig)) = s"
proof -
  obtain r s where rs: "ECDSA_do_sign lib h (ec_priv key) = Some (r, s)"
    "BN_num_bytes lib r \<le> 32" "BN_num_bytes lib s \<le> 32"
    "sig = memcpy_at (memcpy_at (replicate 64 0) (32 - BN_num_bytes lib r) (BN_bn2bin lib r))
             (32 + (32 - BN_num_bytes lib s)) (BN_bn2bin lib s)"
    using assms(2) by (auto simp: openssl_sign_def Let_def split: if_splits option.splits)
  have l: "length (BN_bn2bin lib v) = BN_num_bytes lib v" for v
    using assms(1) by (simp add: bignums_ok_def)
  have sig: "sig = (replicate (32 - BN_num_bytes lib r) 0 @ BN_bn2bin lib r)
      @ replicate (32 - BN_num_bytes lib s) 0 @ BN_bn2bin lib s"
    using rs(2,3) by (simp add: rs(4) memcpy_at_def l)
  have "length (replicate (32 - BN_num_bytes lib r) 0 @ BN_bn2bin lib r) = 32"
    "length (replicate (32 - BN_num_bytes lib s) 0 @ BN_bn2bin lib s) = 32"
    using rs(2,3) by (simp_all add: l)
  then show ?thesis
    using that [OF rs(1)] assms(1) unfolding sig by (simp add: bignums_ok_def)
qed

text \<open>What the loop returns was drawn, and was valid if it is a key.\<close>

lemma draw_seckey_returned:
  assumes "draw_seckey lib draws i = Some r"
  shows "\<exists>k\<ge>i. draws k 32 = r \<and> (case r of None \<Rightarrow> True | Some key \<Rightarrow> seckey_verify lib key)"
proof (rule draw_seckey.raw_induct [OF _ assms, where P = "\<lambda>lib draws i r.
    \<exists>k\<ge>i. draws k 32 = r \<and> (case r of None \<Rightarrow> True | Some key \<Rightarrow> seckey_verify lib key)"])
  fix draw :: "('a, 'b) libsecp256k1 \<Rightarrow> (nat \<Rightarrow> nat \<Rightarrow> bytes option) \<Rightarrow> nat \<Rightarrow> bytes option option"
    and lib :: "('a, 'b) libsecp256k1" and draws i r
  assume IH: "\<And>lib draws i r. draw lib draws i = Some r \<Longrightarrow>
      \<exists>k\<ge>i. draws k 32 = r \<and> (case r of None \<Rightarrow> True | Some key \<Rightarrow> seckey_verify lib key)"
    and step: "(case shawncoin_secure_rand (draws i) 32 of None \<Rightarrow> Some None
      | Some seckey \<Rightarrow> if seckey_verify lib seckey then Some (Some seckey) else draw lib draws (Suc i)) = Some r"
  show "\<exists>k\<ge>i. draws k 32 = r \<and> (case r of None \<Rightarrow> True | Some key \<Rightarrow> seckey_verify lib key)"
  proof (cases "draws i 32")
    case None
    then have "r = None" using step None by (simp add: shawncoin_secure_rand_def)
    then show ?thesis using None by (intro exI [of _ i]) simp
  next
    case (Some key)
    show ?thesis
    proof (cases "seckey_verify lib key")
      case True
      then have "r = Some key" using step Some by (simp add: shawncoin_secure_rand_def)
      then show ?thesis using Some True by (intro exI [of _ i]) simp
    next
      case False
      then have "draw lib draws (Suc i) = Some r"
        using step Some by (simp add: shawncoin_secure_rand_def)
      from IH [OF this] obtain k where "Suc i \<le> k \<and> draws k 32 = r \<and> (case r of None \<Rightarrow> True | Some key \<Rightarrow> seckey_verify lib key)"
        by (rule exE)
      then show ?thesis by (intro exI [of _ k]) simp
    qed
  qed
qed

lemma draw_seckey_returns:
  assumes "i \<le> k" "case draws k 32 of None \<Rightarrow> True | Some key \<Rightarrow> seckey_verify lib key"
  shows "\<exists>r. draw_seckey lib draws i = Some r"
  using assms(1)
proof (induction i rule: inc_induct)
  case base
  then show ?case
    using assms(2) by (subst draw_seckey.simps) (auto simp: shawncoin_secure_rand_def split: option.splits)
next
  case (step i)
  then show ?case
    by (subst draw_seckey.simps) (auto simp: shawncoin_secure_rand_def split: option.splits)
qed


text \<open>A signature of a loaded key pair has 64 bytes and verifies.\<close>

lemma openssl_signature_ok:
  assumes "bignums_ok lib" "ecdsa_ok lib"
    and "openssl_keypair_from_priv lib p = Some k" "openssl_pubkey_get lib k = Some pub" "openssl_sign lib k h n = Some sig"
  shows "length sig = 64" "openssl_verify lib pub h sig"
proof -
  obtain r s where rs: "ECDSA_do_sign lib h (ec_priv k) = Some (r, s)" "length sig = 64"
    "BN_bin2bn lib (take 32 sig) = r" "BN_bin2bn lib (take 32 (drop 32 sig)) = s"
    using openssl_sign_bytes [OF assms(1,5)] .
  show "length sig = 64" by (rule rs(2))
  have k: "EC_POINT_mul lib (ec_priv k) = Some (ec_pub k)"
    using assms(3) by (auto simp: openssl_keypair_from_priv_def Let_def split: if_splits option.splits)
  have "pub = EC_POINT_point2oct lib (ec_pub k)"
    using assms(4) by (simp add: openssl_pubkey_get_def Let_def split: if_splits)
  then show "openssl_verify lib pub h sig"
    using assms(2) rs k by (simp add: openssl_verify_def ecdsa_ok_def)
qed

section \<open>Instances of the libraries\<close>

text \<open>Numbers as natural numbers and points as compressed bytes: an instance with a toy signature.\<close>

definition be_strip :: "bytes \<Rightarrow> bytes" where
  "be_strip bs = dropWhile (\<lambda>b. b = 0) bs"

definition toy_openssl :: "(nat, bytes) openssl" where
  "toy_openssl = \<lparr>BN_bin2bn = \<lambda>bs. le_val (rev bs), BN_num_bytes = \<lambda>v. length (be_strip (rev (le_bytes v v))),
     BN_bn2bin = \<lambda>v. be_strip (rev (le_bytes v v)), EC_KEY_generate_key = None,
     EC_KEY_set_private_key = \<lambda>v. v \<noteq> 0, EC_POINT_mul = \<lambda>v. Some (replicate 32 7 @ [word_of_nat v]),
     EC_POINT_point2oct = \<lambda>q. q, EC_POINT_oct2point = \<lambda>bs. Some bs,
     ECDSA_do_sign = \<lambda>h d. Some (d mod 256, 1),
     ECDSA_do_verify = \<lambda>h rs q. rs = (unat (List.last q), 1)\<rparr>"

definition toy_secp :: "(bytes, bytes) libsecp256k1" where
  "toy_secp = \<lparr>seckey_verify = \<lambda>bs. bs \<noteq> replicate 32 0, ec_pubkey_create = \<lambda>d. Some (7 # d),
     ec_pubkey_serialize = \<lambda>q. Some q, ec_pubkey_parse = \<lambda>bs. Some bs,
     ecdsa_sign = \<lambda>h d. Some (take 64 (d @ replicate 64 0)), signature_serialize_compact = \<lambda>sg. if length sg = 64 then Some sg else None,
     signature_parse_compact = \<lambda>bs. Some bs, ecdsa_verify = \<lambda>sg h q. sg = take 64 (drop 1 q @ replicate 64 0)\<rparr>"

lemma be_strip_zeros: "be_strip (replicate n 0 @ bs) = be_strip bs"
  by (induction n) (simp_all add: be_strip_def)

lemma le_val_rev_strip: "le_val (rev (be_strip bs)) = le_val (rev bs)"
  by (induction bs) (simp_all add: be_strip_def le_val_append)

lemma be_strip_value:
  assumes "le_val (rev xs) = le_val (rev ys)"
  shows "be_strip xs = be_strip ys"
proof -
  let ?n = "length xs + length ys"
  have "replicate (length ys) 0 @ xs = replicate (length xs) 0 @ ys"
  proof -
    have "le_val (rev (replicate (length ys) 0 @ xs)) = le_val (rev (replicate (length xs) 0 @ ys))"
      using assms by (simp add: le_val_append)
    then have "rev (replicate (length ys) 0 @ xs) = rev (replicate (length xs) 0 @ ys)"
      by (subst (asm) le_val_inject) (simp_all only: length_rev length_append length_replicate add.commute)
    then show ?thesis by (simp only: rev_is_rev_conv)
  qed
  then show ?thesis by (metis be_strip_zeros)
qed

lemma toy_openssl_ok: "bignums_ok toy_openssl" "ecdsa_ok toy_openssl"
proof -
  have v: "le_val (le_bytes v v) = v" for v
    using less_le_trans [OF less_exp [of v] power_mono [of "2 :: nat" 256 v]] by (simp add: le_val_le_bytes)
  have "be_strip (rev (le_bytes (le_val (rev bs)) (le_val (rev bs)))) = be_strip bs" for bs
    by (rule be_strip_value) (simp add: v)
  then show "bignums_ok toy_openssl"
    by (simp add: bignums_ok_def toy_openssl_def le_val_append le_val_rev_strip v) (simp add: be_strip_def)
  show "ecdsa_ok toy_openssl"
    by (auto simp: ecdsa_ok_def toy_openssl_def unat_of_nat)
qed

lemma toy_secp_ok: "libsecp_ok toy_secp"
  by (auto simp: libsecp_ok_def toy_secp_def split: if_splits)


section \<open>Properties\<close>

text \<open>
  C30. Both back ends verify what they sign. Over libraries that keep their documented
  promises, a signature made with a key pair loaded from a private key has 64 bytes and is
  accepted for that key pair's public key and the same hash; and the private key is read
  back as it was loaded, leading zeros included.
\<close>

theorem signatures_verify:
  assumes "bignums_ok ol" "ecdsa_ok ol" "libsecp_ok sl"
    and "openssl_keypair_from_priv ol p = Some k" "openssl_pubkey_get ol k = Some pub" "openssl_sign ol k h n = Some sig"
    and "secp_keypair_from_priv sl p' = Some k'" "secp_pubkey_get sl k' = Some pub'" "secp_sign sl k' h' n' = Some sig'"
  shows "length sig = 64 \<and> openssl_verify ol pub h sig
    \<and> (length p = 32 \<longrightarrow> openssl_privkey_get ol k = Some p)
    \<and> length sig' = 64 \<and> secp_verify sl pub' h' sig' \<and> secp_privkey_get sl k' = Some p'"
proof (intro conjI impI)
  show "length sig = 64" "openssl_verify ol pub h sig"
    using openssl_signature_ok [OF assms(1,2,4,5,6)] by blast+
  have k: "ec_priv k = BN_bin2bn ol p"
    using assms(4) by (auto simp: openssl_keypair_from_priv_def Let_def split: if_splits option.splits)
  show "openssl_privkey_get ol k = Some p" if "length p = 32"
  proof -
    have "BN_bn2bin ol (ec_priv k) = dropWhile (\<lambda>b. b = 0) p"
      using assms(1) by (simp add: k bignums_ok_def)
    moreover have "BN_num_bytes ol (ec_priv k) = length (BN_bn2bin ol (ec_priv k))"
      using assms(1) by (simp add: bignums_ok_def)
    ultimately show ?thesis
      using length_dropWhile_le [of "\<lambda>b. b = 0" p] zero_prefix [of p] that
      by (simp add: openssl_privkey_get_def Let_def)
  qed
  show "length sig' = 64" "secp_verify sl pub' h' sig'"
    using assms(3,8,9) by (auto simp: secp_verify_def secp_pubkey_get_def secp_sign_def libsecp_ok_def
        split: if_splits option.splits)
  show "secp_privkey_get sl k' = Some p'"
    using assms(7) by (simp add: secp_privkey_get_def secp_keypair_from_priv_def split: if_splits)
qed

text \<open>
  Key generation with libsecp256k1 returns exactly when the random source fails at some
  draw or delivers a valid key at some draw; what it returns is that failure or a valid key it
  drew.
\<close>

theorem key_generation_returns:
  "((\<exists>r. secp_keypair_create lib draws = Some r) \<longleftrightarrow>
      (\<exists>k. case draws k 32 of None \<Rightarrow> True | Some key \<Rightarrow> seckey_verify lib key))
   \<and> (case secp_keypair_create lib draws of
        Some (Some key) \<Rightarrow> seckey_verify lib key \<and> (\<exists>k. draws k 32 = Some key)
      | Some None \<Rightarrow> (\<exists>k. draws k 32 = None)
      | None \<Rightarrow> True)"
proof (intro conjI iffI)
  show "\<exists>k. case draws k 32 of None \<Rightarrow> True | Some key \<Rightarrow> seckey_verify lib key"
    if returned: "\<exists>r. secp_keypair_create lib draws = Some r"
  proof -
    obtain r where "draw_seckey lib draws 0 = Some r" using returned by (auto simp: secp_keypair_create_def)
    then obtain k where k: "draws k 32 = r" "case r of None \<Rightarrow> True | Some key \<Rightarrow> seckey_verify lib key"
      using draw_seckey_returned [of lib draws 0] by auto
    then show ?thesis by (intro exI [of _ k]) simp
  qed
next
  assume "\<exists>k. case draws k 32 of None \<Rightarrow> True | Some key \<Rightarrow> seckey_verify lib key"
  then obtain k where "case draws k 32 of None \<Rightarrow> True | Some key \<Rightarrow> seckey_verify lib key" ..
  then show "\<exists>r. secp_keypair_create lib draws = Some r"
    unfolding secp_keypair_create_def by (rule draw_seckey_returns [OF le0])
next
  show "case secp_keypair_create lib draws of
      Some (Some key) \<Rightarrow> seckey_verify lib key \<and> (\<exists>k. draws k 32 = Some key)
    | Some None \<Rightarrow> (\<exists>k. draws k 32 = None) | None \<Rightarrow> True"
  proof (cases "draw_seckey lib draws 0")
    case (Some r)
    then obtain k where "draws k 32 = r" "case r of None \<Rightarrow> True | Some key \<Rightarrow> seckey_verify lib key"
      using draw_seckey_returned [of lib draws 0] by auto
    then show ?thesis using Some by (cases r) (auto simp: secp_keypair_create_def)
  qed (simp add: secp_keypair_create_def)
qed

theorem signatures_verify_witness:
  "\<exists>k pub sig. openssl_keypair_from_priv toy_openssl (replicate 31 0 @ [5]) = Some k
     \<and> openssl_sign toy_openssl k [] 128 = Some sig \<and> openssl_verify toy_openssl pub [] sig
     \<and> openssl_privkey_get toy_openssl k = Some (replicate 31 0 @ [5])"
proof -
  let ?p = "replicate 31 0 @ [5] :: bytes"
  let ?k = "\<lparr>ec_priv = 5, ec_pub = replicate 32 7 @ [5]\<rparr> :: (nat, bytes) EC_KEY"
  have k: "openssl_keypair_from_priv toy_openssl ?p = Some ?k"
    by (simp add: openssl_keypair_from_priv_def toy_openssl_def Let_def)
  have pub: "openssl_pubkey_get toy_openssl ?k = Some (replicate 32 7 @ [5])"
    by (simp add: openssl_pubkey_get_def toy_openssl_def)
  have "be_strip (rev (le_bytes 5 5)) = [5]" "be_strip (rev (le_bytes (Suc 0) (Suc 0))) = [1]"
    using be_strip_value [of "rev (le_bytes 5 5)" "[5]"] be_strip_value [of "rev (le_bytes (Suc 0) (Suc 0))" "[1]"]
    by (simp_all add: le_val_le_bytes) (simp_all add: be_strip_def)
  then have sig: "openssl_sign toy_openssl ?k [] 128
      = Some (memcpy_at (memcpy_at (replicate 64 0) 31 [5]) 63 [1])"
    by (simp add: openssl_sign_def toy_openssl_def Let_def)
  have s: "secp_keypair_from_priv toy_secp [5] = Some [5]" "secp_pubkey_get toy_secp [5] = Some [7, 5]"
    "secp_sign toy_secp [5] [] 64 = Some (5 # replicate 63 0)"
    by (simp_all add: secp_keypair_from_priv_def secp_pubkey_get_def secp_sign_def toy_secp_def list_eq_iff_nth_eq)
  have "length ?p = 32" by simp
  with k sig signatures_verify [OF toy_openssl_ok toy_secp_ok k pub sig s] show ?thesis by blast
qed

end
