(* ===== verification/Wallet.thy ===== *)
theory Wallet
  imports Keys Config ChainStore
begin

text \<open>
  \<^verbatim>\<open>src/wallet/hdwallet.cpp\<close> and \<^verbatim>\<open>wallet.cpp\<close>: keys derived from a seed, addresses, signing,
  balances, and the wallet file. What the wallet takes from OpenSSL, libsecp256k1 and the
  random source is the record \<open>crypto\<close>. The mutex makes each method one step. Files are the
  map of \<^verbatim>\<open>ChainStore\<close>: from paths to contents; \<open>can_write\<close> says which paths can be opened for
  writing.
\<close>

record 'kp crypto =
  SHA256 :: hasher
  RIPEMD160 :: "bytes \<Rightarrow> bytes"
  key_backend :: "'kp key_ops"
  KDF :: pbkdf2
  RAND :: "nat \<Rightarrow> bytes option"
  AES_encrypt :: "bytes \<Rightarrow> bytes \<Rightarrow> bytes \<Rightarrow> bytes option"
  AES_decrypt :: "bytes \<Rightarrow> bytes \<Rightarrow> bytes \<Rightarrow> bytes option"

text \<open>\<^verbatim>\<open>AES-256-CBC\<close> takes the key, the initialisation vector and the text; \<open>None\<close> is a failing call.\<close>

section \<open>Key derivation\<close>

record HDWallet =
  seed :: bytes

definition setSeed :: "bytes \<Rightarrow> HDWallet \<Rightarrow> bool \<times> HDWallet" where
  "setSeed s hd' = (if length s < 32 then (False, hd') else (True, hd'\<lparr>seed := s\<rparr>))"

definition derivePrivateKey :: "'kp crypto \<Rightarrow> HDWallet \<Rightarrow> u32 \<Rightarrow> bytes" where
  "derivePrivateKey env hd' index =
     (if length (seed hd') < 32 then []
      else
        let buf = take 32 (seed hd') @
              [ucast (drop_bit 0 index AND 0xff), ucast (drop_bit 8 index AND 0xff),
               ucast (drop_bit 16 index AND 0xff), ucast (drop_bit 24 index AND 0xff)]
        in bytes_of (shawncoin_sha256d (SHA256 env) buf))"

definition deriveAddress :: "'kp crypto \<Rightarrow> HDWallet \<Rightarrow> u32 \<Rightarrow> string" where
  "deriveAddress env hd' index =
     (let priv = derivePrivateKey env hd' index
      in if length priv \<noteq> 32 then []
         else case keypair_from_priv (key_backend env) priv of
           None \<Rightarrow> []
         | Some key \<Rightarrow>
             (case pubkey_get (key_backend env) key of
                None \<Rightarrow> []
              | Some pub \<Rightarrow>
                  pubKeyHashToAddress (SHA256 env) (shawncoin_hash160 (SHA256 env) (RIPEMD160 env) pub)))"


section \<open>The wallet\<close>

record Wallet =
  mnemonic :: string
  hd_wallet :: HDWallet
  wallet_keys :: "(string, bytes) std_map"

definition new_wallet :: Wallet where
  "new_wallet = \<lparr>mnemonic = [], hd_wallet = \<lparr>seed = []\<rparr>, wallet_keys = []\<rparr>"

text \<open>\<open>None\<close> where generating the phrase reads one of the missing words.\<close>

definition create :: "'kp crypto \<Rightarrow> string \<Rightarrow> Wallet \<Rightarrow> (bool \<times> Wallet) option" where
  "create env passphrase w =
     (case generateMnemonic12 (SHA256 env) (RAND env) of
        None \<Rightarrow> None
      | Some m \<Rightarrow>
          (let w = w\<lparr>mnemonic := m\<rparr>
           in if m = [] then Some (False, w)
              else
                let s = mnemonicToSeed (KDF env) m passphrase;
                    (ok, hd') = setSeed s (hd_wallet w)
                in Some (ok, w\<lparr>hd_wallet := hd'\<rparr>)))"

definition restore :: "'kp crypto \<Rightarrow> string \<Rightarrow> string \<Rightarrow> Wallet \<Rightarrow> bool \<times> Wallet" where
  "restore env m passphrase w =
     (let w = w\<lparr>mnemonic := m\<rparr>;
          s = mnemonicToSeed (KDF env) m passphrase;
          (ok, hd') = setSeed s (hd_wallet w)
      in (ok, w\<lparr>hd_wallet := hd'\<rparr>))"

definition generateNewAddress :: "'kp crypto \<Rightarrow> Wallet \<Rightarrow> string \<times> Wallet" where
  "generateNewAddress env w =
     (let index = word_of_nat (length (wallet_keys w));
          address = deriveAddress env (hd_wallet w) index
      in if address \<noteq> [] then
           (address, w\<lparr>wallet_keys := map_put address (addressToPubKeyHash (SHA256 env) address) (wallet_keys w)\<rparr>)
         else (address, w))"

definition getAddressCount :: "Wallet \<Rightarrow> nat" where
  "getAddressCount w = length (wallet_keys w)"

definition deriveAddressAt :: "'kp crypto \<Rightarrow> Wallet \<Rightarrow> u32 \<Rightarrow> string" where
  "deriveAddressAt env w index = deriveAddress env (hd_wallet w) index"

definition findPrivateKeyForAddress :: "'kp crypto \<Rightarrow> HDWallet \<Rightarrow> nat \<Rightarrow> string \<Rightarrow> bytes" where
  "findPrivateKeyForAddress env hd' maxIndex address =
     (case List.find (\<lambda>i. deriveAddress env hd' (word_of_nat i) = address) [0..<maxIndex] of
        Some i \<Rightarrow> derivePrivateKey env hd' (word_of_nat i)
      | None \<Rightarrow> [])"


section \<open>Signing\<close>

definition is_p2pkh :: "Script \<Rightarrow> bool" where
  "is_p2pkh s \<longleftrightarrow> length s = 25 \<and> s ! 0 = 0x76 \<and> s ! 1 = 0xa9 \<and> s ! 2 = 0x14 \<and> s ! 23 = 0x88 \<and> s ! 24 = 0xac"

definition script_hash160 :: "Script \<Rightarrow> bytes" where
  "script_hash160 s = take 20 (drop 3 s)"

text \<open>The hash the inputs sign: that of the transaction with empty signatures and keys.\<close>

definition signing_hash :: "'kp crypto \<Rightarrow> Transaction \<Rightarrow> bytes" where
  "signing_hash env tx =
     (let tmp = tx\<lparr>inputs := map (\<lambda>i. i\<lparr>signature := [], pubkey := []\<rparr>) (inputs tx)\<rparr>
      in bytes_of (shawncoin_sha256d (SHA256 env) (serializeTransaction tmp [])))"

definition find_address :: "'kp crypto \<Rightarrow> Wallet \<Rightarrow> bytes \<Rightarrow> string" where
  "find_address env w h160 =
     (case List.find (\<lambda>j. let h = addressToPubKeyHash (SHA256 env) (deriveAddress env (hd_wallet w) (word_of_nat j))
                          in length h = 20 \<and> h = h160) [0..<length (wallet_keys w)] of
        Some j \<Rightarrow> deriveAddress env (hd_wallet w) (word_of_nat j)
      | None \<Rightarrow> [])"

text \<open>One pass of the loop over the inputs: the signed input, or \<open>None\<close> for its early returns.\<close>

definition sign_input :: "'kp crypto \<Rightarrow> Wallet \<Rightarrow> UTXOSet \<Rightarrow> bytes \<Rightarrow> TxInput \<Rightarrow> TxInput option" where
  "sign_input env w u hash i =
     (case utxo_get u (OutPoint (prev_tx_hash i) (output_index i)) of
        None \<Rightarrow> None
      | Some e \<Rightarrow>
          (let script = entry_script e
           in if \<not> is_p2pkh script then None
              else
                let addrFound = find_address env w (script_hash160 script)
                in if addrFound = [] then None
                   else
                     let priv = findPrivateKeyForAddress env (hd_wallet w) (length (wallet_keys w)) addrFound
                     in if length priv \<noteq> 32 then None
                        else case keypair_from_priv (key_backend env) priv of
                          None \<Rightarrow> None
                        | Some kp \<Rightarrow>
                            (case sign_hash (key_backend env) kp hash 128 of
                               None \<Rightarrow> None
                             | Some sig \<Rightarrow>
                                 (case pubkey_get (key_backend env) kp of
                                    None \<Rightarrow> None
                                  | Some pub \<Rightarrow> Some (i\<lparr>signature := sig, pubkey := pub\<rparr>)))))"

fun sign_inputs :: "'kp crypto \<Rightarrow> Wallet \<Rightarrow> UTXOSet \<Rightarrow> bytes \<Rightarrow> TxInput list \<Rightarrow> bool \<times> TxInput list" where
  "sign_inputs env w u hash [] = (True, [])"
| "sign_inputs env w u hash (i # is) =
     (case sign_input env w u hash i of
        None \<Rightarrow> (False, i # is)
      | Some i' \<Rightarrow> (let (ok, is') = sign_inputs env w u hash is in (ok, i' # is')))"

definition signTransaction :: "'kp crypto \<Rightarrow> Wallet \<Rightarrow> UTXOSet option \<Rightarrow> Transaction \<Rightarrow> bool \<times> Transaction" where
  "signTransaction env w utxo tx =
     (case utxo of
        None \<Rightarrow> (False, tx)
      | Some u \<Rightarrow>
          (let (ok, is) = sign_inputs env w u (signing_hash env tx) (inputs tx)
           in (ok, tx\<lparr>inputs := is\<rparr>)))"


section \<open>Balances\<close>

definition hasHash160 :: "'kp crypto \<Rightarrow> Wallet \<Rightarrow> bytes \<Rightarrow> bool" where
  "hasHash160 env w h =
     (if list_ex (\<lambda>kp. snd kp = h) (wallet_keys w) then True
      else list_ex (\<lambda>i. addressToPubKeyHash (SHA256 env) (deriveAddress env (hd_wallet w) (word_of_nat i)) = h)
             [0..<length (wallet_keys w)])"

definition getBalance :: "Wallet \<Rightarrow> UTXOSet option \<Rightarrow> u64" where
  "getBalance w utxo =
     (case utxo of
        None \<Rightarrow> 0
      | Some u \<Rightarrow>
          fold (\<lambda>(op, e) sum.
              if is_p2pkh (entry_script e)
                 \<and> list_ex (\<lambda>kp. snd kp \<noteq> [] \<and> length (snd kp) = 20 \<and> snd kp = script_hash160 (entry_script e)) (wallet_keys w)
              then sum + entry_amount e else sum)
            (utxo_snapshot u) 0)"


section \<open>The wallet file\<close>

definition text_of :: "bytes \<Rightarrow> string" where
  "text_of bs = map (\<lambda>b. char_of (unat b)) bs"

definition backup :: "(string \<Rightarrow> bool) \<Rightarrow> string \<Rightarrow> Wallet \<Rightarrow> files \<Rightarrow> files" where
  "backup can_write path w fs =
     (if can_write path then fs(path \<mapsto> string_bytes (mnemonic w @ [CHR 0x0A])) else fs)"

definition encryptWithPass :: "'kp crypto \<Rightarrow> string \<Rightarrow> string \<Rightarrow> (string \<times> string \<times> string) option" where
  "encryptWithPass env pass plaintext =
     (case RAND env 16 of
        None \<Rightarrow> None
      | Some salt \<Rightarrow>
          (case KDF env (string_bytes pass) salt 10000 EVP_sha256 48 of
             None \<Rightarrow> None
           | Some keyiv \<Rightarrow>
               (let key = take 32 keyiv; iv = take 16 (drop 32 keyiv)
                in case AES_encrypt env key iv (string_bytes plaintext) of
                     None \<Rightarrow> None
                   | Some ct \<Rightarrow> Some (hexEncode salt, hexEncode iv, hexEncode ct))))"

definition decryptWithPass :: "'kp crypto \<Rightarrow> string \<Rightarrow> string \<Rightarrow> string \<Rightarrow> string \<Rightarrow> string option" where
  "decryptWithPass env pass salt_hex iv_hex ct_hex =
     (let salt = hexDecode salt_hex; iv = hexDecode iv_hex; ct = hexDecode ct_hex
      in if length salt \<noteq> 16 \<or> length iv \<noteq> 16 \<or> ct = [] then None
         else case KDF env (string_bytes pass) salt 10000 EVP_sha256 48 of
           None \<Rightarrow> None
         | Some keyiv \<Rightarrow>
             (let key = take 32 keyiv
              in case AES_decrypt env key iv ct of None \<Rightarrow> None | Some out \<Rightarrow> Some (text_of out)))"

definition saveToFile :: "'kp crypto \<Rightarrow> (string \<Rightarrow> bool) \<Rightarrow> string \<Rightarrow> string \<Rightarrow> Wallet \<Rightarrow> files \<Rightarrow> bool \<times> files" where
  "saveToFile env can_write path passphrase w fs =
     (case encryptWithPass env passphrase (mnemonic w) of
        None \<Rightarrow> (False, fs)
      | Some (salt, iv, ct) \<Rightarrow>
          if \<not> can_write path then (False, fs)
          else (True, fs(path \<mapsto> string_bytes
            (''salt:'' @ salt @ [CHR 0x0A] @ ''iv:'' @ iv @ [CHR 0x0A] @ ''ct:'' @ ct @ [CHR 0x0A]))))"

definition wallet_line :: "string \<Rightarrow> string \<times> string \<times> string \<Rightarrow> string \<times> string \<times> string" where
  "wallet_line line st =
     (let (salt, iv, ct) = st
      in if take 5 line = ''salt:'' then (drop 5 line, iv, ct)
         else if take 3 line = ''iv:'' then (salt, drop 3 line, ct)
         else if take 3 line = ''ct:'' then (salt, iv, drop 3 line)
         else (salt, iv, ct))"

definition loadFromFile :: "'kp crypto \<Rightarrow> string \<Rightarrow> string \<Rightarrow> files \<Rightarrow> Wallet \<Rightarrow> bool \<times> Wallet" where
  "loadFromFile env path passphrase fs w =
     (case fs path of
        None \<Rightarrow> (False, w)
      | Some contents \<Rightarrow>
          (let (salt, iv, ct) = fold wallet_line (get_lines (text_of contents)) ([], [], [])
           in if salt = [] \<or> iv = [] \<or> ct = [] then (False, w)
              else case decryptWithPass env passphrase salt iv ct of
                None \<Rightarrow> (False, w)
              | Some plain \<Rightarrow> restore env plain [] w))"


section \<open>Runs of a wallet\<close>

text \<open>
  The wallets a program over the hash functions \<open>sha\<close> and \<open>rmd\<close> and the key back end \<open>ops\<close> can
  hold, whatever the random source, the key derivation and the cipher return at each call.
\<close>

definition on_backend :: "hasher \<Rightarrow> (bytes \<Rightarrow> bytes) \<Rightarrow> 'kp key_ops \<Rightarrow> 'kp crypto \<Rightarrow> bool" where
  "on_backend sha rmd ops env \<longleftrightarrow> SHA256 env = sha \<and> RIPEMD160 env = rmd \<and> key_backend env = ops"

inductive wallet_run :: "hasher \<Rightarrow> (bytes \<Rightarrow> bytes) \<Rightarrow> 'kp key_ops \<Rightarrow> Wallet \<Rightarrow> bool" for sha rmd ops where
  fresh: "wallet_run sha rmd ops new_wallet"
| create: "wallet_run sha rmd ops w \<Longrightarrow> on_backend sha rmd ops env \<Longrightarrow> create env p w = Some (ok, w')
    \<Longrightarrow> wallet_run sha rmd ops w'"
| restore: "wallet_run sha rmd ops w \<Longrightarrow> on_backend sha rmd ops env \<Longrightarrow> wallet_run sha rmd ops (snd (restore env m p w))"
| address: "wallet_run sha rmd ops w \<Longrightarrow> on_backend sha rmd ops env
    \<Longrightarrow> wallet_run sha rmd ops (snd (generateNewAddress env w))"
| load: "wallet_run sha rmd ops w \<Longrightarrow> on_backend sha rmd ops env
    \<Longrightarrow> wallet_run sha rmd ops (snd (loadFromFile env path p fs w))"

lemma restore_keys [simp]: "wallet_keys (snd (restore env m p w)) = wallet_keys w"
  by (simp add: restore_def Let_def split: prod.split)

lemma create_keys: "create env p w = Some (ok, w') \<Longrightarrow> wallet_keys w' = wallet_keys w"
  by (auto simp: create_def Let_def split: option.splits if_splits prod.splits)

lemma load_keys [simp]: "wallet_keys (snd (loadFromFile env path p fs w)) = wallet_keys w"
  by (simp add: loadFromFile_def Let_def split: option.split prod.split)

lemma deriveAddress_cases:
  obtains "deriveAddress env hd' i = []"
  | kp pub where "length (derivePrivateKey env hd' i) = 32"
      "keypair_from_priv (key_backend env) (derivePrivateKey env hd' i) = Some kp"
      "pubkey_get (key_backend env) kp = Some pub"
      "deriveAddress env hd' i =
         pubKeyHashToAddress (SHA256 env) (shawncoin_hash160 (SHA256 env) (RIPEMD160 env) pub)"
proof (cases "deriveAddress env hd' i = []")
  case False
  then show ?thesis
    using that(2) by (auto simp: deriveAddress_def Let_def split: option.splits if_splits)
qed (rule that(1))

text \<open>The book-keeping of addresses: each stored hash is what decoding its address gives.\<close>

definition keys_ok :: "hasher \<Rightarrow> (bytes \<Rightarrow> bytes) \<Rightarrow> Wallet \<Rightarrow> bool" where
  "keys_ok sha rmd w \<longleftrightarrow> map_ok (wallet_keys w) \<and>
     (\<forall>a h. map_find (wallet_keys w) a = Some h \<longrightarrow>
        h = addressToPubKeyHash sha a \<and> (\<exists>pub. a = pubKeyHashToAddress sha (shawncoin_hash160 sha rmd pub)))"

lemma wallet_run_keys: "wallet_run sha rmd ops w \<Longrightarrow> keys_ok sha rmd w"
proof (induction rule: wallet_run.induct)
  case (address w env)
  let ?i = "word_of_nat (length (wallet_keys w)) :: u32"
  show ?case
  proof (cases rule: deriveAddress_cases [of env "hd_wallet w" ?i])
    case 1
    then show ?thesis using address.IH by (simp add: generateNewAddress_def)
  next
    case (2 kp pub)
    then show ?thesis
      using address by (auto simp: on_backend_def generateNewAddress_def keys_ok_def map_ok_put map_find_put Let_def)
  qed
qed (auto simp: keys_ok_def new_wallet_def dest: create_keys)


section \<open>Whom a balance counts\<close>

lemma p2pkh_hash: "is_p2pkh s \<Longrightarrow> length (script_hash160 s) = 20"
  by (simp add: is_p2pkh_def script_hash160_def)

lemma getBalance_sum:
  assumes "map_ok (wallet_keys w)"
  shows "getBalance w (Some u) =
    (\<Sum>(op, e) \<leftarrow> u. if is_p2pkh (entry_script e) \<and> script_hash160 (entry_script e) \<in> ran (map_find (wallet_keys w))
                    then entry_amount e else 0)"
proof -
  have own: "list_ex (\<lambda>kp. snd kp \<noteq> [] \<and> length (snd kp) = 20 \<and> snd kp = h) (wallet_keys w)
      \<longleftrightarrow> h \<in> ran (map_find (wallet_keys w))" if "length h = 20" for h
  proof -
    have "ran (map_find (wallet_keys w)) = snd ` set (wallet_keys w)"
      unfolding map_find_map_of by (rule ran_distinct [OF map_ok_distinct [OF assms]])
    moreover have "list_ex (\<lambda>kp. snd kp \<noteq> [] \<and> length (snd kp) = 20 \<and> snd kp = h) (wallet_keys w)
        \<longleftrightarrow> list_ex (\<lambda>kp. snd kp = h) (wallet_keys w)"
      using that by (intro list_ex_cong) auto
    ultimately show ?thesis by (simp add: list_ex_iff image_iff eq_commute)
  qed
  have "fold (\<lambda>(op, e) sum. if is_p2pkh (entry_script e)
        \<and> list_ex (\<lambda>kp. snd kp \<noteq> [] \<and> length (snd kp) = 20 \<and> snd kp = script_hash160 (entry_script e)) (wallet_keys w)
      then sum + entry_amount e else sum) u s
    = s + (\<Sum>(op, e) \<leftarrow> u. if is_p2pkh (entry_script e) \<and> script_hash160 (entry_script e) \<in> ran (map_find (wallet_keys w))
                    then entry_amount e else 0)" for s
    by (induction u arbitrary: s) (auto simp: own p2pkh_hash)
  then show ?thesis by (simp add: getBalance_def utxo_snapshot_def)
qed


section \<open>What signing does\<close>

lemma find_Some_upt:
  "List.find P [0..<n] = Some i \<Longrightarrow> i < n \<and> P i"
  by (auto simp: find_Some_iff)

lemma find_address_Some:
  assumes "find_address env w h \<noteq> []"
  obtains j where "j < length (wallet_keys w)" "find_address env w h = deriveAddress env (hd_wallet w) (word_of_nat j)"
    "addressToPubKeyHash (SHA256 env) (find_address env w h) = h"
proof -
  obtain j where j: "List.find (\<lambda>j. let h' = addressToPubKeyHash (SHA256 env) (deriveAddress env (hd_wallet w) (word_of_nat j))
      in length h' = 20 \<and> h' = h) [0..<length (wallet_keys w)] = Some j"
    using assms by (fastforce simp: find_address_def split: option.splits)
  from find_Some_upt [OF j] j that [of j] show ?thesis
    by (simp add: find_address_def Let_def)
qed

text \<open>What it takes for an input to be signed.\<close>

definition signed_for :: "'kp crypto \<Rightarrow> Wallet \<Rightarrow> UTXOSet \<Rightarrow> bytes \<Rightarrow> TxInput \<Rightarrow> TxInput \<Rightarrow> bool" where
  "signed_for env w u hash i i' \<longleftrightarrow>
     (\<exists>e j priv kp. utxo_get u (OutPoint (prev_tx_hash i) (output_index i)) = Some e \<and> is_p2pkh (entry_script e)
       \<and> i' = i\<lparr>signature := signature i', pubkey := pubkey i'\<rparr>
       \<and> j < length (wallet_keys w)
       \<and> deriveAddress env (hd_wallet w) (word_of_nat j)
           = pubKeyHashToAddress (SHA256 env) (shawncoin_hash160 (SHA256 env) (RIPEMD160 env) (pubkey i'))
       \<and> addressToPubKeyHash (SHA256 env) (deriveAddress env (hd_wallet w) (word_of_nat j)) = script_hash160 (entry_script e)
       \<and> keypair_from_priv (key_backend env) priv = Some kp
       \<and> pubkey_get (key_backend env) kp = Some (pubkey i') \<and> sign_hash (key_backend env) kp hash 128 = Some (signature i'))"

lemma sign_input_Some:
  assumes "sign_input env w u hash i = Some i'"
  shows "signed_for env w u hash i i'"
proof -
  obtain e where e: "utxo_get u (OutPoint (prev_tx_hash i) (output_index i)) = Some e" "is_p2pkh (entry_script e)"
    "find_address env w (script_hash160 (entry_script e)) \<noteq> []"
    using assms by (auto simp: sign_input_def Let_def split: option.splits if_splits)
  let ?a = "find_address env w (script_hash160 (entry_script e))"
  let ?priv = "findPrivateKeyForAddress env (hd_wallet w) (length (wallet_keys w)) ?a"
  obtain kp sg pub where k: "keypair_from_priv (key_backend env) ?priv = Some kp" "length ?priv = 32"
    "sign_hash (key_backend env) kp hash 128 = Some sg" "pubkey_get (key_backend env) kp = Some pub"
    "i' = i\<lparr>signature := sg, pubkey := pub\<rparr>"
    using assms e by (auto simp: sign_input_def Let_def split: option.splits if_splits)
  then obtain j where j: "List.find (\<lambda>i. deriveAddress env (hd_wallet w) (word_of_nat i) = ?a) [0..<length (wallet_keys w)] = Some j"
    "?priv = derivePrivateKey env (hd_wallet w) (word_of_nat j)"
    by (force simp: findPrivateKeyForAddress_def split: option.splits)
  note a = find_Some_upt [OF j(1)]
  have "deriveAddress env (hd_wallet w) (word_of_nat j)
      = pubKeyHashToAddress (SHA256 env) (shawncoin_hash160 (SHA256 env) (RIPEMD160 env) pub)"
    using k j(2) by (simp add: deriveAddress_def)
  moreover have "addressToPubKeyHash (SHA256 env) ?a = script_hash160 (entry_script e)"
    using find_address_Some [OF e(3)] by blast
  ultimately show ?thesis
    unfolding signed_for_def using e k a
    by (intro exI [of _ e] exI [of _ j] exI [of _ ?priv] exI [of _ kp]) simp
qed

lemma sign_inputs_True:
  "sign_inputs env w u hash is = (True, is') \<Longrightarrow> list_all2 (signed_for env w u hash) is is'"
  by (induction "is" arbitrary: is') (auto dest: sign_input_Some split: option.splits prod.splits)

lemma signing_hash_inputs:
  assumes "list_all2 (\<lambda>i i'. \<exists>s p. i' = i\<lparr>signature := s, pubkey := p\<rparr>) (inputs tx) is"
  shows "signing_hash env (tx\<lparr>inputs := is\<rparr>) = signing_hash env tx"
proof -
  have "map (\<lambda>i. i\<lparr>signature := [], pubkey := []\<rparr>) is = map (\<lambda>i. i\<lparr>signature := [], pubkey := []\<rparr>) (inputs tx)"
    using assms by (induction rule: list_all2_induct) auto
  then show ?thesis by (simp add: signing_hash_def)
qed


section \<open>Addresses that do not decode\<close>

text \<open>The addresses the wallet works with: those it stores and those it derives again.\<close>

definition wallet_addresses :: "'kp crypto \<Rightarrow> Wallet \<Rightarrow> string set" where
  "wallet_addresses env w = fst ` set (wallet_keys w)
     \<union> (\<lambda>i. deriveAddress env (hd_wallet w) (word_of_nat i)) ` {..<length (wallet_keys w)}"

lemma addressToPubKeyHash_Nil [simp]: "addressToPubKeyHash sha [] = []"
  by (simp add: addressToPubKeyHash_def decodeBase58Check_def decodeBase58_def)

lemma address_blind:
  assumes "\<And>h. length h = 20 \<Longrightarrow> pubKeyHashToAddress sha h \<in> A \<Longrightarrow> \<not> reads_back sha h"
    and "\<And>bs. length (rmd bs) = 20"
    and "a \<in> A" "a = pubKeyHashToAddress sha (shawncoin_hash160 sha rmd pub)"
  shows "addressToPubKeyHash sha a = []"
proof -
  have "length (shawncoin_hash160 sha rmd pub) = 20" using assms(2) by (simp add: shawncoin_hash160_def)
  then show ?thesis using assms by (simp add: address_decoded)
qed

lemma wallet_hashes_blind:
  assumes "keys_ok sha rmd w" "on_backend sha rmd ops env" "\<And>bs. length (rmd bs) = 20"
    and "\<And>h. length h = 20 \<Longrightarrow> pubKeyHashToAddress sha h \<in> wallet_addresses env w \<Longrightarrow> \<not> reads_back sha h"
  shows "(a, h) \<in> set (wallet_keys w) \<Longrightarrow> h = []"
    and "i < length (wallet_keys w) \<Longrightarrow> addressToPubKeyHash sha (deriveAddress env (hd_wallet w) (word_of_nat i)) = []"
proof -
  note env = assms(2) [unfolded on_backend_def]
  show "h = []" if "(a, h) \<in> set (wallet_keys w)"
  proof -
    have "map_find (wallet_keys w) a = Some h"
      using assms(1) that by (simp add: keys_ok_def in_map_iff)
    then have "h = addressToPubKeyHash sha a \<and> (\<exists>pub. a = pubKeyHashToAddress sha (shawncoin_hash160 sha rmd pub))"
      using assms(1) by (simp add: keys_ok_def)
    then obtain pub where "h = addressToPubKeyHash sha a" "a = pubKeyHashToAddress sha (shawncoin_hash160 sha rmd pub)"
      by (elim conjE exE)
    moreover have "a \<in> wallet_addresses env w"
      using that unfolding wallet_addresses_def by force
    ultimately show ?thesis
      using address_blind [where A = "wallet_addresses env w" and a = a and pub = pub, OF assms(4,3)] by simp
  qed
  show "addressToPubKeyHash sha (deriveAddress env (hd_wallet w) (word_of_nat i)) = []" if i: "i < length (wallet_keys w)"
  proof (cases rule: deriveAddress_cases [of env "hd_wallet w" "word_of_nat i"])
    case (2 kp pub)
    have "deriveAddress env (hd_wallet w) (word_of_nat i) \<in> wallet_addresses env w"
      using i by (auto simp: wallet_addresses_def)
    then show ?thesis
      using address_blind [where A = "wallet_addresses env w" and pub = pub, OF assms(4,3)] 2(4) env by simp
  qed simp
qed

lemma find_address_blind:
  assumes "\<And>i. i < length (wallet_keys w) \<Longrightarrow>
      addressToPubKeyHash (SHA256 env) (deriveAddress env (hd_wallet w) (word_of_nat i)) = []"
  shows "find_address env w h = []"
proof -
  have "List.find (\<lambda>j. let h' = addressToPubKeyHash (SHA256 env) (deriveAddress env (hd_wallet w) (word_of_nat j))
      in length h' = 20 \<and> h' = h) [0..<length (wallet_keys w)] = None"
    using assms by (auto simp: find_None_iff Let_def)
  then show ?thesis by (simp add: find_address_def)
qed


section \<open>The wallet file, read back\<close>

lemma text_of_string_bytes [simp]: "text_of (string_bytes s) = s"
proof -
  have "unat (of_char c :: byte) = of_char c" for c
  proof -
    have "unat (of_nat (of_char c) :: byte) = of_char c"
      using nat_of_char_less_256 [of c] by (simp add: unat_of_nat)
    then show ?thesis by (simp only: of_nat_of_char)
  qed
  then show ?thesis by (simp add: text_of_def string_bytes_def o_def)
qed

lemma hexEncode_chars: "set (hexEncode data) \<subseteq> set hex_digits"
proof -
  have "length hex_digits = 16" by (simp add: hex_digits_def)
  then show ?thesis
    using nibbles by (induction data) (auto simp: hexEncode_concat hex_of_byte_def intro!: nth_mem)
qed

lemma hexEncode_line: "CHR 0x0A \<notin> set (hexEncode data)"
  using hexEncode_chars [of data] by (auto simp: hex_digits_def)

lemma hexEncode_Nil [simp]: "hexEncode data = [] \<longleftrightarrow> data = []"
  by (metis length_0_conv length_hexEncode mult_eq_0_iff zero_neq_numeral)

lemma wallet_lines:
  "fold wallet_line (get_lines (''salt:'' @ hexEncode a @ [CHR 0x0A] @ ''iv:'' @ hexEncode b @ [CHR 0x0A]
      @ ''ct:'' @ hexEncode c @ [CHR 0x0A])) ([], [], []) = (hexEncode a, hexEncode b, hexEncode c)"
proof -
  have l: "CHR 0x0A \<notin> set (''salt:'' @ hexEncode a)" "CHR 0x0A \<notin> set (''iv:'' @ hexEncode b)"
    "CHR 0x0A \<notin> set (''ct:'' @ hexEncode c)"
    using hexEncode_line by simp_all
  have "get_lines (''salt:'' @ hexEncode a @ [CHR 0x0A] @ ''iv:'' @ hexEncode b @ [CHR 0x0A] @ ''ct:'' @ hexEncode c @ [CHR 0x0A])
      = [''salt:'' @ hexEncode a, ''iv:'' @ hexEncode b, ''ct:'' @ hexEncode c]"
    using get_lines_line [OF l(1)] get_lines_line [OF l(2)] get_lines_line [OF l(3), of "[]"] by simp
  then show ?thesis by (simp add: wallet_line_def)
qed

text \<open>The documented behaviour of the cipher, the key derivation and the random source.\<close>

definition crypto_ok :: "'kp crypto \<Rightarrow> bool" where
  "crypto_ok env \<longleftrightarrow>
     (\<forall>n bs. RAND env n = Some bs \<longrightarrow> length bs = n)
     \<and> (\<forall>p s i d n bs. KDF env p s i d n = Some bs \<longrightarrow> length bs = n)
     \<and> (\<forall>key iv p ct. AES_encrypt env key iv p = Some ct \<longrightarrow> ct \<noteq> [] \<and> AES_decrypt env key iv ct = Some p)"

lemma decrypt_encrypt:
  assumes "crypto_ok env" "encryptWithPass env pass plain = Some (salt, iv, ct)"
  shows "decryptWithPass env pass salt iv ct = Some plain"
    and "salt \<noteq> []" "iv \<noteq> []" "ct \<noteq> []" "\<exists>a b c. salt = hexEncode a \<and> iv = hexEncode b \<and> ct = hexEncode c"
proof -
  obtain a k c where e: "RAND env 16 = Some a" "KDF env (string_bytes pass) a 10000 EVP_sha256 48 = Some k"
    "AES_encrypt env (take 32 k) (take 16 (drop 32 k)) (string_bytes plain) = Some c"
    "salt = hexEncode a" "iv = hexEncode (take 16 (drop 32 k))" "ct = hexEncode c"
    using assms(2) by (auto simp: encryptWithPass_def Let_def split: option.splits)
  have l: "length a = 16" "length k = 48"
    using assms(1) e(1,2) unfolding crypto_ok_def by blast+
  have c: "c \<noteq> []" "AES_decrypt env (take 32 k) (take 16 (drop 32 k)) c = Some (string_bytes plain)"
    using assms(1) e(3) unfolding crypto_ok_def by blast+
  have d: "hexDecode (hexEncode d) = d" for d
    by (simp add: hexDecode_def hexEncode_concat hexDecode_loop_enc)
  show "decryptWithPass env pass salt iv ct = Some plain"
    using l c e(2) by (simp add: decryptWithPass_def e(4-6) d)
  show "salt \<noteq> []" "iv \<noteq> []" "ct \<noteq> []" using l c by (auto simp: e(4-6))
  show "\<exists>a b c. salt = hexEncode a \<and> iv = hexEncode b \<and> ct = hexEncode c"
    unfolding e(4-6) by blast
qed


text \<open>Loading what was saved restores the phrase.\<close>

lemma load_saved_wallet:
  assumes "crypto_ok env" "saveToFile env can_write path pass w fs = (True, fs')"
  shows "loadFromFile env path pass fs' w' = restore env (mnemonic w) [] w'"
proof -
  obtain salt iv ct where e: "encryptWithPass env pass (mnemonic w) = Some (salt, iv, ct)"
    "fs' path = Some (string_bytes (''salt:'' @ salt @ [CHR 0x0A] @ ''iv:'' @ iv @ [CHR 0x0A] @ ''ct:'' @ ct @ [CHR 0x0A]))"
    using assms(2) by (auto simp: saveToFile_def split: option.splits if_splits)
  note d = decrypt_encrypt [OF assms(1) e(1)]
  obtain a b c where h: "salt = hexEncode a" "iv = hexEncode b" "ct = hexEncode c" using d(5) by blast
  show ?thesis
    unfolding loadFromFile_def e(2) option.case text_of_string_bytes h wallet_lines Let_def
    using d by (simp flip: h)
qed


section \<open>A concrete wallet\<close>

text \<open>Hashes of one constant value each, toy keys and a toy cipher.\<close>

definition toy_env :: "hasher \<Rightarrow> (nat, bytes) EC_KEY crypto" where
  "toy_env sha = \<lparr>SHA256 = sha, RIPEMD160 = \<lambda>_. replicate 20 0, key_backend = openssl_ops toy_openssl,
     KDF = \<lambda>p s i d n. Some (replicate n 1), RAND = \<lambda>n. Some (replicate n 0),
     AES_encrypt = \<lambda>key iv p. Some (0 # p), AES_decrypt = \<lambda>key iv ct. Some (drop 1 ct)\<rparr>"

definition nine_sha :: hasher where
  "nine_sha bs = mk_uint256 (replicate 32 9)"

definition lucky_sha :: hasher where
  "lucky_sha bs = mk_uint256 ([0, 0, 0, ADDRESS_VERSION] @ replicate 28 0)"

definition toy_wallet :: "hasher \<Rightarrow> Wallet" where
  "toy_wallet sha = snd (generateNewAddress (toy_env sha) (snd (restore (toy_env sha) ''abandon'' [] new_wallet)))"

definition toy_utxo :: UTXOSet where
  "toy_utxo = [(OutPoint uint256_zero 0, \<lparr>entry_amount = 5,
     entry_script = [0x76, 0xa9, 0x14] @ replicate 20 0 @ [0x88, 0xac]\<rparr>)]"

definition toy_input :: TxInput where
  "toy_input = \<lparr>prev_tx_hash = uint256_zero, output_index = 0, signature = [], pubkey = []\<rparr>"

definition toy_tx :: Transaction where
  "toy_tx = \<lparr>tx_version = 1, inputs = [toy_input],
     outputs = [\<lparr>amount = 5, script_pubkey = []\<rparr>], lock_time = 0, cached_txid = None\<rparr>"

lemma toy_backend: "on_backend sha (\<lambda>_. replicate 20 0) (openssl_ops toy_openssl) (toy_env sha)"
  by (simp add: on_backend_def toy_env_def)

lemma toy_run: "wallet_run sha (\<lambda>_. replicate 20 0) (openssl_ops toy_openssl) (toy_wallet sha)"
  unfolding toy_wallet_def
  by (rule wallet_run.address [OF wallet_run.restore [OF wallet_run.fresh toy_backend] toy_backend])

lemma toy_crypto_ok: "crypto_ok (toy_env sha)"
  by (simp add: crypto_ok_def toy_env_def)

lemma toy_restored: "restore (toy_env sha) m p w = (True, w\<lparr>mnemonic := m, hd_wallet := \<lparr>seed = replicate 64 1\<rparr>\<rparr>)"
  by (cases "hd_wallet w")
    (simp add: restore_def toy_env_def mnemonicToSeed_def derive_seed_from_mnemonic_def setSeed_def)

lemma toy_priv:
  assumes "sha = nine_sha \<or> sha = lucky_sha"
  shows "\<exists>kp pub. keypair_from_priv (openssl_ops toy_openssl) (bytes_of (sha bs)) = Some kp
    \<and> pubkey_get (openssl_ops toy_openssl) kp = Some pub"
proof -
  have "0 < le_val (rev (bytes_of (sha bs)))"
  proof (rule ccontr)
    assume "\<not> ?thesis"
    then have "le_val (rev (bytes_of (sha bs))) = le_val (replicate 32 0)" by simp
    then have "rev (bytes_of (sha bs)) = replicate 32 0"
      by (subst (asm) le_val_inject) simp_all
    then have "rev (bytes_of (sha bs)) ! 28 = 0" by simp
    then show False
      using assms by (auto simp: rev_nth nine_sha_def lucky_sha_def ADDRESS_VERSION_def)
  qed
  then show ?thesis
    by (simp add: openssl_ops_def openssl_keypair_from_priv_def openssl_pubkey_get_def toy_openssl_def Let_def)
qed

lemma toy_address:
  assumes "sha = nine_sha \<or> sha = lucky_sha" "seed hd' = replicate 64 1"
  shows "derivePrivateKey (toy_env sha) hd' i = bytes_of (sha [])"
    "deriveAddress (toy_env sha) hd' i = pubKeyHashToAddress sha (replicate 20 0)"
proof -
  have c: "sha bs = sha []" for bs using assms by (auto simp: nine_sha_def lucky_sha_def)
  show d: "derivePrivateKey (toy_env sha) hd' i = bytes_of (sha [])"
    unfolding derivePrivateKey_def Let_def shawncoin_sha256d_def
    using assms(2) by (simp add: toy_env_def) (rule arg_cong [OF c])
  obtain kp pub where "keypair_from_priv (openssl_ops toy_openssl) (bytes_of (sha [])) = Some kp"
    "pubkey_get (openssl_ops toy_openssl) kp = Some pub"
    using toy_priv [OF assms(1)] by blast
  then show "deriveAddress (toy_env sha) hd' i = pubKeyHashToAddress sha (replicate 20 0)"
    unfolding deriveAddress_def d by (simp add: toy_env_def shawncoin_hash160_def)
qed

lemma lucky_address:
  "addressToPubKeyHash lucky_sha (pubKeyHashToAddress lucky_sha (replicate 20 0)) = replicate 20 0"
proof -
  have "take 4 (bytes_of (shawncoin_sha256d lucky_sha bs)) = [0, 0, 0, ADDRESS_VERSION]" for bs
    by (simp add: shawncoin_sha256d_def lucky_sha_def)
  moreover have "take 3 (bytes_of (shawncoin_sha256d lucky_sha bs)) = [0, 0, 0]" for bs
    by (simp add: shawncoin_sha256d_def lucky_sha_def)
  moreover have "rev (drop 3 (replicate 20 0) @ [0, 0, 0]) = (replicate 20 0 :: bytes)"
    by (simp add: list_eq_iff_nth_eq nth_append nth_Cons split: nat.split)
  ultimately show ?thesis
    using address_decoded [of "replicate 20 0" lucky_sha] by (simp add: reads_back_def Let_def)
qed

lemma lucky_nonempty: "pubKeyHashToAddress lucky_sha (replicate 20 0) \<noteq> []"
  using lucky_address by (metis addressToPubKeyHash_Nil length_0_conv length_replicate zero_neq_numeral)

lemma lucky_keys:
  "wallet_keys (toy_wallet lucky_sha) = [(pubKeyHashToAddress lucky_sha (replicate 20 0), replicate 20 0)]"
  "hd_wallet (toy_wallet lucky_sha) = \<lparr>seed = replicate 64 1\<rparr>" "mnemonic (toy_wallet lucky_sha) = ''abandon''"
  using lucky_nonempty lucky_address toy_address(2) [of lucky_sha "\<lparr>seed = replicate 64 1\<rparr>"]
  by (simp_all add: toy_wallet_def toy_restored generateNewAddress_def Let_def new_wallet_def)
    (simp_all add: toy_env_def)

lemma toy_script:
  "is_p2pkh ([0x76, 0xa9, 0x14] @ replicate 20 0 @ [0x88, 0xac])"
  "script_hash160 ([0x76, 0xa9, 0x14] @ replicate 20 0 @ [0x88, 0xac]) = replicate 20 0"
  by (simp_all add: is_p2pkh_def script_hash160_def nth_append)

lemma toy_sign: "\<exists>sig. sign_hash (openssl_ops toy_openssl) kp h 128 = Some sig"
proof -
  have "length (be_strip (rev (le_bytes v v))) \<le> 1" if "v < 256" for v
  proof -
    have "256 ^ v > v" using less_exp [of v] power_mono [of "2 :: nat" 256 v] by linarith
    then have "be_strip (rev (le_bytes v v)) = be_strip [word_of_nat v]"
      using that by (intro be_strip_value) (simp add: le_val_le_bytes unat_of_nat)
    then show ?thesis by (simp add: be_strip_def)
  qed
  from this [of "ec_priv kp mod 256"] this [of 1] show ?thesis
    by (simp add: openssl_ops_def openssl_sign_def toy_openssl_def Let_def)
qed

lemma lucky_derives:
  "deriveAddress (toy_env lucky_sha) (hd_wallet (toy_wallet lucky_sha)) i = pubKeyHashToAddress lucky_sha (replicate 20 0)"
  "derivePrivateKey (toy_env lucky_sha) (hd_wallet (toy_wallet lucky_sha)) i = bytes_of (lucky_sha [])"
  using toy_address [of lucky_sha "hd_wallet (toy_wallet lucky_sha)" i] lucky_keys(2) by simp_all

lemma toy_signs:
  assumes "inputs tx = [toy_input]"
  shows "\<exists>sg pub. signTransaction (toy_env lucky_sha) (toy_wallet lucky_sha) (Some toy_utxo) tx
    = (True, tx\<lparr>inputs := [toy_input\<lparr>signature := sg, pubkey := pub\<rparr>]\<rparr>)"
proof -
  let ?env = "toy_env lucky_sha" and ?w = "toy_wallet lucky_sha"
  let ?h = "signing_hash ?env tx"
  have b: "SHA256 ?env = lucky_sha" "key_backend ?env = openssl_ops toy_openssl" by (simp_all add: toy_env_def)
  obtain kp pub where kp: "keypair_from_priv (openssl_ops toy_openssl) (bytes_of (lucky_sha [])) = Some kp"
    "pubkey_get (openssl_ops toy_openssl) kp = Some pub"
    using toy_priv [of lucky_sha "[]"] by blast
  obtain sg where sg: "sign_hash (openssl_ops toy_openssl) kp ?h 128 = Some sg" using toy_sign by blast
  have f: "find_address ?env ?w (replicate 20 0) = pubKeyHashToAddress lucky_sha (replicate 20 0)"
    by (simp add: find_address_def lucky_keys(1) lucky_derives b lucky_address Let_def)
  have p: "findPrivateKeyForAddress ?env (hd_wallet ?w) (length (wallet_keys ?w))
      (pubKeyHashToAddress lucky_sha (replicate 20 0)) = bytes_of (lucky_sha [])"
    by (simp add: findPrivateKeyForAddress_def lucky_keys(1) lucky_derives)
  have "sign_input ?env ?w toy_utxo ?h toy_input = Some (toy_input\<lparr>signature := sg, pubkey := pub\<rparr>)"
    unfolding sign_input_def utxo_get_def toy_utxo_def
    using toy_script kp sg f p b lucky_nonempty by (simp add: toy_input_def Let_def)
  then show ?thesis using assms by (auto simp: signTransaction_def)
qed


section \<open>Properties\<close>

text \<open>
  The balance is exact for what the wallet knows: in every state a wallet reaches, it is
  the 64-bit sum of the unspent outputs that pay, by a standard script, to the decoded hash
  of an address the wallet has handed out, each counted once; without a UTXO set it is 0.
\<close>

theorem balance_exact:
  assumes "wallet_run sha rmd ops w"
  shows "getBalance w (Some u) =
      (\<Sum>(op, e) \<leftarrow> u. if is_p2pkh (entry_script e)
          \<and> (\<exists>a. map_find (wallet_keys w) a \<noteq> None \<and> addressToPubKeyHash sha a = script_hash160 (entry_script e))
        then entry_amount e else 0)
    \<and> getBalance w None = 0"
proof -
  have k: "keys_ok sha rmd w" using assms by (rule wallet_run_keys)
  have "h \<in> ran (map_find (wallet_keys w)) \<longleftrightarrow> (\<exists>a. map_find (wallet_keys w) a \<noteq> None \<and> addressToPubKeyHash sha a = h)" for h
    using k by (auto simp: ran_def keys_ok_def)
  then show ?thesis
    using k getBalance_sum [of w u] by (simp add: keys_ok_def) (simp add: getBalance_def)
qed

theorem balance_exact_witness: "getBalance (toy_wallet lucky_sha) (Some toy_utxo) = 5"
  using balance_exact [OF toy_run [of lucky_sha], of toy_utxo] lucky_keys(1) lucky_address toy_script
  by (simp add: toy_utxo_def)

text \<open>
  C33. In practice the wallet is blind. Unless one of its addresses happens to pass the two
  checksum coincidences that decoding an address needs, it reports the balance 0 whatever the
  UTXO set holds, it owns no public key hash, and it cannot sign: every transaction with an
  input comes back unsigned and unchanged.
\<close>

theorem wallet_blind:
  assumes "wallet_run sha rmd ops w" "on_backend sha rmd ops env" "\<And>bs. length (rmd bs) = 20"
    and "\<And>h. length h = 20 \<Longrightarrow> pubKeyHashToAddress sha h \<in> wallet_addresses env w \<Longrightarrow> \<not> reads_back sha h"
    and "inputs tx \<noteq> []" "length h = 20"
  shows "getBalance w utxo = 0 \<and> signTransaction env w utxo tx = (False, tx) \<and> \<not> hasHash160 env w h"
proof (intro conjI)
  have k: "keys_ok sha rmd w" using assms(1) by (rule wallet_run_keys)
  note blind = wallet_hashes_blind [OF k assms(2,3,4)]
  have env: "SHA256 env = sha" using assms(2) by (simp add: on_backend_def)
  have "h' \<in> ran (map_find (wallet_keys w)) \<Longrightarrow> h' = []" for h'
    using k blind(1) by (auto simp: ran_def keys_ok_def simp flip: in_map_iff)
  then have n: "(is_p2pkh s \<and> script_hash160 s \<in> ran (map_find (wallet_keys w))) = False" for s
    using p2pkh_hash [of s] by force
  have "(\<Sum>(op, e) \<leftarrow> u. if is_p2pkh (entry_script e)
      \<and> script_hash160 (entry_script e) \<in> ran (map_find (wallet_keys w)) then entry_amount e else 0) = 0" for u :: UTXOSet
    unfolding n by (induction u) auto
  then have "getBalance w (Some u) = 0" for u
    using k getBalance_sum [of w u] by (simp add: keys_ok_def)
  then show "getBalance w utxo = 0" by (cases utxo) (simp_all add: getBalance_def)
  have "sign_input env w u hash i = None" for u hash i
    using find_address_blind [of w env] blind(2) env
    by (simp add: sign_input_def Let_def split: option.split)
  then show "signTransaction env w utxo tx = (False, tx)"
    using assms(5) by (cases "inputs tx") (auto simp: signTransaction_def split: option.split)
  show "\<not> hasHash160 env w h"
  proof -
    have "h \<noteq> []" using assms(6) by auto
    then have "(a, h) \<notin> set (wallet_keys w)" for a using blind(1) by metis
    then show ?thesis
      using blind(2) env \<open>h \<noteq> []\<close> by (auto simp: hasHash160_def list_ex_iff)
  qed
qed

theorem wallet_blind_witness:
  "getBalance (toy_wallet nine_sha) (Some toy_utxo) = 0
   \<and> signTransaction (toy_env nine_sha) (toy_wallet nine_sha) (Some toy_utxo) toy_tx = (False, toy_tx)"
proof -
  have "\<not> reads_back nine_sha h" for h
    by (simp add: reads_back_def shawncoin_sha256d_def nine_sha_def ADDRESS_VERSION_def)
  then show ?thesis
    using wallet_blind [OF toy_run [of nine_sha] toy_backend, of toy_tx "replicate 20 0" "Some toy_utxo"]
    by (simp add: toy_tx_def)
qed



text \<open>
  C34. The wallet file round-trips to the phrase and to nothing else: loading a saved file with
  the same passphrase restores the saved phrase into the wallet at hand, under the empty
  phrase passphrase, and leaves that wallet's address table as it is. A wallet created with
  a passphrase of its own gets the seed of the empty one when it is loaded.
\<close>

theorem wallet_file_roundtrip:
  assumes "crypto_ok env" "saveToFile env can_write path pass w fs = (True, fs')"
  shows "loadFromFile env path pass fs' w' = restore env (mnemonic w) [] w'
    \<and> wallet_keys (snd (loadFromFile env path pass fs' w')) = wallet_keys w'
    \<and> (fst (loadFromFile env path pass fs' w') \<longrightarrow>
        mnemonic (snd (loadFromFile env path pass fs' w')) = mnemonic w
        \<and> seed (hd_wallet (snd (loadFromFile env path pass fs' w'))) = mnemonicToSeed (KDF env) (mnemonic w) [])
    \<and> (create env p w0 = Some (True, w) \<longrightarrow> seed (hd_wallet w) = mnemonicToSeed (KDF env) (mnemonic w) p)"
proof -
  have l: "loadFromFile env path pass fs' w' = restore env (mnemonic w) [] w'"
    using assms by (rule load_saved_wallet)
  show ?thesis
    unfolding l by (auto simp: restore_def create_def setSeed_def Let_def split: option.splits if_splits)
qed

theorem wallet_file_roundtrip_witness:
  "loadFromFile (toy_env lucky_sha) ''wallet.dat'' ''pass''
     (snd (saveToFile (toy_env lucky_sha) (\<lambda>_. True) ''wallet.dat'' ''pass'' (toy_wallet lucky_sha) (\<lambda>_. None))) new_wallet
   = (True, new_wallet\<lparr>mnemonic := ''abandon'', hd_wallet := \<lparr>seed = replicate 64 1\<rparr>\<rparr>)"
proof -
  have "fst (saveToFile (toy_env lucky_sha) (\<lambda>_. True) ''wallet.dat'' ''pass'' (toy_wallet lucky_sha) (\<lambda>_. None))"
    by (simp add: saveToFile_def encryptWithPass_def) (simp add: toy_env_def)
  then have "saveToFile (toy_env lucky_sha) (\<lambda>_. True) ''wallet.dat'' ''pass'' (toy_wallet lucky_sha) (\<lambda>_. None)
    = (True, snd (saveToFile (toy_env lucky_sha) (\<lambda>_. True) ''wallet.dat'' ''pass'' (toy_wallet lucky_sha) (\<lambda>_. None)))"
    by (metis prod.collapse)
  from wallet_file_roundtrip [OF toy_crypto_ok this, of new_wallet] show ?thesis
    by (simp add: toy_restored lucky_keys)
qed

text \<open>
  What a new address is, on every branch: the address of the index that equals the number
  of stored addresses. If that address cannot be derived or is already stored nothing changes,
  so the same answer comes back on every further call; otherwise the table gains exactly that
  address, with its decoded hash.
\<close>

theorem new_address:
  assumes "wallet_run sha rmd ops w" "on_backend sha rmd ops env"
  shows "let a = deriveAddress env (hd_wallet w) (word_of_nat (length (wallet_keys w)))
    in fst (generateNewAddress env w) = a
      \<and> (if a = [] \<or> map_find (wallet_keys w) a \<noteq> None then snd (generateNewAddress env w) = w
         else length (wallet_keys (snd (generateNewAddress env w))) = Suc (length (wallet_keys w))
           \<and> map_find (wallet_keys (snd (generateNewAddress env w)))
               = (map_find (wallet_keys w))(a \<mapsto> addressToPubKeyHash sha a)
           \<and> hd_wallet (snd (generateNewAddress env w)) = hd_wallet w)"
proof -
  let ?a = "deriveAddress env (hd_wallet w) (word_of_nat (length (wallet_keys w)))"
  have k: "keys_ok sha rmd w" using assms(1) by (rule wallet_run_keys)
  have env: "SHA256 env = sha" using assms(2) by (simp add: on_backend_def)
  have ok: "map_ok (wallet_keys w)" using k by (simp add: keys_ok_def)
  have same: "map_put ?a (addressToPubKeyHash sha ?a) (wallet_keys w) = wallet_keys w"
    if "map_find (wallet_keys w) ?a = Some h" for h
  proof (rule map_ok_eqI)
    have "h = addressToPubKeyHash sha ?a" using k that by (simp add: keys_ok_def)
    then show "map_find (map_put ?a (addressToPubKeyHash sha ?a) (wallet_keys w)) = map_find (wallet_keys w)"
      using that by (simp add: map_find_put fun_upd_idem)
  qed (use ok in \<open>simp_all add: map_ok_put\<close>)
  show ?thesis
  proof (cases "?a = []")
    case False
    show ?thesis
    proof (cases "map_find (wallet_keys w) ?a")
      case None
      have "length (map_put ?a h (wallet_keys w)) = Suc (length (wallet_keys w))" for h
        using None unfolding length_card [OF map_ok_put [OF ok]] length_card [OF ok]
        by (simp add: dom_map_find keys_map_put map_find_None)
      then show ?thesis
        using False None by (simp add: generateNewAddress_def Let_def env map_find_put)
    next
      case (Some h)
      then show ?thesis using False same [OF Some] by (simp add: generateNewAddress_def Let_def env)
    qed
  qed (simp add: generateNewAddress_def)
qed

theorem new_address_witness:
  "snd (generateNewAddress (toy_env lucky_sha) (toy_wallet lucky_sha)) = toy_wallet lucky_sha"
  using new_address [OF toy_run toy_backend, of lucky_sha] toy_address(2) [of lucky_sha "hd_wallet (toy_wallet lucky_sha)"]
  by (simp add: Let_def lucky_keys)

end
