(* ===== verification/Mining.thy ===== *)
theory Mining
  imports Mempool Base58
begin

text \<open>
  \<^verbatim>\<open>src/mining/miner.cpp\<close>: the miner's state and one round of \<^verbatim>\<open>miningLoop\<close>, from building a
  block on top of the chain through the nonce search (\<open>Pow.mineBlock\<close>) to \<^verbatim>\<open>addBlock\<close>. A round is
  run here without another thread in between; \<open>now\<close> is the clock when the block is built,
  \<open>now'\<close> the clock when it is checked. What a round reports, the realtime feed
  and the hash-rate counter, does not influence it and is in \<open>MinerLoop\<close>.
\<close>

record Miner =
  is_mining :: bool
  threadCount :: u32
  threads :: nat
  payoutHash :: bytes

definition new_miner :: Miner where
  "new_miner = \<lparr>is_mining = False, threadCount = 1, threads = 0, payoutHash = replicate 20 0\<rparr>"

definition setPayoutHash :: "bytes \<Rightarrow> Miner \<Rightarrow> Miner" where
  "setPayoutHash hash m = (if length hash = 20 then m\<lparr>payoutHash := hash\<rparr> else m)"

definition setPayoutAddress :: "hasher \<Rightarrow> string \<Rightarrow> Miner \<Rightarrow> Miner" where
  "setPayoutAddress sha address m =
     (let h = addressToPubKeyHash sha address
      in if length h = 20 then m\<lparr>payoutHash := h\<rparr> else m)"

text \<open>\<^verbatim>\<open>start\<close> and \<^verbatim>\<open>stop\<close>: the atomic flag, and the number of threads that run.\<close>

definition miner_start :: "u32 \<Rightarrow> Miner \<Rightarrow> Miner" where
  "miner_start n m =
     (if is_mining m then m
      else
        let m = m\<lparr>is_mining := True, threadCount := (if n \<noteq> 0 then n else 1)\<rparr>
        in m\<lparr>threads := threads m + unat (threadCount m)\<rparr>)"

definition miner_stop :: "Miner \<Rightarrow> Miner" where
  "miner_stop m = m\<lparr>is_mining := False, threads := 0\<rparr>"


section \<open>One round\<close>

definition cbscript :: "u64 \<Rightarrow> bytes" where
  "cbscript h =
     (if h < 0xfd then [ucast h]
      else if h \<le> 0xffff then
        [0xfd, ucast (h AND 0xff), ucast (drop_bit 8 h AND 0xff)]
      else
        [0xfe, ucast (h AND 0xff), ucast (drop_bit 8 h AND 0xff),
         ucast (drop_bit 16 h AND 0xff), ucast (drop_bit 24 h AND 0xff)])"

definition coinbase_script :: "bytes \<Rightarrow> Script" where
  "coinbase_script payout =
     (let s = [0x76, 0xa9, 0x14];
          s = (if length payout = 20 then s @ payout else s @ replicate 20 0);
          s = s @ [0x88]
      in s @ [0xac])"

definition miner_coinbase :: "Miner \<Rightarrow> Blockchain \<Rightarrow> Transaction" where
  "miner_coinbase m c = \<lparr>
     tx_version = 1,
     inputs = [\<lparr>prev_tx_hash = uint256_zero, output_index = 0xffffffff,
                signature = cbscript (getHeight c + 1), pubkey = []\<rparr>],
     outputs = [\<lparr>amount = getBlockSubsidy (getHeight c + 1), script_pubkey = coinbase_script (payoutHash m)\<rparr>],
     lock_time = 0,
     cached_txid = None\<rparr>"

definition block_template :: "u64 \<Rightarrow> Miner \<Rightarrow> Mempool \<Rightarrow> Blockchain \<Rightarrow> Block" where
  "block_template now m pool c =
     \<lparr>header = \<lparr>hdr_version = 1, previous_hash = getBestBlockHash c, merkle_root = uint256_zero,
        timestamp = now, difficulty_target = EASY_MINE_DIFFICULTY, nonce = 0\<rparr>,
      transactions = [miner_coinbase m c] @ getBlockTemplate pool\<rparr>"

text \<open>The flag says that \<^verbatim>\<open>addBlock\<close> answered true.\<close>

definition mining_round ::
    "hasher \<Rightarrow> (string \<Rightarrow> bool) \<Rightarrow> u64 \<Rightarrow> u64 \<Rightarrow> Miner \<Rightarrow> Mempool \<Rightarrow> Blockchain \<Rightarrow> files
     \<Rightarrow> bool \<times> Blockchain \<times> files" where
  "mining_round sha can_write now now' m pool c fs =
     (case mineBlock sha (block_template now m pool c) EASY_MINE_DIFFICULTY of
        (False, b) \<Rightarrow> (False, c, fs)
      | (True, b) \<Rightarrow>
          (let newHeight = getHeight c + 1
           in addBlock sha can_write now' b newHeight c fs))"

text \<open>The block a round submits, if the search finds one.\<close>

definition candidate :: "hasher \<Rightarrow> u64 \<Rightarrow> Miner \<Rightarrow> Mempool \<Rightarrow> Blockchain \<Rightarrow> u32 \<Rightarrow> Block" where
  "candidate sha now m pool c n =
     set_nonce (mining_block sha (block_template now m pool c) EASY_MINE_DIFFICULTY) n"

lemma candidate_simps [simp]:
  "transactions (candidate sha now m pool c n) =
     map (memo_txid sha) (miner_coinbase m c # map snd pool)"
  "difficulty_target (header (candidate sha now m pool c n)) = EASY_MINE_DIFFICULTY"
  "previous_hash (header (candidate sha now m pool c n)) = bestBlockHash c"
  "timestamp (header (candidate sha now m pool c n)) = now"
  "merkle_root (header (candidate sha now m pool c n)) =
     computeMerkleRoot sha (miner_coinbase m c # map snd pool)"
  by (simp_all add: candidate_def mining_block_def block_template_def getBestBlockHash_def
      getBlockTemplate_eq)

lemma mining_round_cases:
  obtains (none) "\<And>n. \<not> checkProofOfWork sha (header (candidate sha now m pool c n))"
      "mining_round sha w now now' m pool c fs = (False, c, fs)"
  | (found) n where "checkProofOfWork sha (header (candidate sha now m pool c n))"
      "mining_round sha w now now' m pool c fs =
         addBlock sha w now' (candidate sha now m pool c n) (height c + 1) c fs"
proof (cases "\<exists>n. checkProofOfWork sha (header (candidate sha now m pool c n))")
  case True
  then obtain k where k: "checkProofOfWork sha (header (candidate sha now m pool c k))" by blast
  let ?n = "LEAST n. checkProofOfWork sha (header (candidate sha now m pool c n))"
  have "mineBlock sha (block_template now m pool c) EASY_MINE_DIFFICULTY
      = (True, candidate sha now m pool c ?n)"
    using mineBlock_found [OF k [unfolded candidate_def]] by (simp add: candidate_def)
  moreover have "checkProofOfWork sha (header (candidate sha now m pool c ?n))"
    using k by (rule LeastI)
  ultimately show ?thesis
    by (intro found [of ?n]) (simp_all add: mining_round_def getHeight_def)
next
  case False
  then have "mineBlock sha (block_template now m pool c) EASY_MINE_DIFFICULTY
      = (False, candidate sha now m pool c (- 1))"
    using mineBlock_none [of sha "block_template now m pool c" EASY_MINE_DIFFICULTY]
    by (simp add: candidate_def)
  with False show ?thesis by (intro none) (simp_all add: mining_round_def)
qed

lemma candidate_spends:
  "block_spends (candidate sha now m pool c n) = concat (map (tx_spends \<circ> snd) pool)"
  by (simp add: block_spends_def comp_def)

lemma candidate_valid:
  assumes "checkProofOfWork sha (header (candidate sha now m pool c n))" "now \<le> now' + 7200"
  shows "validateBlockStructure sha now' (candidate sha now m pool c n)"
proof -
  have "isCoinbase (miner_coinbase m c)" by (simp add: isCoinbase_def miner_coinbase_def)
  moreover have "computeMerkleRoot sha (map (memo_txid sha) (miner_coinbase m c # map snd pool))
      = computeMerkleRoot sha (miner_coinbase m c # map snd pool)"
    by (rule merkle_memo)
  ultimately show ?thesis
    using assms by (simp add: validateBlockStructure_def EASY_MINE_DIFFICULTY_def not_less Let_def)
qed


lemma mining_round_accepts:
  assumes h: "holds_chain sha c bs" "height c \<noteq> - 1"
    and pool: "list_all (\<lambda>(k, tx). validateTransactionStructure tx \<and> inputs_present (bc_utxo c) tx) pool"
      "distinct (concat (map (tx_spends \<circ> snd) pool))"
    and d: "checkDifficulty c (header (block_template now m pool c))" and t: "now \<le> now' + 7200"
    and w0: "checkProofOfWork sha (header (candidate sha now m pool c k))"
    and new: "\<And>n. map_find (blockCache c) (getHash sha (candidate sha now m pool c n)) = None"
  obtains n c' fs' where "mining_round sha w now now' m pool c fs = (True, c', fs')"
    "extends_chain sha bs (memo_block sha (candidate sha now m pool c n))"
    "holds_chain sha c' (bs @ [memo_block sha (candidate sha now m pool c n)])"
    "map_find (bc_utxo c') = connected sha (candidate sha now m pool c n) (map_find (bc_utxo c))"
proof -
  obtain n where n: "checkProofOfWork sha (header (candidate sha now m pool c n))"
    and r: "mining_round sha w now now' m pool c fs
      = addBlock sha w now' (candidate sha now m pool c n) (height c + 1) c fs"
    using w0 by (cases rule: mining_round_cases [of sha now m pool c w now' fs]) auto
  let ?b = "candidate sha now m pool c n"
  have ok: "map_ok (bc_utxo c)" using h(1) by (simp add: holds_chain_def)
  have "checkDifficulty c (header ?b)"
    using d checkDifficulty_cong [of "header ?b" "header (block_template now m pool c)" c]
    by (simp add: block_template_def)
  moreover have "list_all (\<lambda>tx. validateTransactionStructure tx \<and> inputs_present (bc_utxo c) tx)
      (drop 1 (transactions ?b))"
    using pool(1)
    by (auto simp: list_all_iff validate_structure_memo inputs_present_iff dest!: bspec)
  ultimately have con: "connectable sha now' ?b c"
    using candidate_valid [OF n t] by (simp add: connectable_def)
  have dist: "distinct (block_spends ?b)" using pool(2) by (simp add: candidate_spends)
  have prev: "previous_hash (header ?b) = bestBlockHash c" by simp
  obtain c' fs' where a: "addBlock sha w now' ?b (height c + 1) c fs = (True, c', fs')"
    using addBlock_accepts [OF ok new refl prev con dist, of w fs] by (metis surj_pair)
  have hc: "height c' = height c + 1"
    using a addBlock_accepts [OF ok new refl prev con dist, of w fs]
    by (auto simp: record_block_def Let_def prod_eq_iff)
  from h a show ?thesis
  proof (cases rule: addBlock_step)
    case same
    then show ?thesis using hc by simp
  next
    case extended
    then show ?thesis using that r a by simp
  qed simp
qed

text \<open>A transaction whose input is gone spoils every block built with it.\<close>

lemma stale_round:
  assumes "map_ok (bc_utxo c)" "tx \<in> snd ` set pool" "op \<in> set (tx_spends tx)" "op \<notin> dom (map_find (bc_utxo c))"
  shows "snd (mining_round sha w now now' m pool c fs) = (c, fs)"
proof (cases rule: mining_round_cases [of sha now m pool c w now' fs])
  case (found n)
  let ?b = "candidate sha now m pool c n"
  have "op \<in> set (block_spends ?b)"
    using assms(2,3) by (auto simp: candidate_spends)
  then have "\<not> connectable sha now' ?b c"
    using connectable_spends [of sha now' ?b c] assms(4) by blast
  with assms(1) have "snd (connectBlock sha w now' ?b (height c + 1) c fs) = (c, fs)"
    by (cases rule: connectBlock_cases [of c sha now' ?b w "height c + 1" fs]) simp_all
  then show ?thesis by (simp add: found(2) addBlock_def Let_def)
qed simp

lemma difficulty_round:
  assumes "\<And>h. difficulty_target h = EASY_MINE_DIFFICULTY \<Longrightarrow> \<not> checkDifficulty c h"
  shows "snd (mining_round sha w now now' m pool c fs) = (c, fs)"
proof (cases rule: mining_round_cases [of sha now m pool c w now' fs])
  case (found n)
  have "\<not> checkDifficulty c (header (candidate sha now m pool c n))" by (rule assms) simp
  then show ?thesis by (simp add: found(2) addBlock_def connectBlock_def Let_def)
qed simp

text \<open>The easy difficulty never survives the first retarget.\<close>

lemma easy_never_expected:
  assumes "t0 < 2 ^ 63"
  shows "getAdaptiveNextDifficulty EASY_MINE_DIFFICULTY t1 t0 DIFFICULTY_INTERVAL 2016
    \<noteq> Some EASY_MINE_DIFFICULTY"
proof (cases "t0 < t1")
  case True
  have n: "getNextDifficulty EASY_MINE_DIFFICULTY t1 t0 DIFFICULTY_INTERVAL = Some 0x047fffff"
    using retarget_saturates [OF True, of EASY_MINE_DIFFICULTY] by (simp add: EASY_MINE_DIFFICULTY_def)
  show ?thesis
    unfolding getAdaptiveNextDifficulty_def n
    by (simp add: EASY_MINE_DIFFICULTY_def Let_def word_less_nat_alt)
next
  case False
  then have n: "getNextDifficulty EASY_MINE_DIFFICULTY t1 t0 DIFFICULTY_INTERVAL = Some EASY_MINE_DIFFICULTY"
    by (simp add: getNextDifficulty_def not_less)
  have "t1 - t0 = 0 \<or> 9672000 < t1 - t0"
  proof (cases "t1 = t0")
    case ne: False
    with False have lt: "t1 < t0" by auto
    then have "unat (t1 - t0) = 2 ^ 64 - (unat t0 - unat t1)"
      by (simp add: unat_sub_if' word_less_nat_alt)
    then show ?thesis using assms lt by (simp add: word_less_nat_alt) linarith
  qed simp
  then show ?thesis
    unfolding getAdaptiveNextDifficulty_def n target_time_2016
    by (auto simp: EASY_MINE_DIFFICULTY_def Let_def word_less_nat_alt)
qed

text \<open>The hashed bytes of a coinbase do not depend on its height.\<close>

lemma miner_coinbase_txid:
  assumes "getBlockSubsidy (height c + 1) = getBlockSubsidy (height c' + 1)" "payoutHash m = payoutHash m'"
  shows "txid sha (miner_coinbase m c) = txid sha (miner_coinbase m' c')"
    "tx_creates sha (miner_coinbase m c) = tx_creates sha (miner_coinbase m' c')"
proof -
  show t: "txid sha (miner_coinbase m c) = txid sha (miner_coinbase m' c')"
    using assms by (simp add: txid_fresh miner_coinbase_def txid_buf_enc outpoint_of_def getHeight_def)
  show "tx_creates sha (miner_coinbase m c) = tx_creates sha (miner_coinbase m' c')"
    unfolding tx_creates_def t using assms by (simp add: miner_coinbase_def getHeight_def)
qed



section \<open>An example node\<close>

text \<open>
  A hasher for the examples: of an input of more than 68 bytes it keeps byte 68 (for a block
  header the low byte of the timestamp, for a coinbase a byte of the payout hash), of a
  shorter one the first byte.
\<close>

definition pick_sha :: hasher where
  "pick_sha bs = mk_uint256 [if 68 < length bs then bs ! 68 else hd bs]"

lemma pick_twice: "shawncoin_sha256d pick_sha bs = mk_uint256 [if 68 < length bs then bs ! 68 else hd bs]"
proof -
  have "hd (bytes_of (mk_uint256 [x])) = x" for x
    by (simp add: bytes_of_mk_gen)
  then show ?thesis by (simp add: shawncoin_sha256d_def pick_sha_def)
qed

lemma pick_hash: "getHash pick_sha b = mk_uint256 [word_of_nat (unat (timestamp (header b)))]"
proof -
  let ?h = "header b"
  have b: "header_buf ?h = (le_bytes 4 (unat (hdr_version ?h)) @ bytes_of (previous_hash ?h)
      @ bytes_of (merkle_root ?h)) @ take 4 (le_bytes 8 (unat (timestamp ?h)))
      @ le_bytes 4 (unat (difficulty_target ?h)) @ le_bytes 4 (unat (nonce ?h))"
    by (simp add: header_buf_def codec_simps low_half_bytes Let_def)
  have "header_buf ?h ! 68 = hd (le_bytes 8 (unat (timestamp ?h)))"
    unfolding b by (subst nth_append_length [where x = "hd (le_bytes 8 (unat (timestamp ?h)))", symmetric])
      (simp_all add: le_bytes_8 nth_append)
  then show ?thesis
    by (simp add: getHash_def getHeaderHash_def pick_twice b le_bytes_8)
qed


definition pick_start :: Blockchain where
  "pick_start = main_chain pick_sha [] uint256_zero"

definition pick_miner :: Miner where
  "pick_miner = setPayoutHash (replicate 14 0 @ [9] @ replicate 5 0) new_miner"

lemma genesis_txid: "txid pick_sha genesis_coinbase = uint256_zero"
proof -
  have "txid_buf genesis_coinbase ! 68 = 0" "68 < length (txid_buf genesis_coinbase)"
    unfolding txid_buf_enc
    by (simp_all add: genesis_coinbase_def le_bytes_4 le_bytes_8 nth_append enc_outpoint_def
        enc_short_output_def outpoint_of_def)
  moreover have "mk_uint256 [0] = uint256_zero"
    by (rule uint256_eqI) (simp add: bytes_of_mk_gen flip: replicate_Suc)
  moreover have "cached_txid genesis_coinbase = None" by (simp add: genesis_coinbase_def)
  ultimately show ?thesis by (simp add: txid_fresh pick_twice)
qed

lemma pick_start:
  "holds_chain pick_sha pick_start [makeGenesisBlock pick_sha]"
  "height pick_start = 0" "checkDifficulty pick_start h"
  "map_find (bc_utxo pick_start) = replay pick_sha [makeGenesisBlock pick_sha]"
  "map_ok (bc_utxo pick_start)"
proof -
  show h: "holds_chain pick_sha pick_start [makeGenesisBlock pick_sha]"
    unfolding pick_start_def by (rule main_chain_holds)
  then show "map_ok (bc_utxo pick_start)" by (simp add: holds_chain_def)
  show z: "height pick_start = 0"
    by (simp add: pick_start_def main_chain_eq setChainState_def new_blockchain_def Let_def)
  then show "checkDifficulty pick_start h"
    by (simp add: checkDifficulty_def getHeight_def)
  show "map_find (bc_utxo pick_start) = replay pick_sha [makeGenesisBlock pick_sha]"
    unfolding pick_start_def by (rule main_chain_holds)
qed

lemma genesis_coins:
  "replay sha [makeGenesisBlock sha] = [OutPoint (txid sha genesis_coinbase) 0 \<mapsto>
     \<lparr>entry_amount = getBlockSubsidy 0, entry_script = coinbase_script (replicate 20 0)\<rparr>]"
  by (simp add: replay_def connected_def block_creates_def makeGenesisBlock_def genesis_spends
      block_spends_def tx_creates_def)
    (simp add: genesis_coinbase_def coinbase_script_def Let_def)

lemma pick_candidate_hash: "getHash pick_sha (candidate pick_sha 1 m pool pick_start n) = mk_uint256 [1]"
  by (simp add: pick_hash)

lemma pick_pow: "checkProofOfWork pick_sha (header (candidate pick_sha 1 m pool pick_start n))"
proof -
  have "le_val (bytes_of (mk_uint256 [1])) \<le> le_val (compact_target EASY_MINE_DIFFICULTY)"
    using easy_target_value by (simp add: bytes_of_mk_gen)
  then show ?thesis
    using pick_candidate_hash [of m pool n]
    by (simp add: checkProofOfWork_le_val getHash_def getHeaderHash_def)
qed

lemma pick_new: "map_find (blockCache pick_start) (getHash pick_sha (candidate pick_sha 1 m pool pick_start n)) = None"
proof -
  have "bytes_of (mk_uint256 [1]) ! 0 \<noteq> bytes_of (getHash pick_sha (makeGenesisBlock pick_sha)) ! 0"
    by (simp add: pick_hash makeGenesisBlock_def bytes_of_mk_gen)
  then have "mk_uint256 [1] \<noteq> getHash pick_sha (makeGenesisBlock pick_sha)" by metis
  then show ?thesis
    using pick_start(1) by (simp add: pick_candidate_hash holds_chain_def cache_of_None)
qed

text \<open>The first round of a miner on a new chain, with nothing or one spending transaction in the pool.\<close>

lemma first_round:
  assumes "pool = [] \<or> (\<exists>k. pool = [(k, memo_txid pick_sha (spending_tx [OutPoint uint256_zero 0]))])"
  obtains n c' fs' where "mining_round pick_sha w 1 1 m pool pick_start fs = (True, c', fs')"
    "height c' = 1"
    "map_find (bc_utxo c') = connected pick_sha (candidate pick_sha 1 m pool pick_start n) (map_find (bc_utxo pick_start))"
proof (rule mining_round_accepts [OF pick_start(1), where pool = pool and now = 1 and now' = 1 and m = m])
  let ?tx = "spending_tx [OutPoint uint256_zero 0]"
  show "height pick_start \<noteq> - 1" by (simp add: pick_start(2))
  have v: "validateTransactionStructure ?tx"
    by (simp add: validateTransactionStructure_def spending_tx_def coin_params)
  have sp: "tx_spends ?tx = [OutPoint uint256_zero 0]"
    by (simp add: tx_spends_def spending_tx_def outpoint_of_def)
  show "list_all (\<lambda>(k, tx). validateTransactionStructure tx \<and> inputs_present (bc_utxo pick_start) tx) pool"
    using assms v
    by (auto simp: validate_structure_memo inputs_present_iff sp pick_start(4) genesis_coins genesis_txid)
  show "distinct (concat (map (tx_spends \<circ> snd) pool))"
    using assms by (auto simp: sp)
  show "checkDifficulty pick_start (header (block_template 1 m pool pick_start))" by (rule pick_start(3))
  show "checkProofOfWork pick_sha (header (candidate pick_sha 1 m pool pick_start 0))" by (rule pick_pow)
  show "map_find (blockCache pick_start) (getHash pick_sha (candidate pick_sha 1 m pool pick_start n)) = None" for n
    by (rule pick_new)
  fix n c' fs'
  assume "mining_round pick_sha w 1 1 m pool pick_start fs = (True, c', fs')"
    "holds_chain pick_sha c' ([makeGenesisBlock pick_sha] @ [memo_block pick_sha (candidate pick_sha 1 m pool pick_start n)])"
    "map_find (bc_utxo c') = connected pick_sha (candidate pick_sha 1 m pool pick_start n) (map_find (bc_utxo pick_start))"
  then show thesis
    by (intro that) (auto simp: holds_chain_def word_unat_eq_iff)
qed simp_all



section \<open>Properties\<close>



text \<open>
  What a block confirms stays in the pool and stops the miner. After a round that
  extended the chain, if some transaction of the pool spent an outpoint that the block
  did not create again, no later round with that pool changes the chain any more, whatever
  the clock, the payout hash and the nonces: the template always contains the spent
  transaction and the chain always refuses the block.
\<close>

theorem confirmed_pool_stalls_miner:
  assumes "holds_chain sha c bs" "height c \<noteq> - 1"
    and "mining_round sha w now now' m pool c fs = (True, c', fs')" "height c' = height c + 1"
    and "tx \<in> snd ` set pool" "op \<in> set (tx_spends tx)"
    and "op \<notin> fst ` set (concat (map (tx_creates sha) (miner_coinbase m c # getBlockTemplate pool)))"
  shows "snd (mining_round sha w2 now2 now2' m2 pool c' fs') = (c', fs')"
proof (cases rule: mining_round_cases [of sha now m pool c w now' fs])
  case none
  then show ?thesis using assms(3,4) by simp
next
  case (found n)
  let ?b = "candidate sha now m pool c n"
  have a: "addBlock sha w now' ?b (height c + 1) c fs = (True, c', fs')"
    using found(2) assms(3) by simp
  from assms(1,2) a show ?thesis
  proof (cases rule: addBlock_step)
    case same
    then show ?thesis using assms(4) by simp
  next
    case extended
    have "op \<in> set (block_spends ?b)" using assms(5,6) by (auto simp: candidate_spends)
    moreover have "op \<notin> fst ` set (block_creates sha ?b)"
      using assms(7) by (simp add: block_creates_def getBlockTemplate_eq comp_def)
    ultimately have "op \<notin> dom (map_find (bc_utxo c'))"
      by (auto simp: extended(4) connected_def map_of_eq_None_iff restrict_map_def dest!: map_of_SomeD)
        (force dest: map_of_SomeD)+
    moreover have "map_ok (bc_utxo c')" using extended(3) by (simp add: holds_chain_def)
    ultimately show ?thesis using assms(5,6) by (intro stale_round)
  qed simp
qed


theorem confirmed_pool_stalls_miner_witness:
  "\<exists>c' fs'. fst (mining_round pick_sha (\<lambda>_. True) 1 1 pick_miner
        [(tag 1, memo_txid pick_sha (spending_tx [OutPoint uint256_zero 0]))] pick_start (\<lambda>_. None))
     \<and> snd (mining_round pick_sha (\<lambda>_. True) 2 2 pick_miner
        [(tag 1, memo_txid pick_sha (spending_tx [OutPoint uint256_zero 0]))] c' fs') = (c', fs')"
proof -
  let ?tx = "memo_txid pick_sha (spending_tx [OutPoint uint256_zero 0])"
  let ?pool = "[(tag 1, ?tx)]"
  obtain n c' fs' where r: "mining_round pick_sha (\<lambda>_. True) 1 1 pick_miner ?pool pick_start (\<lambda>_. None) = (True, c', fs')"
    and hc: "height c' = height pick_start + 1"
    by (rule first_round [of ?pool "\<lambda>_. True" pick_miner "\<lambda>_. None"]) (auto simp: pick_start(2))
  have hp: "height pick_start \<noteq> - 1" by (simp add: pick_start(2))
  have sp: "OutPoint uint256_zero 0 \<in> set (tx_spends ?tx)"
    by (simp add: tx_spends_def) (simp add: spending_tx_def outpoint_of_def)
  have ne: "x \<noteq> 0 \<Longrightarrow> mk_uint256 [x] \<noteq> uint256_zero" for x
    by (metis bytes_of_mk_gen bytes_of_zero nth_replicate append_Cons nth_Cons_0 nth_take zero_less_numeral)
  have "txid_buf (spending_tx [OutPoint uint256_zero 0]) ! 0 = 1"
      "length (txid_buf (spending_tx [OutPoint uint256_zero 0])) = 56"
    unfolding txid_buf_enc
    by (simp_all add: spending_tx_def le_bytes_4 enc_outpoint_def enc_short_output_def outpoint_of_def)
  then have t1: "txid pick_sha (spending_tx [OutPoint uint256_zero 0]) \<noteq> uint256_zero"
    by (simp add: txid_fresh spending_tx_def pick_twice ne hd_conv_nth flip: length_0_conv)
  have "txid_buf (miner_coinbase pick_miner pick_start) ! 68 = 9"
      "68 < length (txid_buf (miner_coinbase pick_miner pick_start))"
    unfolding txid_buf_enc
    by (simp_all add: miner_coinbase_def pick_miner_def setPayoutHash_def coinbase_script_def le_bytes_4
        le_bytes_8 nth_append enc_outpoint_def enc_short_output_def outpoint_of_def Let_def)
  then have t2: "txid pick_sha (miner_coinbase pick_miner pick_start) \<noteq> uint256_zero"
    by (simp add: txid_fresh miner_coinbase_def pick_twice ne)
  have "OutPoint uint256_zero 0 \<notin> fst ` set (concat (map (tx_creates pick_sha)
      (miner_coinbase pick_miner pick_start # getBlockTemplate ?pool)))"
    using t1 t2 by (auto simp: getBlockTemplate_eq tx_creates_def)
  from confirmed_pool_stalls_miner [OF pick_start(1) hp r hc _ sp this, of "\<lambda>_. True" 2 2 pick_miner]
  show ?thesis using r by auto
qed


text \<open>
  Mining stops at the first retarget. The miner always works at the easy difficulty; at
  height 2015 on a chain of that difficulty the next block must have another one,
  whatever the timestamps are (below \<open>2 ^ 63\<close>), so no round changes the chain any more.
\<close>

theorem retarget_stalls_miner:
  assumes "height c = 2015" "getBlockByHeight c 2015 = Some prev" "getBlockByHeight c 0 = Some first'"
    and "difficulty_target (header prev) = EASY_MINE_DIFFICULTY" "timestamp (header first') < 2 ^ 63"
  shows "snd (mining_round sha w now now' m pool c fs) = (c, fs)"
proof (rule difficulty_round)
  fix h :: BlockHeader
  assume "difficulty_target h = EASY_MINE_DIFFICULTY"
  then show "\<not> checkDifficulty c h"
    using assms easy_never_expected [OF assms(5), of "timestamp (header prev)"]
    by (simp add: checkDifficulty_def getHeight_def DIFFICULTY_INTERVAL_def Let_def)
qed

theorem retarget_stalls_miner_witness:
  "let c = \<lparr>bc_utxo = [], bestBlockHash = tag 2, height = 2015,
       blockCache = [(tag 1, tag_genesis), (tag 2, tag_block 1 2 5 [])],
       heightIndex = [(0, tag 1), (2015, tag 2)], chainState = None\<rparr>
   in snd (mining_round const_sha (\<lambda>_. True) 0 0 new_miner [] c (\<lambda>_. None)) = (c, \<lambda>_. None)"
proof -
  let ?c = "\<lparr>bc_utxo = [], bestBlockHash = tag 2, height = 2015,
       blockCache = [(tag 1, tag_genesis), (tag 2, tag_block 1 2 5 [])],
       heightIndex = [(0, tag 1), (2015, tag 2)], chainState = None\<rparr>"
  have "tag 2 \<noteq> tag 1" by (simp add: tag_inject)
  then have "getBlockByHeight ?c 2015 = Some (tag_block 1 2 5 [])" "getBlockByHeight ?c 0 = Some tag_genesis"
    by (simp_all add: getBlockByHeight_def)
  from retarget_stalls_miner [OF _ this, of const_sha "\<lambda>_. True" 0 0 new_miner "[]" "\<lambda>_. None"] show ?thesis
    by (simp add: tag_block_def makeGenesisBlock_def)
qed

text \<open>
  A miner's later blocks earn it nothing. The id of a coinbase does not cover the height in
  its script, so two coinbases with the same subsidy and payout hash, at any two heights,
  are the same output; and as long as the earlier one is unspent, a round that
  extends the chain by a block of just the coinbase leaves the UTXO set as it was.
\<close>

theorem coinbase_adds_nothing:
  assumes "holds_chain sha c bs" "height c \<noteq> - 1"
    and "getBlockSubsidy (height c0 + 1) = getBlockSubsidy (height c + 1)" "payoutHash m0 = payoutHash m"
    and "map_of (tx_creates sha (miner_coinbase m0 c0)) \<subseteq>\<^sub>m map_find (bc_utxo c)"
    and "mining_round sha w now now' m [] c fs = (True, c', fs')"
  shows "txid sha (miner_coinbase m c) = txid sha (miner_coinbase m0 c0)
    \<and> map_find (bc_utxo c') = map_find (bc_utxo c)"
proof (rule conjI)
  show "txid sha (miner_coinbase m c) = txid sha (miner_coinbase m0 c0)"
    using assms(3,4) by (intro miner_coinbase_txid) simp_all
  have e: "tx_creates sha (miner_coinbase m c) = tx_creates sha (miner_coinbase m0 c0)"
    using assms(3,4) by (intro miner_coinbase_txid) simp_all
  show "map_find (bc_utxo c') = map_find (bc_utxo c)"
  proof (cases rule: mining_round_cases [of sha now m "[]" c w now' fs])
    case none
    then show ?thesis using assms(6) by simp
  next
    case (found n)
    let ?b = "candidate sha now m [] c n"
    have a: "addBlock sha w now' ?b (height c + 1) c fs = (True, c', fs')"
      using found(2) assms(6) by simp
    from assms(1,2) a show ?thesis
    proof (cases rule: addBlock_step)
      case extended
      have "block_spends ?b = []" "block_creates sha ?b = tx_creates sha (miner_coinbase m0 c0)"
        by (simp_all add: candidate_spends block_creates_def e)
      moreover have "rev (tx_creates sha (miner_coinbase m0 c0)) = tx_creates sha (miner_coinbase m0 c0)"
        by (simp add: tx_creates_def) (simp add: miner_coinbase_def)
      moreover have "map_find (bc_utxo c) ++ map_of (tx_creates sha (miner_coinbase m0 c0)) = map_find (bc_utxo c)"
        using assms(5) by (rule map_add_submap)
      moreover have "map_find (bc_utxo c) |` UNIV = map_find (bc_utxo c)"
        by (simp add: restrict_map_def)
      ultimately show ?thesis by (simp add: extended(4) connected_def)
    qed simp_all
  qed
qed

theorem coinbase_adds_nothing_witness:
  "\<exists>c' fs'. mining_round pick_sha (\<lambda>_. True) 1 1 new_miner [] pick_start (\<lambda>_. None) = (True, c', fs')
     \<and> height c' = 1 \<and> map_find (bc_utxo c') = map_find (bc_utxo pick_start)"
proof -
  obtain n c' fs' where r: "mining_round pick_sha (\<lambda>_. True) 1 1 new_miner [] pick_start (\<lambda>_. None) = (True, c', fs')"
    and hc: "height c' = 1"
    by (rule first_round [of "[]" "\<lambda>_. True" new_miner "\<lambda>_. None"]) auto
  have hp: "height pick_start \<noteq> - 1" by (simp add: pick_start(2))
  have "getBlockSubsidy 1 = getBlockSubsidy 0"
    by (simp add: getBlockSubsidy_def coin_params Let_def)
  then have "tx_creates pick_sha (miner_coinbase new_miner pick_start) = tx_creates pick_sha genesis_coinbase"
    and "outputs (miner_coinbase new_miner pick_start) = outputs genesis_coinbase"
    by (simp_all add: tx_creates_def txid_fresh miner_coinbase_def genesis_coinbase_def txid_buf_enc outpoint_of_def
      getHeight_def pick_start(2) new_miner_def coinbase_script_def Let_def)
  then have "map_of (tx_creates pick_sha (miner_coinbase new_miner pick_start)) \<subseteq>\<^sub>m map_find (bc_utxo pick_start)"
    by (simp add: pick_start(4) replay_def connected_def block_creates_def makeGenesisBlock_def block_spends_def)
      (simp add: tx_creates_def genesis_coinbase_def)
  from coinbase_adds_nothing [OF pick_start(1) hp refl refl this r] r hc show ?thesis by blast
qed

end
