(* ===== verification/Rpc.thy ===== *)
theory Rpc
  imports Json Wallet Mining
begin

text \<open>
  \<^verbatim>\<open>src/rpc/api.cpp\<close>: the JSON-RPC requests and the REST answers. The context's pointers are
  optional components of the state; a null context behaves as one whose pointers are all null.
  A method answers with the list of its assignments to the response, or with the message of
  the exception it throws (\<open>Inl\<close>), and leaves the state as it is then. Log lines are left out.
\<close>

record rpc_state =
  rpc_chain :: "Blockchain option"
  rpc_mempool :: "Mempool option"
  rpc_wallet :: "Wallet option"
  rpc_miner :: "Miner option"
  rpc_files :: files
  rpc_feed :: feed

record ('kp, 'd) rpc_env =
  lib :: "'kp crypto"
  can_open :: "string \<Rightarrow> bool"
  clock :: u64
  hashrate :: 'd
  print_double :: "'d \<Rightarrow> string"

type_synonym 'd reply = "string + (string \<times> 'd json) list"

section \<open>The REST answers\<close>

definition apiBlockchainInfo :: "rpc_state \<Rightarrow> string" where
  "apiBlockchainInfo st =
     (case rpc_chain st of
        None \<Rightarrow> ''{}''
      | Some c \<Rightarrow>
          ''{'' @ quote @ ''chain'' @ quote @ '':'' @ quote @ ''shawncoin'' @ quote @ '','' @ quote @ ''blocks'' @ quote @ '':''
          @ to_string (unat (getHeight c))
          @ '','' @ quote @ ''bestblockhash'' @ quote @ '':'' @ quote @ uint256ToHex (getBestBlockHash c)
          @ quote @ '','' @ quote @ ''mempool_size'' @ quote @ '':''
          @ to_string (case rpc_mempool st of Some m \<Rightarrow> mempool_size m | None \<Rightarrow> 0) @ ''}'')"

definition not_found :: string where
  "not_found = ''{'' @ quote @ ''error'' @ quote @ '':'' @ quote @ ''block not found'' @ quote @ ''}''"

definition block_answer :: "string \<Rightarrow> nat \<Rightarrow> Block \<Rightarrow> string" where
  "block_answer hash h b =
     ''{'' @ quote @ ''hash'' @ quote @ '':'' @ quote @ hash @ quote @ '','' @ quote @ ''height'' @ quote @ '':''
     @ to_string h @ '','' @ quote @ ''txcount'' @ quote @ '':'' @ to_string (length (transactions b)) @ ''}''"

definition apiBlockByHash :: "string \<Rightarrow> rpc_state \<Rightarrow> string" where
  "apiBlockByHash hash st =
     (case rpc_chain st of
        None \<Rightarrow> ''{}''
      | Some c \<Rightarrow>
          (case getBlock c (hexToUint256 hash) of
             None \<Rightarrow> not_found
           | Some b \<Rightarrow> block_answer hash 0 b))"

definition apiBlockByHeight :: "('kp, 'd) rpc_env \<Rightarrow> u64 \<Rightarrow> rpc_state \<Rightarrow> string" where
  "apiBlockByHeight env h st =
     (case rpc_chain st of
        None \<Rightarrow> ''{}''
      | Some c \<Rightarrow>
          (case getBlockByHeight c h of
             None \<Rightarrow> not_found
           | Some b \<Rightarrow> block_answer (uint256ToHex (getHash (SHA256 (lib env)) b)) (unat h) b))"


section \<open>The wallet methods\<close>

definition rpc_wallet_create :: "('kp, 'd) rpc_env \<Rightarrow> 'd json \<Rightarrow> rpc_state \<Rightarrow> ('d reply \<times> rpc_state) option" where
  "rpc_wallet_create env params st =
     (case rpc_wallet st of
        None \<Rightarrow> Some (Inl ''no wallet'', st)
      | Some w \<Rightarrow>
          (let pass = (if is_object params \<and> json_contains params ''passphrase''
                       then get_string (json_index params ''passphrase'') else [])
           in case create (lib env) pass w of
                None \<Rightarrow> None
              | Some (ok, w') \<Rightarrow>
                  (let st = st\<lparr>rpc_wallet := Some w'\<rparr>
                   in if \<not> ok then Some (Inl ''failed to create wallet'', st)
                      else Some (Inr [(''result'', literal)], st))))"

definition rpc_getnewaddress :: "('kp, 'd) rpc_env \<Rightarrow> rpc_state \<Rightarrow> 'd reply \<times> rpc_state" where
  "rpc_getnewaddress env st =
     (case rpc_wallet st of
        None \<Rightarrow> (Inl ''no wallet'', st)
      | Some w \<Rightarrow>
          (let (address, w') = generateNewAddress (lib env) w
           in (Inr [(''result'', JString address)], st\<lparr>rpc_wallet := Some w'\<rparr>)))"

text \<open>The object of one unspent output: every assignment to it goes to a temporary.\<close>

definition unspent_object :: "OutPoint \<times> UtxoEntry \<Rightarrow> 'd json" where
  "unspent_object p =
     (let obj = JNull;
          obj = assign_index obj ''txid'' (JString (uint256ToHex (op_hash (fst p))));
          obj = assign_index obj ''vout'' (json_int (unat (op_index (fst p))))
      in assign_index obj ''amount'' (json_int (unat (entry_amount (snd p)))))"

definition rpc_listunspent :: "('kp, 'd) rpc_env \<Rightarrow> rpc_state \<Rightarrow> 'd reply \<times> rpc_state" where
  "rpc_listunspent env st =
     (case (rpc_wallet st, rpc_chain st) of
        (Some w, Some c) \<Rightarrow>
          (let arr = fold (\<lambda>p arr.
                 if is_p2pkh (entry_script (snd p)) \<and> hasHash160 (lib env) w (script_hash160 (entry_script (snd p)))
                 then push_back arr (unspent_object p) else arr) (utxo_snapshot (bc_utxo c)) (JArray [])
           in (Inr [(''result'', arr)], st))
      | _ \<Rightarrow> (Inl ''no wallet/chain'', st))"


section \<open>Sending\<close>

definition wallet_utxos :: "('kp, 'd) rpc_env \<Rightarrow> Wallet \<Rightarrow> UTXOSet \<Rightarrow> (OutPoint \<times> UtxoEntry) list" where
  "wallet_utxos env w u =
     filter (\<lambda>(op, e). is_p2pkh (entry_script e)
         \<and> list_ex (\<lambda>i. let hh = addressToPubKeyHash (SHA256 (lib env)) (deriveAddressAt (lib env) w (word_of_nat i))
                        in length hh = 20 \<and> hh = script_hash160 (entry_script e)) [0..<getAddressCount w])
       (utxo_snapshot u)"

text \<open>The greedy selection, and the total it reached.\<close>

fun select_utxos :: "u64 \<Rightarrow> (OutPoint \<times> UtxoEntry) list \<Rightarrow> u64 \<Rightarrow> (OutPoint \<times> UtxoEntry) list \<times> u64" where
  "select_utxos needed [] avail = ([], avail)"
| "select_utxos needed (u # us) avail =
     (let avail = avail + entry_amount (snd u)
      in if needed \<le> avail then ([u], avail)
         else let (sel, avail) = select_utxos needed us avail in (u # sel, avail))"

definition pay_script :: "bytes \<Rightarrow> Script" where
  "pay_script h =
     (let s = [0x76, 0xa9, 0x14];
          s = (if length h = 20 then s @ h else s @ replicate 20 0)
      in s @ [0x88] @ [0xac])"

definition payment :: "hasher \<Rightarrow> string \<Rightarrow> u64 \<Rightarrow> (OutPoint \<times> UtxoEntry) list \<Rightarrow> Transaction" where
  "payment sha dest a selected = \<lparr>
     tx_version = 1,
     inputs = map (\<lambda>(op, e). \<lparr>prev_tx_hash = op_hash op, output_index = op_index op, signature = [], pubkey = []\<rparr>) selected,
     outputs = [\<lparr>amount = a, script_pubkey = pay_script (addressToPubKeyHash sha dest)\<rparr>],
     lock_time = 0, cached_txid = None\<rparr>"

definition add_change :: "('kp, 'd) rpc_env \<Rightarrow> u64 \<Rightarrow> Transaction \<Rightarrow> Wallet \<Rightarrow> Transaction \<times> Wallet" where
  "add_change env change tx w =
     (if 0 < change then
        let (changeAddr, w) = generateNewAddress (lib env) w;
            ch = addressToPubKeyHash (SHA256 (lib env)) changeAddr
        in (tx\<lparr>outputs := outputs tx @ [\<lparr>amount = change, script_pubkey = pay_script ch\<rparr>]\<rparr>, w)
      else (tx, w))"

definition send_to_address ::
    "('kp, 'd) rpc_env \<Rightarrow> string \<Rightarrow> u64 \<Rightarrow> u64 \<Rightarrow> Wallet \<Rightarrow> Blockchain \<Rightarrow> Mempool \<Rightarrow> rpc_state \<Rightarrow> 'd reply \<times> rpc_state" where
  "send_to_address env dest a fee w c m st =
     (let utxos = wallet_utxos env w (bc_utxo c);
          (selected, avail) = select_utxos (a + fee) utxos 0
      in if avail < a + fee then (Inl ''insufficient funds'', st)
         else
           let tx = payment (SHA256 (lib env)) dest a selected;
               change = avail - a - fee;
               (tx, w) = add_change env change tx w;
               st = st\<lparr>rpc_wallet := Some w\<rparr>;
               (ok, tx) = signTransaction (lib env) w (Some (bc_utxo c)) tx
           in if \<not> ok then (Inl ''failed to sign tx'', st)
              else
                let (ok, m, f) = mempool_add (SHA256 (lib env)) tx fee m (rpc_feed st);
                    st = st\<lparr>rpc_mempool := Some m, rpc_feed := f\<rparr>
                in if \<not> ok then (Inl ''mempool rejected tx'', st)
                   else (Inr [(''result'', JString (hexEncode (serializeTransaction tx [])))], st))"

definition rpc_sendtoaddress :: "('kp, 'd) rpc_env \<Rightarrow> 'd json \<Rightarrow> rpc_state \<Rightarrow> 'd reply \<times> rpc_state" where
  "rpc_sendtoaddress env params st =
     (case (rpc_wallet st, rpc_chain st, rpc_mempool st) of
        (Some w, Some c, Some m) \<Rightarrow>
          if \<not> is_array params \<or> json_size params < 2 then (Inl ''params: [address, amount_satoshis]'', st)
          else
            send_to_address env (get_string (op_at params 0)) (get_uint64 (op_at params 1))
              (if 3 \<le> json_size params then get_uint64 (op_at params 2) else 0) w c m st
      | _ \<Rightarrow> (Inl ''no wallet/chain/mempool'', st))"

definition rpc_getbalance :: "rpc_state \<Rightarrow> 'd reply \<times> rpc_state" where
  "rpc_getbalance st =
     (case (rpc_wallet st, rpc_chain st) of
        (Some w, Some c) \<Rightarrow> (Inr [(''result'', json_int (unat (getBalance w (Some (bc_utxo c)))))], st)
      | _ \<Rightarrow> (Inl ''no wallet/chain available'', st))"

definition rpc_backup :: "('kp, 'd) rpc_env \<Rightarrow> 'd json \<Rightarrow> rpc_state \<Rightarrow> 'd reply \<times> rpc_state" where
  "rpc_backup env params st =
     (case rpc_wallet st of
        None \<Rightarrow> (Inl ''no wallet'', st)
      | Some w \<Rightarrow>
          if \<not> is_object params \<or> \<not> json_contains params ''path'' then (Inl ''missing path'', st)
          else (Inr [(''result'', literal)],
                st\<lparr>rpc_files := backup (can_open env) (get_string (json_index params ''path'')) w (rpc_files st)\<rparr>))"

definition rpc_restore :: "('kp, 'd) rpc_env \<Rightarrow> 'd json \<Rightarrow> rpc_state \<Rightarrow> 'd reply \<times> rpc_state" where
  "rpc_restore env params st =
     (case rpc_wallet st of
        None \<Rightarrow> (Inl ''no wallet'', st)
      | Some w \<Rightarrow>
          if \<not> is_object params \<or> \<not> json_contains params ''mnemonic'' then (Inl ''missing mnemonic'', st)
          else
            let m = get_string (json_index params ''mnemonic'');
                pass = (if json_contains params ''passphrase'' then get_string (json_index params ''passphrase'') else []);
                (ok, w) = restore (lib env) m pass w;
                st = st\<lparr>rpc_wallet := Some w\<rparr>
            in if \<not> ok then (Inl ''failed to restore'', st) else (Inr [(''result'', literal)], st))"


section \<open>The mining methods\<close>

definition rpc_mining_start :: "'d json \<Rightarrow> rpc_state \<Rightarrow> 'd reply \<times> rpc_state" where
  "rpc_mining_start params st =
     (case rpc_miner st of
        None \<Rightarrow> (Inl ''no miner'', st)
      | Some m \<Rightarrow>
          (let t = (if is_object params \<and> json_contains params ''threads'' then get_int (json_index params ''threads'') else 1)
           in (Inr [(''result'', literal)], st\<lparr>rpc_miner := Some (miner_start t m)\<rparr>)))"

definition rpc_mining_stop :: "rpc_state \<Rightarrow> 'd reply \<times> rpc_state" where
  "rpc_mining_stop st =
     (case rpc_miner st of
        None \<Rightarrow> (Inl ''no miner'', st)
      | Some m \<Rightarrow> (Inr [(''result'', literal)], st\<lparr>rpc_miner := Some (miner_stop m)\<rparr>))"

definition rpc_getstatus :: "('kp, 'd) rpc_env \<Rightarrow> rpc_state \<Rightarrow> 'd reply \<times> rpc_state" where
  "rpc_getstatus env st =
     (case rpc_miner st of
        None \<Rightarrow> (Inl ''no miner'', st)
      | Some m \<Rightarrow>
          (let s = JNull;
               s = assign_index s ''isMining'' (JBool (is_mining m));
               s = assign_index s ''hashrate'' (JDouble (hashrate env))
           in (Inr [(''result'', s)], st)))"

definition rpc_blockchain_info :: "rpc_state \<Rightarrow> 'd reply \<times> rpc_state" where
  "rpc_blockchain_info st = (Inr [(''result'', parse (apiBlockchainInfo st))], st)"

definition rpc_getblocktemplate :: "('kp, 'd) rpc_env \<Rightarrow> rpc_state \<Rightarrow> 'd reply \<times> rpc_state" where
  "rpc_getblocktemplate env st =
     (case rpc_chain st of
        None \<Rightarrow> (Inl ''no chain'', st)
      | Some c \<Rightarrow>
          (let h = getHeight c + 1;
               mempool_tx = (case rpc_mempool st of Some m \<Rightarrow> mempool_size m | None \<Rightarrow> 0);
               t = fold (\<lambda>(k, v) t. assign_index t k v)
                 [(''previous_hash'', JString (uint256ToHex (getBestBlockHash c))), (''height'', JInt h),
                  (''version'', json_int 1), (''time'', JInt (clock env)),
                  (''bits'', json_int (unat EASY_MINE_DIFFICULTY)), (''target'', json_int (unat EASY_MINE_DIFFICULTY)),
                  (''coinbasevalue'', JInt (getBlockSubsidy h)), (''mempool_tx_count'', json_int mempool_tx)] JNull;
               (t, st) = (case rpc_wallet st of
                   None \<Rightarrow> (t, st)
                 | Some w \<Rightarrow>
                     (let (address, w) = generateNewAddress (lib env) w
                      in (assign_index t ''coinbase_address'' (JString address), st\<lparr>rpc_wallet := Some w\<rparr>)));
               t = (case rpc_mempool st of
                   None \<Rightarrow> t
                 | Some m \<Rightarrow>
                     fold (\<lambda>tx t. assign_index t ''txs''
                             (push_back (json_index t ''txs'') (JString (hexEncode (serializeTransaction tx [])))))
                       (getBlockTemplate m) (assign_index t ''txs'' (JArray [])))
           in (Inr [(''result'', t)], st)))"

definition rpc_submit :: "('kp, 'd) rpc_env \<Rightarrow> 'd json \<Rightarrow> rpc_state \<Rightarrow> 'd reply \<times> rpc_state" where
  "rpc_submit env params st =
     (case rpc_chain st of
        None \<Rightarrow> (Inl ''no chain'', st)
      | Some c \<Rightarrow>
          if \<not> is_object params \<or> \<not> json_contains params ''blockhex'' then (Inl ''missing blockhex'', st)
          else
            let raw = hexDecode (get_string (json_index params ''blockhex''))
            in if raw = [] then (Inl ''invalid hex'', st)
               else case deserializeBlock raw of
                 None \<Rightarrow> (Inl ''failed to deserialize block'', st)
               | Some b \<Rightarrow>
                   (let submitHeight = getHeight c + 1;
                        (ok, c, fs) = addBlock (SHA256 (lib env)) (can_open env) (clock env) b submitHeight c (rpc_files st);
                        st = st\<lparr>rpc_chain := Some c, rpc_files := fs\<rparr>
                    in if \<not> ok then (Inr [(''result'', literal)], st)
                       else (Inr [(''result'', literal), (''height'', JInt submitHeight)], st)))"


section \<open>Dispatch\<close>

definition rpc_method ::
    "('kp, 'd) rpc_env \<Rightarrow> string \<Rightarrow> 'd json \<Rightarrow> rpc_state \<Rightarrow> ('d reply \<times> rpc_state) option" where
  "rpc_method env meth params st =
     (if meth = ''wallet.create'' then rpc_wallet_create env params st
      else if meth = ''wallet.getnewaddress'' then Some (rpc_getnewaddress env st)
      else if meth = ''wallet.listunspent'' then Some (rpc_listunspent env st)
      else if meth = ''wallet.sendtoaddress'' then Some (rpc_sendtoaddress env params st)
      else if meth = ''wallet.getbalance'' then Some (rpc_getbalance st)
      else if meth = ''wallet.backup'' then Some (rpc_backup env params st)
      else if meth = ''wallet.restore'' then Some (rpc_restore env params st)
      else if meth = ''mining.start'' then Some (rpc_mining_start params st)
      else if meth = ''mining.stop'' then Some (rpc_mining_stop st)
      else if meth = ''mining.getstatus'' then Some (rpc_getstatus env st)
      else if meth = ''blockchain.info'' then Some (rpc_blockchain_info st)
      else if meth = ''mining.getblocktemplate'' then Some (rpc_getblocktemplate env st)
      else if meth = ''mining.submit'' then Some (rpc_submit env params st)
      else Some (Inr [(''error'', create_object [(''code'', JInt (- 32601)), (''message'', literal)])], st))"

text \<open>\<open>None\<close> where the code's behaviour is undefined; parsing never throws.\<close>

definition handleRpcRequest ::
    "('kp, 'd) rpc_env \<Rightarrow> string \<Rightarrow> rpc_state \<Rightarrow> (string \<times> rpc_state) option" where
  "handleRpcRequest env request st =
     (let req = parse request;
          resp = assign_index JNull ''jsonrpc'' literal;
          ident = (if json_contains req ''id'' then json_index req ''id'' else JNull)
      in if \<not> json_contains req ''method'' \<or> \<not> is_string (json_index req ''method'') then
           let resp = assign_index resp ''error'' (create_object [(''code'', JInt (- 32600)), (''message'', literal)]);
               resp = assign_index resp ''id'' ident
           in Some (dump (print_double env) resp, st)
         else
           let meth = get_string (json_index req ''method'');
               params = (if json_contains req ''params'' then json_index req ''params'' else JObject [])
           in case rpc_method env meth params st of
                None \<Rightarrow> None
              | Some (reply, st) \<Rightarrow>
                  (let resp = (case reply of
                         Inr kvs \<Rightarrow> fold (\<lambda>(k, v) r. assign_index r k v) kvs resp
                       | Inl what \<Rightarrow> assign_index resp ''error''
                           (create_object [(''code'', JInt (- 32602)), (''message'', JString what)]));
                       resp = assign_index resp ''id'' ident
                   in Some (dump (print_double env) resp, st)))"


section \<open>What a request can reach\<close>

text \<open>
  The empty object is all the parameters a method ever sees, because the parser keeps only
  the method's name; and the response stays null, because every assignment to it is lost.
\<close>

lemma fold_ignore [simp]: "fold (\<lambda>(k, v) r. r) kvs r = r" "fold (\<lambda>x r. r) kvs r = r"
  by (induction kvs) auto

lemma no_params [simp]:
  "is_object (JObject [])" "\<not> is_array (JObject [])" "\<not> json_contains (JObject []) key"
  by (simp_all add: is_object_def is_array_def json_contains_def)

lemma handle_known:
  assumes "parse_method request = Some meth"
  shows "handleRpcRequest env request st =
    map_option (\<lambda>(reply, st'). (''null'', st')) (rpc_method env meth (JObject []) st)"
  using assms
  by (auto simp: handleRpcRequest_def parse_keys parse_index is_string_def get_string_def Let_def
      split: option.split sum.split)

lemma handle_unknown: "parse_method request = None \<Longrightarrow> handleRpcRequest env request st = Some (''null'', st)"
  by (simp add: handleRpcRequest_def parse_keys)

definition new_address_state :: "('kp, 'd) rpc_env \<Rightarrow> rpc_state \<Rightarrow> rpc_state" where
  "new_address_state env st =
     st\<lparr>rpc_wallet := map_option (\<lambda>w. snd (generateNewAddress (lib env) w)) (rpc_wallet st)\<rparr>"

text \<open>The whole effect of a request, by method.\<close>

definition rpc_effect :: "('kp, 'd) rpc_env \<Rightarrow> string \<Rightarrow> rpc_state \<Rightarrow> rpc_state option" where
  "rpc_effect env meth st =
     (if meth = ''wallet.create'' then
        (case rpc_wallet st of
           None \<Rightarrow> Some st
         | Some w \<Rightarrow> map_option (\<lambda>(ok, w'). st\<lparr>rpc_wallet := Some w'\<rparr>) (create (lib env) [] w))
      else if meth = ''wallet.getnewaddress'' \<or> meth = ''mining.getblocktemplate'' \<and> rpc_chain st \<noteq> None then
        Some (new_address_state env st)
      else if meth = ''mining.start'' then Some (st\<lparr>rpc_miner := map_option (miner_start 1) (rpc_miner st)\<rparr>)
      else if meth = ''mining.stop'' then Some (st\<lparr>rpc_miner := map_option miner_stop (rpc_miner st)\<rparr>)
      else Some st)"

lemma rpc_method_effect:
  "map_option snd (rpc_method env meth (JObject []) st) = rpc_effect env meth st"
proof -
  have [simp]: "st\<lparr>rpc_wallet := None\<rparr> = st" if "rpc_wallet st = None" using that by (cases st) simp
  have [simp]: "st\<lparr>rpc_miner := None\<rparr> = st" if "rpc_miner st = None" using that by (cases st) simp
  show ?thesis
    by (auto simp: rpc_method_def rpc_effect_def rpc_wallet_create_def rpc_getnewaddress_def rpc_listunspent_def
        rpc_sendtoaddress_def rpc_getbalance_def rpc_backup_def rpc_restore_def rpc_mining_start_def
        rpc_mining_stop_def rpc_getstatus_def rpc_blockchain_info_def rpc_getblocktemplate_def rpc_submit_def
        new_address_state_def Let_def split: option.split prod.split)
qed


section \<open>Payments\<close>

lemma select_utxos_facts:
  assumes "select_utxos needed us avail = (sel, tot)"
  shows "\<exists>k. sel = take k us" "tot = avail + (\<Sum>(op, e) \<leftarrow> sel. entry_amount e)"
    "unat avail + (\<Sum>(op, e) \<leftarrow> us. unat (entry_amount e)) < 2 ^ 64 \<Longrightarrow>
       unat tot = unat avail + (\<Sum>(op, e) \<leftarrow> sel. unat (entry_amount e))"
  using assms
proof (induction us arbitrary: avail sel)
  case (Cons u us)
  {
    case 1
    show ?case
    proof (cases "needed \<le> avail + entry_amount (snd u)")
      case False
      then obtain sel' where s: "select_utxos needed us (avail + entry_amount (snd u)) = (sel', tot)" "sel = u # sel'"
        using 1 by (auto simp: Let_def split: prod.splits)
      from Cons.IH(1) [OF s(1)] obtain k where "sel' = take k us" ..
      then show ?thesis using s(2) by (intro exI [of _ "Suc k"]) simp
    qed (use 1 in \<open>auto simp: Let_def intro: exI [of _ "Suc 0"]\<close>)
  next
    case 2
    then show ?case by (auto simp: Let_def add.assoc dest: Cons.IH(2) split: if_splits prod.splits)
  next
    case 3
    obtain op e where u: "u = (op, e)" by (cases u)
    have n: "unat (avail + entry_amount e) = unat avail + unat (entry_amount e)"
      using 3(1) by (subst unat_add_lem [THEN iffD1]) (auto simp: u)
    show ?case
      using 3 Cons.IH(3) [of "avail + entry_amount e"] by (auto simp: u n Let_def split: if_splits prod.splits)
  }
qed auto

lemma sign_keeps:
  assumes "signTransaction env w (Some u) tx = (True, tx')"
  shows "outputs tx' = outputs tx" "map outpoint_of (inputs tx') = map outpoint_of (inputs tx)"
proof -
  obtain ins where i: "sign_inputs env w u (signing_hash env tx) (inputs tx) = (True, ins)" "tx' = tx\<lparr>inputs := ins\<rparr>"
    using assms by (auto simp: signTransaction_def split: prod.splits)
  show "outputs tx' = outputs tx" using i(2) by simp
  have "list_all2 (\<lambda>i i'. outpoint_of i' = outpoint_of i) (inputs tx) ins"
    using sign_inputs_True [OF i(1)]
  proof (rule list_all2_mono)
    fix i i'
    assume "signed_for env w u (signing_hash env tx) i i'"
    then have "i' = i\<lparr>signature := signature i', pubkey := pubkey i'\<rparr>"
      unfolding signed_for_def by (elim exE conjE)
    then show "outpoint_of i' = outpoint_of i" by (cases i; cases i') (simp add: outpoint_of_def)
  qed
  then show "map outpoint_of (inputs tx') = map outpoint_of (inputs tx)"
    using i(2) by (simp add: list_all2_conv_all_nth list_eq_iff_nth_eq)
qed

lemma length_quote [simp]: "length quote = Suc 0"
  by (simp add: quote_def)

lemma take_drop_middle:
  "length a \<le> k \<Longrightarrow> k + n \<le> length a + length b \<Longrightarrow> take n (drop k (a @ b @ c)) = take n (drop (k - length a) b)"
  by simp

lemma find_str_at:
  assumes "pos \<le> length a" "\<And>k. pos \<le> k \<Longrightarrow> k < length a \<Longrightarrow> take (length pat) (drop k (a @ pat @ c)) \<noteq> pat"
  shows "find_str (a @ pat @ c) pat pos = Some (length a)"
  unfolding find_str_least using assms by simp

text \<open>A quote is not found in text without one.\<close>

lemma no_quote:
  assumes "length a \<le> k" "k < length a + length b" "CHR 0x22 \<notin> set b"
  shows "take (length quote) (drop k (a @ b @ c)) \<noteq> quote"
proof -
  have "take 1 (drop k (a @ b @ c)) = take 1 (drop (k - length a) b)"
    using assms by (intro take_drop_middle) simp_all
  then show ?thesis
    using assms(3) by (metis One_nat_def in_set_dropD in_set_takeD length_quote list.set_intros(1) quote_def)
qed

lemma add_change_sum:
  assumes "add_change env (tot - a - fee) (payment sha dest a chosen) w = (tx, w')"
    and "unat a + unat fee \<le> unat tot"
  shows "(\<Sum>o' \<leftarrow> outputs tx. unat (amount o')) + unat fee = unat tot" "amount (hd (outputs tx)) = a"
    "map outpoint_of (inputs tx) = map fst chosen"
proof -
  have "a \<le> tot" "fee \<le> tot - a" "unat (tot - a) = unat tot - unat a"
    using assms(2) by (simp_all add: word_le_nat_alt unat_sub)
  then have c: "unat (tot - a - fee) = unat tot - unat a - unat fee" by (simp add: unat_sub)
  show "(\<Sum>o' \<leftarrow> outputs tx. unat (amount o')) + unat fee = unat tot"
  proof (cases "0 < tot - a - fee")
    case True
    then show ?thesis
      using assms c by (auto simp: add_change_def payment_def Let_def split: prod.splits)
  next
    case False
    then have "unat tot - unat a - unat fee = 0" using c by (simp add: word_gt_0)
    then show ?thesis using False assms by (auto simp: add_change_def payment_def)
  qed
  show "amount (hd (outputs tx)) = a"
    using assms(1) by (auto simp: add_change_def payment_def Let_def split: if_splits prod.splits)
  show "map outpoint_of (inputs tx) = map fst chosen"
    using assms(1)
    by (auto simp: add_change_def payment_def outpoint_of_def Let_def split: if_splits prod.splits)
qed

lemma sum_filter_le: "(\<Sum>x \<leftarrow> filter P xs. f x) \<le> (\<Sum>x \<leftarrow> xs. f x :: nat)"
  by (induction xs) auto

lemma sum_take_le: "(\<Sum>x \<leftarrow> take k xs. f x) \<le> (\<Sum>x \<leftarrow> xs. f x :: nat)"
  by (induction xs arbitrary: k) (auto simp: take_Cons split: nat.splits)


text \<open>What a successful payment went through.\<close>

lemma send_success:
  assumes "send_to_address env dest a fee w c m st = (Inr r, st')"
  obtains es tot tx1 w1 tx m' f where
    "select_utxos (a + fee) (wallet_utxos env w (bc_utxo c)) 0 = (es, tot)" "\<not> tot < a + fee"
    "add_change env (tot - a - fee) (payment (SHA256 (lib env)) dest a es) w = (tx1, w1)"
    "signTransaction (lib env) w1 (Some (bc_utxo c)) tx1 = (True, tx)"
    "mempool_add (SHA256 (lib env)) tx fee m (rpc_feed st) = (True, m', f)"
    "r = [(''result'', JString (hexEncode (serializeTransaction tx [])))]" "rpc_mempool st' = Some m'"
proof -
  obtain es tot where sel: "select_utxos (a + fee) (wallet_utxos env w (bc_utxo c)) 0 = (es, tot)" by force
  obtain tx1 w1 where ch: "add_change env (tot - a - fee) (payment (SHA256 (lib env)) dest a es) w = (tx1, w1)" by force
  have enough: "\<not> tot < a + fee"
    using assms sel by (auto simp: send_to_address_def split: if_splits)
  obtain tx where tx: "signTransaction (lib env) w1 (Some (bc_utxo c)) tx1 = (True, tx)"
    using assms sel ch enough by (auto simp: send_to_address_def Let_def split: prod.splits if_splits)
  obtain m' f where "mempool_add (SHA256 (lib env)) tx fee m (rpc_feed st) = (True, m', f)"
    "r = [(''result'', JString (hexEncode (serializeTransaction tx [])))]" "rpc_mempool st' = Some m'"
    using assms sel ch enough tx by (auto simp: send_to_address_def Let_def split: prod.splits if_splits)
  then show ?thesis using that [OF sel enough ch tx] by blast
qed

lemma mempool_add_contains:
  "mempool_add sha tx fee m f = (True, m', f') \<Longrightarrow> map_find m' (txid sha tx) \<noteq> None"
  by (auto simp: mempool_add_def Let_def map_find_put split: if_splits prod.splits)


section \<open>A concrete payment\<close>

definition toy_rpc :: "((nat, bytes) EC_KEY, unit) rpc_env" where
  "toy_rpc = \<lparr>lib = toy_env lucky_sha, can_open = \<lambda>_. False, clock = 0, hashrate = (), print_double = \<lambda>_. []\<rparr>"

definition toy_chain :: Blockchain where
  "toy_chain = (new_blockchain lucky_sha)\<lparr>bc_utxo := toy_utxo\<rparr>"

definition toy_state :: rpc_state where
  "toy_state = \<lparr>rpc_chain = Some toy_chain, rpc_mempool = Some [], rpc_wallet = Some (toy_wallet lucky_sha),
     rpc_miner = None, rpc_files = \<lambda>_. None, rpc_feed = None\<rparr>"

lemma toy_wallet_utxos: "wallet_utxos toy_rpc (toy_wallet lucky_sha) (bc_utxo toy_chain) = toy_utxo"
proof -
  have "addressToPubKeyHash (SHA256 (lib toy_rpc)) (deriveAddressAt (lib toy_rpc) (toy_wallet lucky_sha) i) = replicate 20 0" for i
    using lucky_address lucky_derives(1) by (simp add: toy_rpc_def deriveAddressAt_def) (simp add: toy_env_def)
  then show ?thesis
    using toy_script
    by (simp add: wallet_utxos_def toy_chain_def utxo_snapshot_def toy_utxo_def getAddressCount_def lucky_keys(1) Let_def)
qed

lemma toy_lib [simp]: "lib toy_rpc = toy_env lucky_sha" "SHA256 (toy_env lucky_sha) = lucky_sha"
  by (simp_all add: toy_rpc_def toy_env_def)

lemma toy_new_address: "\<exists>address. generateNewAddress (toy_env lucky_sha) (toy_wallet lucky_sha) = (address, toy_wallet lucky_sha)"
  using lucky_nonempty by (simp add: generateNewAddress_def lucky_derives lucky_keys(1) lucky_address)
    (simp flip: lucky_keys(1))

lemma toy_payment:
  assumes "select_utxos (a + fee) toy_utxo 0 = (toy_utxo, 5)" "a + fee \<le> 5" "0 < 5 - a - fee"
    and "\<And>tx. map amount (outputs tx) = [a, 5 - a - fee] \<Longrightarrow> inputs tx \<noteq> [] \<Longrightarrow> validateTransactionStructure tx"
  shows "\<exists>r st'. send_to_address toy_rpc ''x'' a fee (toy_wallet lucky_sha) toy_chain [] toy_state = (Inr r, st')"
proof -
  obtain address where "generateNewAddress (toy_env lucky_sha) (toy_wallet lucky_sha) = (address, toy_wallet lucky_sha)"
    using toy_new_address by blast
  then obtain tx1 where ch: "add_change toy_rpc (5 - a - fee) (payment lucky_sha ''x'' a toy_utxo) (toy_wallet lucky_sha)
      = (tx1, toy_wallet lucky_sha)"
    "map amount (outputs tx1) = [a, 5 - a - fee]" "inputs tx1 = [toy_input]"
    using assms(3) by (auto simp: add_change_def payment_def toy_utxo_def toy_input_def Let_def)
  obtain sg pub where s: "signTransaction (toy_env lucky_sha) (toy_wallet lucky_sha) (Some toy_utxo) tx1
      = (True, tx1\<lparr>inputs := [toy_input\<lparr>signature := sg, pubkey := pub\<rparr>]\<rparr>)"
    using toy_signs [OF ch(3)] by blast
  let ?tx2 = "tx1\<lparr>inputs := [toy_input\<lparr>signature := sg, pubkey := pub\<rparr>]\<rparr>"
  have "validateTransactionStructure ?tx2" using ch(2) by (intro assms(4)) simp_all
  then have "fst (mempool_add lucky_sha ?tx2 fee [] None)"
    by (simp add: mempool_add_def MAX_MEMPOOL_SIZE_def Let_def split: prod.split)
  then obtain m' f where m: "mempool_add lucky_sha ?tx2 fee [] None = (True, m', f)"
    by (cases "mempool_add lucky_sha ?tx2 fee [] None") auto
  have "bc_utxo toy_chain = toy_utxo" "rpc_feed toy_state = None" by (simp_all add: toy_chain_def toy_state_def)
  then show ?thesis
    using assms(1,2) ch(1) s m toy_wallet_utxos by (simp add: send_to_address_def not_less)
qed


text \<open>The answer and the effect of a request.\<close>

lemma handle_request:
  "handleRpcRequest env request st =
     map_option (\<lambda>st'. (''null'', st'))
       (case parse_method request of None \<Rightarrow> Some st | Some meth \<Rightarrow> rpc_effect env meth st)"
proof (cases "parse_method request")
  case None
  then show ?thesis by (simp add: handle_unknown)
next
  case (Some meth)
  then show ?thesis
    by (simp add: handle_known option.map_comp o_def split_def flip: rpc_method_effect)
qed

text \<open>The name of the method, found behind the word \<^verbatim>\<open>method\<close>.\<close>

lemma parse_method_member:
  assumes "find_str (pre @ quote @ ''method'' @ quote) (quote @ ''method'' @ quote) 0 = Some (length pre)"
    and "CHR 0x22 \<notin> set meth" "CHR 0x22 \<notin> set gap"
  shows "parse_method (pre @ quote @ ''method'' @ quote @ '':'' @ gap @ quote @ meth @ quote @ rest) = Some meth"
proof -
  let ?pat = "quote @ ''method'' @ quote"
  let ?s = "pre @ ?pat @ '':'' @ gap @ quote @ meth @ quote @ rest"
  have pat: "length ?pat = 8" by simp
  have 1: "find_str ?s ?pat 0 = Some (length pre)"
  proof (rule find_str_at)
    fix k
    assume k: "k < length pre"
    have "take 8 (drop k ([] @ (pre @ ?pat) @ '':'' @ gap @ quote @ meth @ quote @ rest))
        = take 8 (drop (k - length ([] :: string)) (pre @ ?pat))"
      using k by (intro take_drop_middle) simp_all
    moreover have "take (length ?pat) (drop k (pre @ ?pat)) \<noteq> ?pat"
      using assms(1) k unfolding find_str_least by blast
    ultimately show "take (length ?pat) (drop k ?s) \<noteq> ?pat"
      unfolding pat by (simp only: append_assoc append_Nil list.size diff_zero simp_thms)
  qed simp
  have 2: "find_str ((pre @ ?pat) @ '':'' @ gap @ quote @ meth @ quote @ rest) '':'' (length pre) = Some (length (pre @ ?pat))"
  proof (rule find_str_at)
    fix k
    assume k: "length pre \<le> k" "k < length (pre @ ?pat)"
    have "take 1 (drop k (pre @ ?pat @ '':'' @ gap @ quote @ meth @ quote @ rest)) = take 1 (drop (k - length pre) ?pat)"
      using k by (intro take_drop_middle) simp_all
    moreover have "CHR '':'' \<notin> set ?pat" by (simp add: quote_def)
    ultimately show "take (length '':'') (drop k ((pre @ ?pat) @ '':'' @ gap @ quote @ meth @ quote @ rest)) \<noteq> '':''"
      unfolding append_assoc by (metis One_nat_def in_set_dropD in_set_takeD length_Cons list.set_intros(1) list.size(3))
  qed simp
  have 3: "find_str ((pre @ ?pat @ '':'' @ gap) @ quote @ meth @ quote @ rest) quote (length (pre @ ?pat))
      = Some (length (pre @ ?pat @ '':'' @ gap))"
    using no_quote [of "pre @ ?pat" _ "'':'' @ gap" "quote @ meth @ quote @ rest"] assms(3)
    by (intro find_str_at) simp_all
  have 4: "find_str ((pre @ ?pat @ '':'' @ gap @ quote @ meth) @ quote @ rest) quote (length (pre @ ?pat @ '':'' @ gap) + 1)
      = Some (length (pre @ ?pat @ '':'' @ gap @ quote @ meth))"
    using no_quote [of "pre @ ?pat @ '':'' @ gap @ quote" _ meth "quote @ rest"] assms(2)
    by (intro find_str_at) simp_all
  have "substr ?s (length (pre @ ?pat @ '':'' @ gap) + 1)
      (length (pre @ ?pat @ '':'' @ gap @ quote @ meth) - length (pre @ ?pat @ '':'' @ gap) - 1) = meth"
  proof -
    have "drop (length a) (a @ b) = b" for a b :: string by simp
    moreover have "length (pre @ ?pat @ '':'' @ gap) + 1 = length (pre @ ?pat @ '':'' @ gap @ quote)" by simp
    ultimately have "drop (length (pre @ ?pat @ '':'' @ gap) + 1)
        ((pre @ ?pat @ '':'' @ gap @ quote) @ meth @ quote @ rest) = meth @ quote @ rest"
      by presburger
    then have "drop (length (pre @ ?pat @ '':'' @ gap) + 1) ?s = meth @ quote @ rest"
      by (simp only: append_assoc)
    then show ?thesis by (simp add: substr_def)
  qed
  then show ?thesis
    unfolding parse_method_def using 1 2 3 4 by (simp only: append_assoc option.case)
qed


section \<open>Properties\<close>


text \<open>
  The name of the method is what stands between the first two quotes behind the first
  colon behind the first \<^verbatim>\<open>"method"\<close> of the request, wherever that stands: for a request that
  has the member \<^verbatim>\<open>"method": "name"\<close> behind text without that word, it is that name.
\<close>

theorem method_extracted:
  assumes "find_str (pre @ quote @ ''method'' @ quote) (quote @ ''method'' @ quote) 0 = Some (length pre)"
    and "CHR 0x22 \<notin> set meth" "CHR 0x22 \<notin> set gap"
  shows "parse_method (pre @ quote @ ''method'' @ quote @ '':'' @ gap @ quote @ meth @ quote @ rest) = Some meth"
  using assms by (rule parse_method_member)

theorem method_extracted_witness:
  "parse_method (''{'' @ quote @ ''id'' @ quote @ '':1,'' @ quote @ ''method'' @ quote @ '':'' @ '' '' @ quote
     @ ''mining.stop'' @ quote @ ''}'') = Some ''mining.stop''"
proof -
  have "find_str ((''{'' @ quote @ ''id'' @ quote @ '':1,'') @ quote @ ''method'' @ quote) (quote @ ''method'' @ quote) 0
      = Some (length (''{'' @ quote @ ''id'' @ quote @ '':1,''))"
    unfolding find_str_least by (auto simp: quote_def less_Suc_eq numeral_eq_Suc)
  from method_extracted [OF this, of "''mining.stop''" "'' ''" "''}''"] show ?thesis by simp
qed

text \<open>
  C36. A payment balances. When \<^verbatim>\<open>wallet.sendtoaddress\<close> answers, and neither the coins nor the
  amount and fee exceed 64 bits, the transaction it reports spends outputs of the wallet that
  are unspent, pays the amount first, and its outputs and the fee add up exactly to what it
  spends; it is in the memory pool.
\<close>

theorem payment_balanced:
  assumes "send_to_address env dest a fee w c m st = (Inr r, st')"
    and "(\<Sum>(op, e) \<leftarrow> bc_utxo c. unat (entry_amount e)) < 2 ^ 64" "unat a + unat fee < 2 ^ 64"
  shows "\<exists>tx es m'. r = [(''result'', JString (hexEncode (serializeTransaction tx [])))]
    \<and> set es \<subseteq> set (wallet_utxos env w (bc_utxo c)) \<and> map outpoint_of (inputs tx) = map fst es
    \<and> amount (hd (outputs tx)) = a
    \<and> (\<Sum>(op, e) \<leftarrow> es. unat (entry_amount e)) = (\<Sum>o' \<leftarrow> outputs tx. unat (amount o')) + unat fee
    \<and> rpc_mempool st' = Some m' \<and> map_find m' (txid (SHA256 (lib env)) tx) \<noteq> None"
proof -
  let ?us = "wallet_utxos env w (bc_utxo c)"
  from assms(1) obtain es tot tx1 w1 tx m' f where sel: "select_utxos (a + fee) ?us 0 = (es, tot)"
    and enough: "\<not> tot < a + fee"
    and ch: "add_change env (tot - a - fee) (payment (SHA256 (lib env)) dest a es) w = (tx1, w1)"
    and tx: "signTransaction (lib env) w1 (Some (bc_utxo c)) tx1 = (True, tx)"
    and m: "mempool_add (SHA256 (lib env)) tx fee m (rpc_feed st) = (True, m', f)"
      "r = [(''result'', JString (hexEncode (serializeTransaction tx [])))]" "rpc_mempool st' = Some m'"
    by (rule send_success)
  have "(\<Sum>(op, e) \<leftarrow> ?us. unat (entry_amount e)) \<le> (\<Sum>(op, e) \<leftarrow> bc_utxo c. unat (entry_amount e))"
    unfolding wallet_utxos_def utxo_snapshot_def by (rule sum_filter_le)
  then have tot: "unat tot = (\<Sum>(op, e) \<leftarrow> es. unat (entry_amount e))"
    using select_utxos_facts(3) [OF sel] assms(2) by simp
  have "unat (a + fee) = unat a + unat fee" using assms(3) by (simp add: unat_add_lem [THEN iffD1])
  then have le: "unat a + unat fee \<le> unat tot" using enough by (simp add: word_less_nat_alt)
  note out = add_change_sum [OF ch le] and signed = sign_keeps [OF tx]
  obtain k where "es = take k ?us" using select_utxos_facts(1) [OF sel] by blast
  then have "set es \<subseteq> set ?us" by (simp add: set_take_subset)
  moreover have "map_find m' (txid (SHA256 (lib env)) tx) \<noteq> None"
    using m(1) by (rule mempool_add_contains)
  ultimately show ?thesis
    using m(2,3) out signed tot by (intro exI [of _ tx] exI [of _ es] exI [of _ m']) simp
qed


theorem payment_balanced_witness:
  "\<exists>r st' tx. send_to_address toy_rpc ''x'' 3 1 (toy_wallet lucky_sha) toy_chain [] toy_state = (Inr r, st')
     \<and> r = [(''result'', JString (hexEncode (serializeTransaction tx [])))] \<and> amount (hd (outputs tx)) = 3"
proof -
  have "\<exists>r st'. send_to_address toy_rpc ''x'' 3 1 (toy_wallet lucky_sha) toy_chain [] toy_state = (Inr r, st')"
  proof (rule toy_payment)
    show "validateTransactionStructure tx" if "map amount (outputs tx) = [3, 5 - 3 - 1]" "inputs tx \<noteq> []" for tx
      using that by (auto simp: validateTransactionStructure_def coin_params)
  qed (simp_all add: toy_utxo_def)
  then obtain r st' where s: "send_to_address toy_rpc ''x'' 3 1 (toy_wallet lucky_sha) toy_chain [] toy_state = (Inr r, st')"
    by blast
  have "(\<Sum>(op, e) \<leftarrow> bc_utxo toy_chain. unat (entry_amount e)) < 2 ^ 64" by (simp add: toy_chain_def toy_utxo_def)
  from s payment_balanced [OF s this] show ?thesis by auto
qed

text \<open>
  The sum of amount and fee is not checked for overflow. With a fee that makes it wrap
  around to zero, a payment that is answered spends one output only and pays the whole of it
  back besides the amount: its outputs exceed its inputs by the amount.
\<close>

theorem fee_wraps_around:
  assumes "send_to_address env dest a (- a) w c m st = (Inr r, st')" "wallet_utxos env w (bc_utxo c) = (op, e) # us"
    and "entry_amount e \<noteq> 0" "unat a + unat (entry_amount e) < 2 ^ 64"
  shows "\<exists>tx m'. r = [(''result'', JString (hexEncode (serializeTransaction tx [])))]
    \<and> map outpoint_of (inputs tx) = [op]
    \<and> (\<Sum>o' \<leftarrow> outputs tx. unat (amount o')) = unat (entry_amount e) + unat a
    \<and> rpc_mempool st' = Some m' \<and> map_find m' (txid (SHA256 (lib env)) tx) \<noteq> None"
proof -
  from assms(1) obtain es tot tx1 w1 tx m' f where sel: "select_utxos (a + - a) (wallet_utxos env w (bc_utxo c)) 0 = (es, tot)"
    and ch: "add_change env (tot - a - - a) (payment (SHA256 (lib env)) dest a es) w = (tx1, w1)"
    and tx: "signTransaction (lib env) w1 (Some (bc_utxo c)) tx1 = (True, tx)"
    and m: "mempool_add (SHA256 (lib env)) tx (- a) m (rpc_feed st) = (True, m', f)"
      "r = [(''result'', JString (hexEncode (serializeTransaction tx [])))]" "rpc_mempool st' = Some m'"
    by (rule send_success)
  have "es = [(op, e)]" "tot = entry_amount e"
    using sel by (auto simp: assms(2))
  then have "map amount (outputs tx1) = [a, entry_amount e]" "map outpoint_of (inputs tx1) = [op]"
    using ch assms(3) by (auto simp: add_change_def payment_def outpoint_of_def word_gt_0 Let_def split: prod.splits)
  then have "map amount (outputs tx) = [a, entry_amount e]" "map outpoint_of (inputs tx) = [op]"
    using sign_keeps [OF tx] by simp_all
  then show ?thesis
    using m(2,3) mempool_add_contains [OF m(1)]
    by (intro exI [of _ tx] exI [of _ m']) (auto simp: map_eq_Cons_conv)
qed

theorem fee_wraps_around_witness:
  "\<exists>r st' tx. send_to_address toy_rpc ''x'' 3 (- 3) (toy_wallet lucky_sha) toy_chain [] toy_state = (Inr r, st')
     \<and> r = [(''result'', JString (hexEncode (serializeTransaction tx [])))]
     \<and> (\<Sum>o' \<leftarrow> outputs tx. unat (amount o')) = 8"
proof -
  have "\<exists>r st'. send_to_address toy_rpc ''x'' 3 (- 3) (toy_wallet lucky_sha) toy_chain [] toy_state = (Inr r, st')"
  proof (rule toy_payment)
    show "validateTransactionStructure tx" if "map amount (outputs tx) = [3, 5 - 3 - - 3]" "inputs tx \<noteq> []" for tx
      using that by (auto simp: validateTransactionStructure_def coin_params)
  qed (simp_all add: toy_utxo_def)
  then obtain r st' where s: "send_to_address toy_rpc ''x'' 3 (- 3) (toy_wallet lucky_sha) toy_chain [] toy_state = (Inr r, st')"
    by blast
  have "wallet_utxos toy_rpc (toy_wallet lucky_sha) (bc_utxo toy_chain)
      = [(OutPoint uint256_zero 0, \<lparr>entry_amount = 5, entry_script = [0x76, 0xa9, 0x14] @ replicate 20 0 @ [0x88, 0xac]\<rparr>)]"
    unfolding toy_wallet_utxos toy_utxo_def ..
  from s fee_wraps_around [OF s this] show ?thesis by auto
qed

end
