(* ===== verification/Server.thy ===== *)
theory Server
  imports Rpc "HOL-Library.Signed_Division"
begin

text \<open>
  \<^verbatim>\<open>src/rpc/server.cpp\<close>: basic authentication and the request handler. The HTTP library
  is left out: a request is its \<^verbatim>\<open>authorization\<close> header (empty when absent), whether its
  method is \<^verbatim>\<open>POST\<close>, and its body; starting and stopping the server is in \<open>RpcService\<close>. The
  build sets \<^verbatim>\<open>-fno-strict-overflow\<close>, so the accumulator \<^verbatim>\<open>val\<close> of \<^verbatim>\<open>base64_decode\<close> is a 32-bit
  word that wraps.
\<close>

section \<open>Base 64\<close>

definition base64_alphabet :: string where
  "base64_alphabet = ''ABCDEFGHIJKLMNOPQRSTUVWXYZabcdefghijklmnopqrstuvwxyz0123456789+/''"

definition base64_table :: "int list" where
  "base64_table = fold (\<lambda>i T. T[of_char (base64_alphabet ! i) := int i]) [0..<64] (replicate 256 (- 1))"

fun base64_loop :: "string \<Rightarrow> u32 \<Rightarrow> int \<Rightarrow> string \<Rightarrow> string" where
  "base64_loop [] val valb out = out"
| "base64_loop (c # cs) val valb out =
     (let t = base64_table ! of_char c
      in if t = - 1 then out
         else
           let val = push_bit 6 val + word_of_int t;
               valb = valb + 6
           in if 0 \<le> valb
              then base64_loop cs val (valb - 8) (out @ [char_of (unat (signed_drop_bit (nat valb) val AND 0xff))])
              else base64_loop cs val valb out)"

definition base64_decode :: "string \<Rightarrow> string" where
  "base64_decode s = base64_loop s 0 (- 8) []"


section \<open>Requests\<close>

datatype http_response = Unauthorized | Forbidden | Method_Not_Allowed | Answer string

definition authorized :: "string \<Rightarrow> string \<Rightarrow> string \<Rightarrow> http_response option" where
  "authorized user password auth =
     (if user \<noteq> [] \<or> password \<noteq> [] then
        if auth = [] \<or> take 6 auth \<noteq> ''Basic '' then Some Unauthorized
        else
          let encoded = drop 6 auth;
              decoded = base64_decode encoded;
              expected = user @ '':'' @ password
          in if decoded \<noteq> expected then Some Forbidden else None
      else None)"

definition request_handler ::
    "('kp, 'd) rpc_env \<Rightarrow> string \<Rightarrow> string \<Rightarrow> string \<Rightarrow> bool \<Rightarrow> string \<Rightarrow> rpc_state \<Rightarrow> (http_response \<times> rpc_state) option" where
  "request_handler env user password auth post body st =
     (case authorized user password auth of
        Some refusal \<Rightarrow> Some (refusal, st)
      | None \<Rightarrow>
          if \<not> post then Some (Method_Not_Allowed, st)
          else case handleRpcRequest env body st of
            None \<Rightarrow> None
          | Some (response, st) \<Rightarrow> Some (Answer response, st))"

section \<open>The encoding\<close>

text \<open>The standard's encoding, as the reference: three bytes are four digits, with padding.\<close>

definition digit64 :: "nat \<Rightarrow> char" where
  "digit64 n = base64_alphabet ! n"

fun rfc4648_encode :: "string \<Rightarrow> string" where
  "rfc4648_encode [] = []"
| "rfc4648_encode [a] = [digit64 (of_char a div 4), digit64 (of_char a mod 4 * 16), CHR ''='', CHR ''='']"
| "rfc4648_encode [a, b] =
     [digit64 (of_char a div 4), digit64 (of_char a mod 4 * 16 + of_char b div 16),
      digit64 (of_char b mod 16 * 4), CHR ''='']"
| "rfc4648_encode (a # b # c # s) =
     [digit64 (of_char a div 4), digit64 (of_char a mod 4 * 16 + of_char b div 16),
      digit64 (of_char b mod 16 * 4 + of_char c div 64), digit64 (of_char c mod 64)] @ rfc4648_encode s"

lemma fold_updates:
  assumes "\<forall>i<n. f i < length T"
  shows "length (fold (\<lambda>i T. T[f i := g i]) [0..<n] T) = length T"
    and "\<lbrakk>j < n; inj_on f {..<n}\<rbrakk> \<Longrightarrow> fold (\<lambda>i T. T[f i := g i]) [0..<n] T ! f j = g j"
    and "k \<notin> f ` {..<n} \<Longrightarrow> fold (\<lambda>i T. T[f i := g i]) [0..<n] T ! k = T ! k"
proof -
  show len: "length (fold (\<lambda>i T. T[f i := g i]) [0..<n] T) = length T" for n
    by (induction n) simp_all
  show "fold (\<lambda>i T. T[f i := g i]) [0..<n] T ! f j = g j" if "j < n" "inj_on f {..<n}"
    using that assms
  proof (induction n)
    case (Suc n)
    show ?case
    proof (cases "j = n")
      case True
      then show ?thesis using Suc.prems by (simp add: len)
    next
      case False
      then have "f j \<noteq> f n" using Suc.prems by (auto dest: inj_onD)
      moreover have "inj_on f {..<n}" using Suc.prems(2) by (rule inj_on_subset) auto
      ultimately show ?thesis using Suc False by (simp add: len)
    qed
  qed simp
  show "fold (\<lambda>i T. T[f i := g i]) [0..<n] T ! k = T ! k" if "k \<notin> f ` {..<n}"
    using that by (induction n) (auto simp: lessThan_Suc)
qed

lemma alphabet_facts: "length base64_alphabet = 64" "distinct base64_alphabet" "CHR ''='' \<notin> set base64_alphabet"
  by (simp_all add: base64_alphabet_def)

lemma base64_table_nth:
  "n < 64 \<Longrightarrow> base64_table ! of_char (digit64 n) = int n" "base64_table ! of_char (CHR ''='') = - 1"
proof -
  let ?f = "\<lambda>i. of_char (base64_alphabet ! i) :: nat"
  have b: "\<forall>i<64. ?f i < length (replicate 256 (- 1 :: int))" by simp
  have inj: "inj_on ?f {..<64}"
    using alphabet_facts by (intro inj_onI) (simp add: nth_eq_iff_index_eq)
  show "base64_table ! of_char (digit64 n) = int n" if "n < 64"
    unfolding base64_table_def digit64_def using fold_updates(2) [OF b that inj] .
  have "of_char (CHR ''='') \<noteq> ?f i" if "i < 64" for i
    unfolding of_char_eq_iff using alphabet_facts(1,3) that by (metis nth_mem)
  then have "of_char (CHR ''='') \<notin> ?f ` {..<64}" by blast
  then show "base64_table ! of_char (CHR ''='') = - 1"
    unfolding base64_table_def using fold_updates(3) [OF b] by simp
qed

text \<open>The eight bits read from the accumulator, and what adding a digit does to its low bits.\<close>

lemma shifted_bits:
  assumes "n + m \<le> 32"
  shows "unat (signed_drop_bit n (v :: u32) AND mask m) = unat v div 2 ^ n mod 2 ^ m"
proof -
  have e: "signed_drop_bit n v AND mask m = take_bit m (drop_bit n v)"
    by (rule bit_word_eqI) (use assms in \<open>auto simp: bit_simps\<close>)
  have "unat (take_bit m (drop_bit n v)) = take_bit m (unat v div 2 ^ n)"
    by (simp only: unsigned_take_bit_eq unat_drop_bit_div)
  then show ?thesis unfolding e by (simp only: take_bit_eq_mod [where 'a = nat])
qed

lemma low_byte:
  assumes "n \<le> 24"
  shows "unat (signed_drop_bit n (v :: u32) AND 0xff) = unat v div 2 ^ n mod 256"
  using shifted_bits [of n 8 v] assms by (simp add: mask_eq_exp_minus_1)

lemma appended_bits:
  assumes "k + s \<le> 32"
  shows "unat (push_bit s v + word_of_nat d :: u32) mod 2 ^ (k + s) = (unat v mod 2 ^ k * 2 ^ s + d) mod 2 ^ (k + s)"
proof -
  have "unat (push_bit s v) = unat v * 2 ^ s mod 2 ^ 32"
    by (simp only: unsigned_push_bit_eq take_bit_eq_mod [where 'a = nat] push_bit_eq_mult [where 'a = nat]) simp
  then have "unat (push_bit s v + word_of_nat d :: u32) = (unat v * 2 ^ s + d) mod 2 ^ 32"
    by (simp add: unat_word_ariths unat_of_nat mod_simps)
  moreover have "(2 :: nat) ^ (k + s) dvd 2 ^ 32" using assms by (intro le_imp_power_dvd) simp
  ultimately have "unat (push_bit s v + word_of_nat d :: u32) mod 2 ^ (k + s) = (unat v * 2 ^ s + d) mod 2 ^ (k + s)"
    by (simp add: mod_mod_cancel)
  also have "\<dots> = (unat v * 2 ^ s mod 2 ^ (k + s) + d) mod 2 ^ (k + s)"
    by (simp only: mod_add_left_eq)
  also have "unat v * 2 ^ s mod 2 ^ (k + s) = unat v mod 2 ^ k * 2 ^ s"
    using mult_mod_left [of "unat v" "2 ^ k" "2 ^ s"] by (simp add: power_add)
  finally show ?thesis .
qed

lemma low_bits:
  assumes "k \<le> 26"
  shows "unat (push_bit 6 v + word_of_int (int d) :: u32) mod 2 ^ (k + 6) = (unat v mod 2 ^ k * 64 + d) mod 2 ^ (k + 6)"
  using appended_bits [of k 6 v d] assms by simp

lemma base64_step:
  assumes "n < 64" "valb \<le> 18"
  shows "base64_loop (digit64 n # cs) val valb out =
    (if 0 \<le> valb + 6
     then base64_loop cs (push_bit 6 val + word_of_int (int n)) (valb - 2)
       (out @ [char_of (unat (push_bit 6 val + word_of_int (int n) :: u32) div 2 ^ nat (valb + 6) mod 256)])
     else base64_loop cs (push_bit 6 val + word_of_int (int n)) (valb + 6) out)"
  using assms by (simp add: base64_loop.simps(2) base64_table_nth Let_def low_byte del: push_bit_numeral)

lemma base64_stop [simp]: "base64_loop (CHR ''='' # cs) val valb out = out"
proof -
  have "base64_table ! of_char (CHR ''='') = - 1" by (rule base64_table_nth(2))
  then show ?thesis by (simp add: Let_def)
qed

lemma base64_nil: "base64_loop [] val valb out = out"
  by simp

declare base64_loop.simps [simp del]
declare base64_nil [simp]

text \<open>The low twelve bits of the accumulator are its last two digits.\<close>

definition last_digits :: "u32 \<Rightarrow> nat \<Rightarrow> nat \<Rightarrow> bool" where
  "last_digits val d e \<longleftrightarrow> unat val mod 2 ^ 12 = d * 64 + e \<and> d < 64 \<and> e < 64"

lemma last_digits_step:
  assumes "unat val mod 2 ^ 6 = d" "e < 64"
  shows "last_digits (push_bit 6 val + word_of_int (int e)) d e"
proof -
  have "d < 64" using assms(1) by auto
  then show ?thesis
    using low_bits [of 6 val e] assms by (simp add: last_digits_def)
qed

lemma last_digits_low: "last_digits val d e \<Longrightarrow> unat val mod 2 ^ 6 = e"
  using mod_mod_cancel [of "2 ^ 6" "2 ^ 12" "unat val"] by (auto simp: last_digits_def)

lemma last_digits_byte:
  assumes "last_digits val d e" "n \<le> 4"
  shows "unat val div 2 ^ n mod 256 = (d * 64 + e) div 2 ^ n mod 256"
proof -
  have "n + 8 \<le> 12" using assms(2) by simp
  then have "(2 :: nat) ^ (n + 8) dvd 2 ^ 12" by (rule le_imp_power_dvd)
  then have "unat val mod 2 ^ (n + 8) = unat val mod 2 ^ 12 mod 2 ^ (n + 8)"
    by (rule mod_mod_cancel [symmetric])
  also have "unat val mod 2 ^ 12 = d * 64 + e"
    using assms(1) unfolding last_digits_def by (rule conjunct1)
  finally have "unat val mod 2 ^ (n + 8) = (d * 64 + e) mod 2 ^ (n + 8)" .
  moreover have "x div 2 ^ n mod 256 = x mod 2 ^ (n + 8) div 2 ^ n" for x :: nat
    using mod_mult2_eq [of x "2 ^ n" 256] by (simp add: power_add)
  ultimately show ?thesis by simp
qed

lemma base64_pair:
  assumes "d < 64" "e < 64"
  shows "\<exists>val'. last_digits val' d e \<and> (\<forall>cs out. base64_loop (digit64 d # digit64 e # cs) val (- 8) out
      = base64_loop cs val' (- 4) (out @ [char_of ((d * 64 + e) div 16 mod 256)]))"
proof -
  let ?v = "push_bit 6 val + word_of_int (int d) :: u32"
  have "unat ?v mod 2 ^ 6 = d" using low_bits [of 0 val d] assms(1) by simp
  note l = last_digits_step [OF this assms(2)]
  show ?thesis
    using l last_digits_byte [OF l, of 4] assms
    by (intro exI [of _ "push_bit 6 ?v + word_of_int (int e)"]) (simp add: base64_step)
qed

lemma base64_third:
  assumes "last_digits val d e" "f < 64"
  shows "\<exists>val'. last_digits val' e f \<and> (\<forall>cs out. base64_loop (digit64 f # cs) val (- 4) out
      = base64_loop cs val' (- 6) (out @ [char_of ((e * 64 + f) div 4 mod 256)]))"
proof -
  note l = last_digits_step [OF last_digits_low [OF assms(1)] assms(2)]
  show ?thesis
    using l last_digits_byte [OF l, of 2] assms(2)
    by (intro exI [of _ "push_bit 6 val + word_of_int (int f)"]) (simp add: base64_step)
qed

lemma base64_fourth:
  assumes "last_digits val e f" "g < 64"
  shows "\<exists>val'. \<forall>cs out. base64_loop (digit64 g # cs) val (- 6) out
      = base64_loop cs val' (- 8) (out @ [char_of ((f * 64 + g) mod 256)])"
proof -
  note l = last_digits_step [OF last_digits_low [OF assms(1)] assms(2)]
  show ?thesis
    using last_digits_byte [OF l, of 0] assms(2)
    by (intro exI [of _ "push_bit 6 val + word_of_int (int g)"]) (simp add: base64_step)
qed

lemma byte_less [simp]: "of_char (c :: char) < (256 :: nat)"
  using nat_of_char_less_256 [of c] by simp

lemma digit_arith:
  fixes a b c :: nat
  assumes "a < 256" "b < 256" "c < 256"
  shows "a div 4 < 64" "a mod 4 * 16 + b div 16 < 64" "b mod 16 * 4 + c div 64 < 64" "c mod 64 < 64"
    "(a div 4 * 64 + (a mod 4 * 16 + b div 16)) div 16 mod 256 = a"
    "((a mod 4 * 16 + b div 16) * 64 + (b mod 16 * 4 + c div 64)) div 4 mod 256 = b"
    "((b mod 16 * 4 + c div 64) * 64 + c mod 64) mod 256 = c"
proof -
  show "a div 4 < 64" "a mod 4 * 16 + b div 16 < 64" "b mod 16 * 4 + c div 64 < 64" "c mod 64 < 64"
    using assms by linarith+
  have "p * 64 + (q * 16 + r) = (p * 4 + q) * 16 + r" for p q r :: nat by simp
  then have "a div 4 * 64 + (a mod 4 * 16 + b div 16) = (a div 4 * 4 + a mod 4) * 16 + b div 16" .
  also have "\<dots> = a * 16 + b div 16" by (simp only: div_mult_mod_eq)
  finally show "(a div 4 * 64 + (a mod 4 * 16 + b div 16)) div 16 mod 256 = a" using assms by simp
  have "(p * 16 + q) * 64 + (r * 4 + t) = (p * 256 + (q * 16 + r)) * 4 + t" for p q r t :: nat by simp
  then have "(a mod 4 * 16 + b div 16) * 64 + (b mod 16 * 4 + c div 64)
      = (a mod 4 * 256 + (b div 16 * 16 + b mod 16)) * 4 + c div 64" .
  also have "\<dots> = (a mod 4 * 256 + b) * 4 + c div 64" by (simp only: div_mult_mod_eq)
  finally have e: "(a mod 4 * 16 + b div 16) * 64 + (b mod 16 * 4 + c div 64) = (a mod 4 * 256 + b) * 4 + c div 64" .
  have "t < 4 \<Longrightarrow> (q * 4 + t) div 4 = q" for q t :: nat by simp
  from this [of "c div 64"] have quarter: "(q * 4 + c div 64) div 4 = q" for q using assms(3) by simp
  show "((a mod 4 * 16 + b div 16) * 64 + (b mod 16 * 4 + c div 64)) div 4 mod 256 = b"
    unfolding e quarter using assms(2) by simp
  have "(p * 4 + q) * 64 + r = p * 256 + (q * 64 + r)" for p q r :: nat by simp
  then have "(b mod 16 * 4 + c div 64) * 64 + c mod 64 = b mod 16 * 256 + (c div 64 * 64 + c mod 64)" .
  also have "\<dots> = b mod 16 * 256 + c" by (simp only: div_mult_mod_eq)
  finally have e: "(b mod 16 * 4 + c div 64) * 64 + c mod 64 = b mod 16 * 256 + c" .
  show "((b mod 16 * 4 + c div 64) * 64 + c mod 64) mod 256 = c"
    unfolding e using assms(3) by simp
qed

text \<open>One, two and three bytes: the digits are read back as the bytes.\<close>

lemma base64_bytes:
  assumes x: "d < 64" "e < 64" and a: "(d * 64 + e) div 16 mod 256 = of_char a"
  shows "\<exists>v1. last_digits v1 d e \<and> (\<forall>cs out. base64_loop (digit64 d # digit64 e # cs) val (- 8) out
      = base64_loop cs v1 (- 4) (out @ [a]))"
    and "\<lbrakk>f < 64; (e * 64 + f) div 4 mod 256 = of_char b\<rbrakk> \<Longrightarrow>
      \<exists>v2. last_digits v2 e f \<and> (\<forall>cs out. base64_loop (digit64 d # digit64 e # digit64 f # cs) val (- 8) out
      = base64_loop cs v2 (- 6) (out @ [a, b]))"
    and "\<lbrakk>f < 64; (e * 64 + f) div 4 mod 256 = of_char b; g < 64; (f * 64 + g) mod 256 = of_char c\<rbrakk> \<Longrightarrow>
      \<exists>v3. \<forall>cs out. base64_loop (digit64 d # digit64 e # digit64 f # digit64 g # cs) val (- 8) out
      = base64_loop cs v3 (- 8) (out @ [a, b, c])"
proof -
  from base64_pair [OF x, of val] obtain v1 where v1: "last_digits v1 d e"
    "\<And>cs out. base64_loop (digit64 d # digit64 e # cs) val (- 8) out = base64_loop cs v1 (- 4) (out @ [a])"
    unfolding a by auto
  then show "\<exists>v1. last_digits v1 d e \<and> (\<forall>cs out. base64_loop (digit64 d # digit64 e # cs) val (- 8) out
      = base64_loop cs v1 (- 4) (out @ [a]))" by blast
  have two: "\<exists>v2. last_digits v2 e f \<and> (\<forall>cs out. base64_loop (digit64 d # digit64 e # digit64 f # cs) val (- 8) out
      = base64_loop cs v2 (- 6) (out @ [a, b]))"
    if f: "f < 64" and b: "(e * 64 + f) div 4 mod 256 = of_char b"
  proof -
    from base64_third [OF v1(1) f] obtain v2 where "last_digits v2 e f"
      "\<And>cs out. base64_loop (digit64 f # cs) v1 (- 4) out = base64_loop cs v2 (- 6) (out @ [b])"
      unfolding b by auto
    then show ?thesis using v1(2) by (intro exI [of _ v2]) simp
  qed
  then show "\<lbrakk>f < 64; (e * 64 + f) div 4 mod 256 = of_char b\<rbrakk> \<Longrightarrow>
      \<exists>v2. last_digits v2 e f \<and> (\<forall>cs out. base64_loop (digit64 d # digit64 e # digit64 f # cs) val (- 8) out
      = base64_loop cs v2 (- 6) (out @ [a, b]))" .
  show "\<exists>v3. \<forall>cs out. base64_loop (digit64 d # digit64 e # digit64 f # digit64 g # cs) val (- 8) out
      = base64_loop cs v3 (- 8) (out @ [a, b, c])"
    if "f < 64" "(e * 64 + f) div 4 mod 256 = of_char b" and g: "g < 64" and c: "(f * 64 + g) mod 256 = of_char c"
  proof -
    from two [OF that(1,2)] obtain v2 where v2: "last_digits v2 e f"
      "\<And>cs out. base64_loop (digit64 d # digit64 e # digit64 f # cs) val (- 8) out = base64_loop cs v2 (- 6) (out @ [a, b])"
      by auto
    from base64_fourth [OF v2(1) g] obtain v3 where
      "\<And>cs out. base64_loop (digit64 g # cs) v2 (- 6) out = base64_loop cs v3 (- 8) (out @ [c])"
      unfolding c by auto
    then show ?thesis using v2(2) by (intro exI [of _ v3]) simp
  qed
qed

lemma base64_decode_loop: "base64_loop (rfc4648_encode s) val (- 8) out = out @ s"
proof (induction s arbitrary: val out rule: rfc4648_encode.induct)
  case (2 a)
  note ar = digit_arith [OF byte_less [of a], of 0 0]
  from base64_bytes(1) [OF ar(1,2,5), of val] show ?case by auto
next
  case (3 a b)
  note ar = digit_arith [OF byte_less [of a] byte_less [of b], of 0]
  from base64_bytes(2) [OF ar(1,2,5) ar(3,6), of val] show ?case by auto
next
  case (4 a b c s)
  note ar = digit_arith [OF byte_less [of a] byte_less [of b] byte_less [of c]]
  from base64_bytes(3) [OF ar(1,2,5) ar(3,6) ar(4,7), of val] show ?case using 4 by auto
qed simp


lemma base64_decode_standard: "base64_decode (rfc4648_encode s) = s"
  by (simp add: base64_decode_def base64_decode_loop)


section \<open>Properties\<close>

text \<open>
  C37. Base 64 decodes what the standard's encoding wrote, for every text, and basic
  authentication is exact: with credentials configured, a request is served only if its
  header is \<^verbatim>\<open>Basic\<close> followed by a text that decodes to the user name, a colon and the
  password, and the encoding of the credentials is such a text. Any other request leaves the
  state unchanged.
\<close>

theorem basic_authentication:
  assumes "user \<noteq> [] \<or> password \<noteq> []"
  shows "base64_decode (rfc4648_encode text) = text
    \<and> authorized user password (''Basic '' @ rfc4648_encode (user @ '':'' @ password)) = None
    \<and> (authorized user password auth = None \<longleftrightarrow>
        (\<exists>code. auth = ''Basic '' @ code \<and> base64_decode code = user @ '':'' @ password))
    \<and> (authorized user password auth \<noteq> None \<longrightarrow>
        request_handler env user password auth post body st = Some (the (authorized user password auth), st))"
proof -
  note d = base64_decode_standard
  have "take 6 auth = ''Basic '' \<Longrightarrow> auth = ''Basic '' @ drop 6 auth"
    by (metis append_take_drop_id)
  moreover have "drop 6 (''Basic '' @ code) = code" "take 6 (''Basic '' @ code) = ''Basic ''" for code by simp_all
  ultimately show ?thesis
    using assms d by (auto simp: authorized_def request_handler_def Let_def split: option.split)
qed

theorem basic_authentication_witness:
  "authorized ''alice'' ''secret'' (''Basic '' @ rfc4648_encode ''alice:secret'') = None"
  using basic_authentication [of "''alice''" "''secret''" "[]" "[]" toy_rpc False "[]" toy_state] by simp

end
