(* ===== verification/Base64.thy ===== *)
theory Base64
  imports Server
begin

text \<open>
  The base 64 encoder of the command line client (\<^verbatim>\<open>cli/shawncoin-cli.cpp\<close>), against the
  standard's encoding and the decoder of the server (\<^verbatim>\<open>Server\<close>). The accumulator is a 32-bit
  word that wraps, as in the decoder.
\<close>

section \<open>The encoder\<close>

text \<open>The inner loop writes digits while there are six bits, and gives the bits that are left.\<close>

function emit_digits :: "u32 \<Rightarrow> int \<Rightarrow> string \<Rightarrow> int \<times> string" where
  "emit_digits val valb out =
     (if 0 \<le> valb
      then emit_digits val (valb - 6) (out @ [base64_alphabet ! unat (signed_drop_bit (nat valb) val AND 0x3f)])
      else (valb, out))"
  by pat_completeness auto
termination
  by (relation "measure (\<lambda>(val, valb, out). nat (valb + 6))") auto

declare emit_digits.simps [simp del]

fun encode_loop :: "string \<Rightarrow> u32 \<Rightarrow> int \<Rightarrow> string \<Rightarrow> u32 \<times> int \<times> string" where
  "encode_loop [] val valb out = (val, valb, out)"
| "encode_loop (c # cs) val valb out =
     (let val = push_bit 8 val + word_of_nat (of_char c);
          valb = valb + 8;
          (valb, out) = emit_digits val valb out
      in encode_loop cs val valb out)"

text \<open>\<^verbatim>\<open>while (out.size()%4) out.push_back('=')\<close>\<close>

function pad_out :: "string \<Rightarrow> string" where
  "pad_out out = (if length out mod 4 \<noteq> 0 then pad_out (out @ [CHR ''='']) else out)"
  by pat_completeness auto
termination
proof (relation "measure (\<lambda>out. (4 - length out mod 4) mod 4)")
  fix out :: string
  assume "length out mod 4 \<noteq> 0"
  moreover have "length out mod 4 < 4" by simp
  ultimately have "length out mod 4 = 1 \<or> length out mod 4 = 2 \<or> length out mod 4 = 3" by linarith
  then show "(out @ [CHR ''=''], out) \<in> measure (\<lambda>out. (4 - length out mod 4) mod 4)"
    by (auto simp: mod_Suc)
qed simp

declare pad_out.simps [simp del]

definition last_digit :: "u32 \<times> int \<times> string \<Rightarrow> string" where
  "last_digit st =
     (let (val, valb, out) = st
      in if - 6 < valb
         then out @ [base64_alphabet ! unat (signed_drop_bit (nat (valb + 8)) (push_bit 8 val) AND 0x3f)]
         else out)"

definition base64_encode :: "string \<Rightarrow> string" where
  "base64_encode s = pad_out (last_digit (encode_loop s 0 (- 6) []))"


section \<open>Equivalence with the standard\<close>

lemma pad_out_full: "length out mod 4 = 0 \<Longrightarrow> pad_out out = out"
  by (subst pad_out.simps) simp

lemma pad_out_digits:
  assumes "length out mod 4 = 0"
  shows "pad_out (out @ [a, b]) = out @ [a, b, CHR ''='', CHR ''='']"
    and "pad_out (out @ [a, b, c]) = out @ [a, b, c, CHR ''='']"
proof -
  have l: "(length out + n) mod 4 = n mod 4" for n
    using assms by presburger
  show 3: "pad_out (out @ [a, b, c]) = out @ [a, b, c, CHR ''='']" for a b c
    using l [of 3] l [of 4] by (subst pad_out.simps) (simp add: pad_out_full add.commute)
  show "pad_out (out @ [a, b]) = out @ [a, b, CHR ''='', CHR ''='']"
    using l [of 2] 3 [of a b "CHR ''=''"] by (subst pad_out.simps) simp
qed

text \<open>A digit is six bits of the accumulator, which depend on its lowest bits only.\<close>

lemma six_bits:
  assumes "unat (v :: u32) mod 2 ^ k = x" "n + 6 \<le> k" "k \<le> 32"
  shows "base64_alphabet ! unat (signed_drop_bit n v AND 0x3f) = digit64 (x div 2 ^ n mod 64)"
proof -
  have m: "y div 2 ^ n mod 64 = y mod 2 ^ (n + 6) div 2 ^ n" for y :: nat
    using mod_mult2_eq [of y "2 ^ n" 64] by (simp add: power_add)
  have "(2 :: nat) ^ (n + 6) dvd 2 ^ k" using assms(2) by (rule le_imp_power_dvd)
  then have "unat v mod 2 ^ (n + 6) = x mod 2 ^ (n + 6)"
    using assms(1) mod_mod_cancel [of "2 ^ (n + 6)" "2 ^ k" "unat v"] by simp
  then have "unat v div 2 ^ n mod 64 = x div 2 ^ n mod 64" by (simp only: m)
  moreover have "unat (signed_drop_bit n v AND 0x3f) = unat v div 2 ^ n mod 64"
    using shifted_bits [of n 6 v] assms(2,3) by (simp add: mask_eq_exp_minus_1)
  ultimately show ?thesis by (simp add: digit64_def)
qed

lemma emit_digits_stop: "valb < 0 \<Longrightarrow> emit_digits val valb out = (valb, out)"
  by (subst emit_digits.simps) simp

lemma emit_digits_one:
  assumes "unat val mod 2 ^ k = x" "n + 6 \<le> k" "k \<le> 32" "n < 6"
  shows "emit_digits val (int n) out = (int n - 6, out @ [digit64 (x div 2 ^ n mod 64)])"
  using six_bits [OF assms(1-3)] assms(4)
  by (subst emit_digits.simps) (simp add: emit_digits_stop)

lemma emit_digits_two:
  assumes "unat val mod 2 ^ k = x" "12 \<le> k" "k \<le> 32"
  shows "emit_digits val 6 out = (- 6, out @ [digit64 (x div 64 mod 64), digit64 (x mod 64)])"
proof -
  have "emit_digits val 6 out = emit_digits val (int 0) (out @ [digit64 (x div 2 ^ 6 mod 64)])"
    using six_bits [OF assms(1), of 6] assms(2,3) by (subst emit_digits.simps) simp
  also have "\<dots> = (- 6, out @ [digit64 (x div 64 mod 64), digit64 (x mod 64)])"
    using emit_digits_one [OF assms(1), of 0 "out @ [digit64 (x div 2 ^ 6 mod 64)]"] assms(2,3) by simp
  finally show ?thesis .
qed

lemma byte_appended:
  assumes "unat v mod 2 ^ k = x" "k + 8 \<le> 32" "b < 256"
  shows "unat (push_bit 8 v + word_of_nat b :: u32) mod 2 ^ (k + 8) = x * 256 + b"
proof -
  have "x < 2 ^ k" using assms(1) by auto
  then have "x * 256 + b < 2 ^ k * 256" using assms(3) by linarith
  then show ?thesis using appended_bits [OF assms(2), of v b] assms(1) by (simp add: power_add)
qed

lemma mod_scaled: "y < m \<Longrightarrow> (a * m + y) mod (k * m) = a mod k * m + (y :: nat)"
  using mod_mult2_eq [of "a * m + y" m k] by (simp add: mult.commute)

lemma div_scaled: "y < m * k \<Longrightarrow> 0 < m \<Longrightarrow> (a * (k * m) + y) div m = a * k + y div (m :: nat)"
  using div_mult_self3 [of m "a * k" y] by (simp add: mult.assoc add.commute)

lemma bits_arith:
  fixes a b c :: nat
  assumes "a < 256" "b < 256" "c < 256"
  shows "a div 4 mod 64 = a div 4"
    "(a * 256 + b) div 16 mod 64 = a mod 4 * 16 + b div 16"
    "((a * 256 + b) * 256 + c) div 64 mod 64 = b mod 16 * 4 + c div 64"
    "((a * 256 + b) * 256 + c) mod 64 = c mod 64"
    "a * 256 div 16 mod 64 = a mod 4 * 16"
    "(a * 256 + b) * 256 div 64 mod 64 = b mod 16 * 4"
proof -
  show "a div 4 mod 64 = a div 4" using assms(1) by simp
  have "(a * 256 + b) div 16 = a * 16 + b div 16"
    using div_scaled [of b 16 16 a] assms(2) by simp
  then show "(a * 256 + b) div 16 mod 64 = a mod 4 * 16 + b div 16"
    using mod_scaled [of "b div 16" 16 a 4] assms(2) by simp
  have x: "(a * 256 + b) mod 16 = b mod 16"
    using mod_mult_self3 [of "a * 16" 16 b] by (simp only: mult.assoc) simp
  have "((a * 256 + b) * 256 + c) div 64 = (a * 256 + b) * 4 + c div 64"
    using div_scaled [of c 64 4 "a * 256 + b"] assms(3) by simp
  then show "((a * 256 + b) * 256 + c) div 64 mod 64 = b mod 16 * 4 + c div 64"
    using mod_scaled [of "c div 64" 4 "a * 256 + b" 16] assms(3) x by simp
  show "((a * 256 + b) * 256 + c) mod 64 = c mod 64"
    using mod_mult_self3 [of "(a * 256 + b) * 4" 64 c] by (simp only: mult.assoc) simp
  have "a * 256 div 16 = a * 16" by simp
  then show "a * 256 div 16 mod 64 = a mod 4 * 16"
    using mod_scaled [of 0 16 a 4] by (simp only: add_0_right) simp
  have "(a * 256 + b) * 256 div 64 = (a * 256 + b) * 4"
    using div_scaled [of 0 64 4 "a * 256 + b"] by simp
  then show "(a * 256 + b) * 256 div 64 mod 64 = b mod 16 * 4"
    using mod_scaled [of 0 4 "a * 256 + b" 16] x by (simp only: add_0_right) simp
qed

text \<open>One, two and three bytes.\<close>

lemma encode_bytes:
  fixes a b c :: char
  shows "\<exists>v. unat v mod 2 ^ 8 = of_char a \<and> (\<forall>cs. encode_loop (a # cs) val (- 6) out
      = encode_loop cs v (- 4) (out @ [digit64 (of_char a div 4)]))"
    and "\<exists>v. unat v mod 2 ^ 16 = of_char a * 256 + of_char b \<and> (\<forall>cs. encode_loop (a # b # cs) val (- 6) out
      = encode_loop cs v (- 2) (out @ [digit64 (of_char a div 4), digit64 (of_char a mod 4 * 16 + of_char b div 16)]))"
    and "\<exists>v. \<forall>cs. encode_loop (a # b # c # cs) val (- 6) out
      = encode_loop cs v (- 6) (out @ [digit64 (of_char a div 4), digit64 (of_char a mod 4 * 16 + of_char b div 16),
          digit64 (of_char b mod 16 * 4 + of_char c div 64), digit64 (of_char c mod 64)])"
proof -
  note ar = bits_arith [OF byte_less [of a] byte_less [of b] byte_less [of c]]
  let ?v1 = "push_bit 8 val + word_of_nat (of_char a) :: u32"
  let ?v2 = "push_bit 8 ?v1 + word_of_nat (of_char b) :: u32"
  let ?v3 = "push_bit 8 ?v2 + word_of_nat (of_char c) :: u32"
  have 1: "unat ?v1 mod 2 ^ 8 = of_char a"
    using byte_appended [of val 0 0 "of_char a"] by simp
  have 2: "unat ?v2 mod 2 ^ 16 = of_char a * 256 + of_char b"
    using byte_appended [OF 1, of "of_char b"] by simp
  have 3: "unat ?v3 mod 2 ^ 24 = (of_char a * 256 + of_char b) * 256 + of_char c"
    using byte_appended [OF 2, of "of_char c"] by simp
  have e1: "encode_loop (a # cs) val (- 6) out
      = encode_loop cs ?v1 (- 4) (out @ [digit64 (of_char a div 4)])" for cs
    using emit_digits_one [OF 1, of 2 out] ar(1) by (simp add: Let_def)
  have e2: "encode_loop (a # b # cs) val (- 6) out
      = encode_loop cs ?v2 (- 2) (out @ [digit64 (of_char a div 4), digit64 (of_char a mod 4 * 16 + of_char b div 16)])" for cs
    unfolding e1 using emit_digits_one [OF 2, of 4] ar(2) by (simp add: Let_def)
  have e3: "encode_loop (a # b # c # cs) val (- 6) out
      = encode_loop cs ?v3 (- 6) (out @ [digit64 (of_char a div 4), digit64 (of_char a mod 4 * 16 + of_char b div 16),
          digit64 (of_char b mod 16 * 4 + of_char c div 64), digit64 (of_char c mod 64)])" for cs
    unfolding e2 using emit_digits_two [OF 3] ar(3,4) by (simp add: Let_def)
  show "\<exists>v. unat v mod 2 ^ 8 = of_char a \<and> (\<forall>cs. encode_loop (a # cs) val (- 6) out
      = encode_loop cs v (- 4) (out @ [digit64 (of_char a div 4)]))"
    using 1 e1 by (intro exI [of _ ?v1] conjI allI)
  show "\<exists>v. unat v mod 2 ^ 16 = of_char a * 256 + of_char b \<and> (\<forall>cs. encode_loop (a # b # cs) val (- 6) out
      = encode_loop cs v (- 2) (out @ [digit64 (of_char a div 4), digit64 (of_char a mod 4 * 16 + of_char b div 16)]))"
    using 2 e2 by (intro exI [of _ ?v2] conjI allI)
  show "\<exists>v. \<forall>cs. encode_loop (a # b # c # cs) val (- 6) out
      = encode_loop cs v (- 6) (out @ [digit64 (of_char a div 4), digit64 (of_char a mod 4 * 16 + of_char b div 16),
          digit64 (of_char b mod 16 * 4 + of_char c div 64), digit64 (of_char c mod 64)])"
    using e3 by (intro exI [of _ ?v3] allI)
qed

declare encode_loop.simps(2) [simp del]

lemma encode_rest:
  "length out mod 4 = 0 \<Longrightarrow> pad_out (last_digit (encode_loop s val (- 6) out)) = out @ rfc4648_encode s"
proof (induction s arbitrary: val out rule: rfc4648_encode.induct)
  case 1
  then show ?case by (simp add: last_digit_def pad_out_full)
next
  case (2 a)
  from encode_bytes(1) [of a val out] obtain v where v: "unat v mod 2 ^ 8 = of_char a"
    "encode_loop [a] val (- 6) out = (v, - 4, out @ [digit64 (of_char a div 4)])" by auto
  have "unat (push_bit 8 v) mod 2 ^ 16 = of_char a * 256"
    using byte_appended [OF v(1), of 0] by simp
  from six_bits [OF this, of 4] show ?case
    using 2 bits_arith(5) [OF byte_less [of a] byte_less byte_less]
    by (simp add: v(2) last_digit_def pad_out_digits)
next
  case (3 a b)
  from encode_bytes(2) [of a b val out] obtain v where v: "unat v mod 2 ^ 16 = of_char a * 256 + of_char b"
    "encode_loop [a, b] val (- 6) out
      = (v, - 2, out @ [digit64 (of_char a div 4), digit64 (of_char a mod 4 * 16 + of_char b div 16)])" by auto
  have "unat (push_bit 8 v) mod 2 ^ 24 = (of_char a * 256 + of_char b) * 256"
    using byte_appended [OF v(1), of 0] by simp
  from six_bits [OF this, of 6] show ?case
    using 3 bits_arith(6) [OF byte_less [of a] byte_less [of b] byte_less]
    by (simp add: v(2) last_digit_def pad_out_digits)
next
  case (4 a b c s)
  let ?ds = "[digit64 (of_char a div 4), digit64 (of_char a mod 4 * 16 + of_char b div 16),
      digit64 (of_char b mod 16 * 4 + of_char c div 64), digit64 (of_char c mod 64)]"
  from encode_bytes(3) [of a b c val out] obtain v where
    "encode_loop (a # b # c # s) val (- 6) out = encode_loop s v (- 6) (out @ ?ds)" by blast
  moreover have "length (out @ ?ds) mod 4 = 0" using 4(2) by simp
  ultimately show ?case using 4(1) [of "out @ ?ds" v] by simp
qed

lemma base64_encode_standard: "base64_encode s = rfc4648_encode s"
  unfolding base64_encode_def using encode_rest [of "[]" s 0] by simp


section \<open>Properties\<close>

text \<open>
  The client's encoder agrees with the standard on every text, although it runs over one
  32-bit accumulator that overflows; the server's decoder reads back what it wrote; and a
  client is let in exactly when its user name and password, joined by a colon, are those the
  server is configured with.
\<close>

theorem client_server_credentials:
  "base64_encode s = rfc4648_encode s \<and> base64_decode (base64_encode s) = s
    \<and> (authorized user password (''Basic '' @ base64_encode (user' @ '':'' @ password')) = None
        \<longleftrightarrow> user = [] \<and> password = [] \<or> user' @ '':'' @ password' = user @ '':'' @ password)"
  by (simp add: base64_encode_standard base64_decode_standard authorized_def Let_def)

end
