(* ===== verification/Amounts.thy ===== *)
theory Amounts
  imports Mempool Config Complex_Main
begin

text \<open>
  The amounts of the command line client (\<^verbatim>\<open>cli/shawncoin-cli.cpp\<close>). A \<^verbatim>\<open>double\<close> is a real
  number that arithmetic rounds to 53 significant bits; the bounds of the exponent are left
  out. Reading a decimal text (\<^verbatim>\<open>std::stod\<close>) is a parameter, \<open>None\<close> where it throws or gives
  an infinity or NaN.
\<close>

section \<open>Amounts\<close>

text \<open>Rounding to the nearest integer, ties to even; and to the nearest number of 53 significant bits.\<close>

definition round_even :: "real \<Rightarrow> int" where
  "round_even x =
     (let n = \<lfloor>x\<rfloor>; f = x - of_int n
      in if f < 1 / 2 then n else if 1 / 2 < f then n + 1 else if even n then n else n + 1)"

definition double_round :: "real \<Rightarrow> real" where
  "double_round x =
     (if x = 0 then 0
      else let u = 2 powr of_int (\<lfloor>log 2 \<bar>x\<bar>\<rfloor> - 52) in of_int (round_even (x / u)) * u)"

text \<open>\<^verbatim>\<open>std::round\<close>: halves away from zero.\<close>

definition std_round :: "real \<Rightarrow> real" where
  "std_round x = (if 0 \<le> x then of_int \<lfloor>x + 1 / 2\<rfloor> else of_int \<lceil>x - 1 / 2\<rceil>)"

definition satoshiToSHWN :: "u64 \<Rightarrow> real" where
  "satoshiToSHWN satoshis = double_round (double_round (of_nat (unat satoshis)) / 100000000)"

definition shwnToSatoshi :: "real \<Rightarrow> u64" where
  "shwnToSatoshi shwn = word_of_int \<lfloor>std_round (double_round (shwn * 100000000))\<rfloor>"

text \<open>\<^verbatim>\<open>std::fixed << std::setprecision(8)\<close> of a number that is not negative.\<close>

definition print_fixed8 :: "real \<Rightarrow> string" where
  "print_fixed8 x =
     (let n = nat (round_even (x * 100000000));
          frac = to_string (n mod 100000000)
      in to_string (n div 100000000) @ ''.'' @ replicate (8 - length frac) (CHR ''0'') @ frac)"

definition formatAmount :: "u64 \<Rightarrow> string" where
  "formatAmount satoshis = print_fixed8 (satoshiToSHWN satoshis) @ '' SHWN''"

definition isValidAmount :: "(string \<Rightarrow> real option) \<Rightarrow> string \<Rightarrow> bool" where
  "isValidAmount stod a =
     (case stod a of
        None \<Rightarrow> False
      | Some val \<Rightarrow> 0 < val \<and> val \<le> 12000000)"


section \<open>Rounding\<close>

lemma round_even_error: "\<bar>of_int (round_even x) - x\<bar> \<le> 1 / 2"
  unfolding round_even_def Let_def by (auto; linarith)

lemma round_even_near: "\<bar>x - of_int n\<bar> < 1 / 2 \<Longrightarrow> round_even x = n"
  using round_even_error [of x] by linarith

lemma std_round_near: "\<bar>x - of_int n\<bar> < 1 / 2 \<Longrightarrow> std_round x = of_int n"
  unfolding std_round_def
proof (cases "0 \<le> x")
  case True
  assume "\<bar>x - of_int n\<bar> < 1 / 2"
  then have "\<lfloor>x + 1 / 2\<rfloor> = n" by (intro floor_unique) linarith+
  then show "(if 0 \<le> x then real_of_int \<lfloor>x + 1 / 2\<rfloor> else real_of_int \<lceil>x - 1 / 2\<rceil>) = of_int n"
    using True by simp
next
  case False
  assume "\<bar>x - of_int n\<bar> < 1 / 2"
  then have "\<lceil>x - 1 / 2\<rceil> = n" by (intro ceiling_unique) linarith+
  then show "(if 0 \<le> x then real_of_int \<lfloor>x + 1 / 2\<rfloor> else real_of_int \<lceil>x - 1 / 2\<rceil>) = of_int n"
    using False by simp
qed

text \<open>The step between neighbouring numbers of 53 bits is at most \<open>2 ^ - 52\<close> of the number.\<close>

lemma step_bounds:
  assumes "x \<noteq> (0 :: real)"
  shows "2 powr of_int (\<lfloor>log 2 \<bar>x\<bar>\<rfloor> - 52) \<le> \<bar>x\<bar> / 2 ^ 52" "(0 :: real) < 2 powr of_int (\<lfloor>log 2 \<bar>x\<bar>\<rfloor> - 52)"
proof -
  have "2 powr of_int \<lfloor>log 2 \<bar>x\<bar>\<rfloor> \<le> 2 powr log 2 \<bar>x\<bar>" by (rule powr_mono) simp_all
  also have "\<dots> = \<bar>x\<bar>" using assms by simp
  finally have "2 powr of_int \<lfloor>log 2 \<bar>x\<bar>\<rfloor> \<le> \<bar>x\<bar>" .
  moreover have "(2 :: real) powr 52 = 2 ^ 52" using powr_realpow [of 2 52] by simp
  ultimately show "2 powr of_int (\<lfloor>log 2 \<bar>x\<bar>\<rfloor> - 52) \<le> \<bar>x\<bar> / 2 ^ 52"
    by (simp add: powr_diff divide_right_mono)
qed simp

lemma double_round_error: "\<bar>double_round x - x\<bar> \<le> \<bar>x\<bar> / 2 ^ 53"
proof (cases "x = 0")
  case False
  define u :: real where "u = 2 powr of_int (\<lfloor>log 2 \<bar>x\<bar>\<rfloor> - 52)"
  have u: "u \<le> \<bar>x\<bar> / 2 ^ 52" "0 < u" using step_bounds [OF False] by (simp_all add: u_def)
  have "double_round x - x = (of_int (round_even (x / u)) - x / u) * u"
  proof -
    have "double_round x = of_int (round_even (x / u)) * u"
      using False by (simp only: double_round_def Let_def u_def if_False)
    then show ?thesis using u(2) by (simp add: left_diff_distrib)
  qed
  then have "\<bar>double_round x - x\<bar> = \<bar>of_int (round_even (x / u)) - x / u\<bar> * u"
    using u(2) by (simp add: abs_mult)
  also have "\<dots> \<le> 1 / 2 * u" using round_even_error u(2) by (intro mult_right_mono) simp_all
  also have "\<dots> \<le> \<bar>x\<bar> / 2 ^ 53" using u(1) by simp
  finally show ?thesis .
qed (simp add: double_round_def)

lemma double_round_nat:
  assumes "n < 2 ^ 53"
  shows "double_round (real n) = real n"
proof (cases "n = 0")
  case False
  define e where "e = \<lfloor>log 2 (real n)\<rfloor>"
  have "real n < 2 ^ 53" using assms by simp
  then have "log 2 (real n) < log 2 (2 ^ 53)" using False by (subst log_less_cancel_iff) auto
  moreover have "log 2 (2 ^ 53) = (53 :: real)" by (simp only: log_nat_power) simp
  ultimately have e: "e \<le> 52" unfolding e_def by (simp add: floor_le_iff)
  define k where "k = nat (52 - e)"
  have "real n / 2 powr of_int (e - 52) = of_int (int n * 2 ^ k)"
  proof -
    have "of_int (e - 52) = - real k" using e by (simp add: k_def)
    then show ?thesis by (simp add: powr_minus_divide powr_realpow)
  qed
  then have "round_even (real n / 2 powr of_int (e - 52)) = int n * 2 ^ k"
    by (intro round_even_near) simp
  then have "double_round (real n) = real n / 2 powr of_int (e - 52) * 2 powr of_int (e - 52)"
    using False \<open>real n / 2 powr of_int (e - 52) = of_int (int n * 2 ^ k)\<close>
    by (simp add: double_round_def Let_def flip: e_def)
  then show ?thesis by simp
qed (simp add: double_round_def)


section \<open>Amounts in coins and in satoshis\<close>

lemma coins_error:
  assumes "n < 2 ^ 53"
  shows "\<bar>double_round (double_round (real n) / 100000000) * 100000000 - real n\<bar> \<le> real n / 2 ^ 53"
proof -
  have "\<bar>double_round (real n / 100000000) - real n / 100000000\<bar> \<le> real n / 100000000 / 2 ^ 53"
    using double_round_error [of "real n / 100000000"] by simp
  then show ?thesis using double_round_nat [OF assms] by (simp add: field_simps)
qed

lemma coins_near:
  assumes "n \<le> 1200000000000000"
  defines "d \<equiv> double_round (double_round (real n) / 100000000)"
  shows "\<bar>d * 100000000 - real n\<bar> < 1 / 2" "\<bar>double_round (d * 100000000) - real n\<bar> < 1 / 2"
proof -
  have n: "real n \<le> 1200000000000000" using assms(1) by simp
  have d: "\<bar>d * 100000000 - real n\<bar> \<le> real n / 2 ^ 53"
    unfolding d_def using assms(1) by (intro coins_error) simp
  then show "\<bar>d * 100000000 - real n\<bar> < 1 / 2" using n by simp
  have "\<bar>d * 100000000\<bar> \<le> real n * 2"
  proof -
    have "real n / 2 ^ 53 \<le> real n" by simp
    with d have "\<bar>d * 100000000 - real n\<bar> \<le> real n" by (rule order_trans)
    then show ?thesis unfolding abs_le_iff by linarith
  qed
  then have "\<bar>double_round (d * 100000000) - d * 100000000\<bar> \<le> real n * 2 / 2 ^ 53"
    using double_round_error [of "d * 100000000"] by simp
  then have "\<bar>double_round (d * 100000000) - real n\<bar> \<le> real n * 2 / 2 ^ 53 + real n / 2 ^ 53"
    using d abs_triangle_ineq [of "double_round (d * 100000000) - d * 100000000" "d * 100000000 - real n"] by linarith
  also have "\<dots> < 1 / 2" using n by simp
  finally show "\<bar>double_round (d * 100000000) - real n\<bar> < 1 / 2" .
qed

lemma valid_amount_bound:
  assumes "isValidAmount stod t"
  shows "unat (shwnToSatoshi (the (stod t))) \<le> 12000000 * 100000000"
proof -
  obtain v where v: "stod t = Some v" "0 < v" "v \<le> 12000000"
    using assms by (auto simp: isValidAmount_def split: option.splits)
  let ?y = "double_round (v * 100000000)"
  have "\<bar>?y - v * 100000000\<bar> \<le> v * 100000000 / 2 ^ 53"
    using double_round_error [of "v * 100000000"] v(2) by simp
  then have b: "\<bar>?y - v * 100000000\<bar> \<le> v / 90000000" using v(2) by simp
  then have y: "0 \<le> ?y" using v(2) by linarith
  moreover have "?y < 1200000000000000 + 1 / 2" using b v(2,3) by linarith
  ultimately have "0 \<le> \<lfloor>std_round ?y\<rfloor>" "\<lfloor>std_round ?y\<rfloor> \<le> 1200000000000000"
    by (simp_all add: std_round_def floor_le_iff)
  then have "take_bit 64 \<lfloor>std_round ?y\<rfloor> \<le> 1200000000000000"
    using take_bit_int_less_eq_self_iff [of 64 "\<lfloor>std_round ?y\<rfloor>"] by linarith
  then show ?thesis by (simp add: shwnToSatoshi_def v(1) unsigned_of_int nat_le_iff)
qed

text \<open>
  Amounts survive the binary floating-point arithmetic of the client: every amount up to
  the 12 million coins it accepts is printed with exactly its eight decimals, converting it
  to coins and back gives it again, and a valid amount never becomes more than those 12
  million coins.
\<close>

theorem amounts_exact:
  assumes "unat s \<le> 12000000 * 100000000"
  shows "shwnToSatoshi (satoshiToSHWN s) = s
    \<and> formatAmount s = to_string (unat s div 100000000) @ ''.''
        @ replicate (8 - length (to_string (unat s mod 100000000))) (CHR ''0'')
        @ to_string (unat s mod 100000000) @ '' SHWN''
    \<and> (isValidAmount stod t \<longrightarrow> unat (shwnToSatoshi (the (stod t))) \<le> 12000000 * 100000000)"
proof (intro conjI impI)
  define n where "n = unat s"
  define d where "d = double_round (double_round (real n) / 100000000)"
  have d: "satoshiToSHWN s = d" unfolding d_def n_def satoshiToSHWN_def ..
  have "n \<le> 1200000000000000" using assms by (simp add: n_def)
  note near = coins_near [OF this, folded d_def]
  have "std_round (double_round (d * 100000000)) = of_int (int n)"
    using near(2) by (intro std_round_near) simp
  then have "shwnToSatoshi d = word_of_int (int n)"
    by (simp only: shwnToSatoshi_def floor_of_int)
  then show "shwnToSatoshi (satoshiToSHWN s) = s" by (simp add: d n_def)
  have "round_even (d * 100000000) = int n" using near(1) by (intro round_even_near) simp
  then show "formatAmount s = to_string (unat s div 100000000) @ ''.''
      @ replicate (8 - length (to_string (unat s mod 100000000))) (CHR ''0'')
      @ to_string (unat s mod 100000000) @ '' SHWN''"
    by (simp add: formatAmount_def print_fixed8_def Let_def d n_def)
qed (rule valid_amount_bound)

theorem amounts_exact_witness:
  "shwnToSatoshi (satoshiToSHWN 150000000) = 150000000 \<and> formatAmount 150000000 = ''1.50000000 SHWN''"
  using amounts_exact [of 150000000 "\<lambda>_. None" "[]"] by (simp add: to_string.simps char_of_def bit_Suc_0_iff)

end
