(* ===== verification/Cli.thy ===== *)
theory Cli
  imports Base64 Amounts
begin

text \<open>
  \<^verbatim>\<open>cli/shawncoin-cli.cpp\<close>: the command line client. The network is a parameter: a function
  that takes the host, the port and the text written to the socket, and gives the text read
  back until the peer closes, or \<open>None\<close> when the socket, the address or the connection fails;
  it may change a state of type \<open>'s\<close>, that of the peer. What the program prints is a list of
  messages without their colours and pictograms.
\<close>

section \<open>Requests\<close>

type_synonym 's net = "string \<Rightarrow> nat \<Rightarrow> string \<Rightarrow> 's \<Rightarrow> string option \<times> 's"

definition crlf :: string where "crlf = [CHR 0x0D, CHR 0x0A]"

definition http_request :: "string \<Rightarrow> u16 \<Rightarrow> string \<Rightarrow> string \<Rightarrow> string \<Rightarrow> string" where
  "http_request host port user pass body =
     ''POST / HTTP/1.1'' @ crlf
     @ ''Host: '' @ host @ '':'' @ to_string (unat port) @ crlf
     @ ''Content-Type: application/json'' @ crlf
     @ ''Content-Length: '' @ to_string (length body) @ crlf
     @ (if user \<noteq> [] \<or> pass \<noteq> [] then
          let auth = user @ '':'' @ pass
          in ''Authorization: Basic '' @ base64_encode auth @ crlf
        else [])
     @ ''Connection: close'' @ crlf @ crlf
     @ body"

definition rpcPost :: "'s net \<Rightarrow> string \<Rightarrow> u16 \<Rightarrow> string \<Rightarrow> string \<Rightarrow> string \<Rightarrow> 's \<Rightarrow> string \<times> 's" where
  "rpcPost net host port user pass body s =
     (case net host (unat port) (http_request host port user pass body) s of
        (None, s) \<Rightarrow> ([], s)
      | (Some resp, s) \<Rightarrow>
          (case find_str resp (crlf @ crlf) 0 of
             None \<Rightarrow> (resp, s)
           | Some pos \<Rightarrow> (drop (pos + 4) resp, s)))"


section \<open>Numbers\<close>

text \<open>
  \<^verbatim>\<open>std::stoull\<close> and \<^verbatim>\<open>std::stoll\<close>; \<open>None\<close> for their exceptions. A negative number wraps around
  in the first.
\<close>

definition signed_digits :: "string \<Rightarrow> (bool \<times> string)" where
  "signed_digits s =
     (let s = dropWhile is_space s;
          (neg, s) = (case s of
              c # s' \<Rightarrow> (if c = CHR ''-'' then (True, s') else if c = CHR ''+'' then (False, s') else (False, s))
            | [] \<Rightarrow> (False, s))
      in (neg, takeWhile is_digit s))"

definition stoull :: "string \<Rightarrow> u64 option" where
  "stoull s =
     (let (neg, ds) = signed_digits s; v = digits_val ds
      in if ds = [] \<or> 2 ^ 64 \<le> v then None else Some (word_of_int (if neg then - v else v)))"

definition stoll :: "string \<Rightarrow> int option" where
  "stoll s =
     (let (neg, ds) = signed_digits s; v = (if neg then - digits_val ds else digits_val ds)
      in if ds = [] \<or> v < - (2 ^ 63) \<or> 2 ^ 63 \<le> v then None else Some v)"

definition int_text :: "int \<Rightarrow> string" where
  "int_text i = (if i < 0 then ''-'' @ to_string (nat (- i)) else to_string (nat i))"


section \<open>The commands\<close>

datatype message = Success string | Failure string | Text string | Help

text \<open>How the program ends: with an exit code, or by an exception that nothing catches.\<close>

datatype outcome = Exit int "message list" | Terminated "message list"

type_synonym 's call = "string \<Rightarrow> 's \<Rightarrow> string \<times> 's"

definition request_body :: "string \<Rightarrow> string \<Rightarrow> string" where
  "request_body meth params =
     ''{'' @ quote @ ''jsonrpc'' @ quote @ '':'' @ quote @ ''2.0'' @ quote @ '','' @ quote @ ''id'' @ quote @ '':1,''
     @ quote @ ''method'' @ quote @ '':'' @ quote @ meth @ quote @ '','' @ quote @ ''params'' @ quote @ '':'' @ params @ ''}''"

definition has_result :: "string \<Rightarrow> bool" where
  "has_result res \<longleftrightarrow> res \<noteq> [] \<and> find_str res (quote @ ''result'' @ quote) 0 \<noteq> None"

text \<open>The commands that print one of two messages: on a result, and on any answer at all.\<close>

definition on_result :: "'s call \<Rightarrow> string \<Rightarrow> (string \<Rightarrow> message list) \<Rightarrow> (string \<Rightarrow> message list) \<Rightarrow> 's \<Rightarrow> outcome \<times> 's" where
  "on_result call body good bad s =
     (let (res, s) = call body s in (Exit 0 (if has_result res then good res else bad res), s))"

definition on_answer :: "'s call \<Rightarrow> string \<Rightarrow> (string \<Rightarrow> message list) \<Rightarrow> message list \<Rightarrow> 's \<Rightarrow> outcome \<times> 's" where
  "on_answer call body good bad s =
     (let (res, s) = call body s in (Exit 0 (if res \<noteq> [] then good res else bad), s))"

definition cli_getnewaddress :: "'s call \<Rightarrow> 's \<Rightarrow> outcome \<times> 's" where
  "cli_getnewaddress call =
     on_result call (request_body ''wallet.getnewaddress'' ''{}'')
       (\<lambda>res. [Success ''Your new SHWN address:'', Text (''   '' @ res),
               Text ''Share this address to receive SHWN payments!''])
       (\<lambda>_. [Failure ''Could not get new address. Make sure shawncoind is running!''])"

definition cli_getbalance :: "'s call \<Rightarrow> 's \<Rightarrow> outcome \<times> 's" where
  "cli_getbalance call s =
     (let (res, s) = call (request_body ''wallet.getbalance'' ''{}'') s
      in if res \<noteq> [] then
           case stoull res of
             None \<Rightarrow> (Terminated [Text ''Your Wallet Balance:'', Text ''   ''], s)
           | Some n \<Rightarrow>
               (Exit 0 [Text ''Your Wallet Balance:'', Text (''   '' @ formatAmount n),
                        Text ''Start mining to earn more SHWN: shawncoind --mine=1''], s)
         else (Exit 0 [Failure ''Could not get balance. Make sure shawncoind is running!''], s))"

definition cli_sendtoaddress :: "'s call \<Rightarrow> (string \<Rightarrow> real option) \<Rightarrow> string list \<Rightarrow> 's \<Rightarrow> outcome \<times> 's" where
  "cli_sendtoaddress call stod args s =
     (if length args < 3 then
        (Exit 1 [Failure ''Usage: shawncoin-cli sendtoaddress <address> <amount>'',
                 Text ''Example: shawncoin-cli sendtoaddress Sabc123def456 1.5''], s)
      else
        let address = args ! 1; amountStr = args ! 2
        in if \<not> isValidAmount stod amountStr then
             (Exit 1 [Failure ''Invalid amount. Please use a number between 0.00000001 and 12000000''], s)
           else
             let amt = shwnToSatoshi (the (stod amountStr));
                 sending = Text (''Sending '' @ formatAmount amt @ '' to '' @ address @ ''...'')
             in on_result call
                  (request_body ''wallet.sendtoaddress''
                     (''['' @ quote @ address @ quote @ '','' @ to_string (unat amt) @ '',0]''))
                  (\<lambda>res. [sending, Success ''Transaction sent successfully!'', Text (''Transaction ID: '' @ res),
                          Text ''It may take a few minutes to confirm.''])
                  (\<lambda>res. [sending, Failure ''Transaction failed! Check your balance and the address.'',
                          Text (''Details: '' @ res)]) s)"

definition cli_listtransactions :: "'s call \<Rightarrow> 's \<Rightarrow> outcome \<times> 's" where
  "cli_listtransactions call =
     on_answer call (request_body ''wallet.listtransactions'' ''{}'')
       (\<lambda>res. [Text ''Your Transaction History:'', Text (''   '' @ res)])
       [Failure ''Could not get transactions. Make sure shawncoind is running!'']"

definition cli_backupwallet :: "'s call \<Rightarrow> 's \<Rightarrow> outcome \<times> 's" where
  "cli_backupwallet call =
     on_answer call (request_body ''wallet.backup'' ''{}'')
       (\<lambda>res. [Success ''Wallet backed up successfully!'', Text ''Keep your backup safe and private!''])
       [Failure ''Wallet backup failed!'']"

definition cli_getmininginfo :: "'s call \<Rightarrow> 's \<Rightarrow> outcome \<times> 's" where
  "cli_getmininginfo call =
     on_answer call (request_body ''mining.getinfo'' ''{}'')
       (\<lambda>res. [Text ''Mining Information:'', Text (''   '' @ res)])
       [Failure ''Could not get mining info. Make sure shawncoind is running!'']"

definition cli_getblockcount :: "'s call \<Rightarrow> 's \<Rightarrow> outcome \<times> 's" where
  "cli_getblockcount call =
     on_answer call (request_body ''blockchain.info'' ''{}'')
       (\<lambda>res. [Text ''Blockchain Info:'', Text (''   '' @ res), Text ''Network is active!''])
       [Failure ''Could not get block count. Make sure shawncoind is running!'']"

definition cli_startmining :: "'s call \<Rightarrow> string list \<Rightarrow> 's \<Rightarrow> outcome \<times> 's" where
  "cli_startmining call args =
     (let n = (if 2 \<le> length args then case stoi (args ! 1) of Some n \<Rightarrow> n | None \<Rightarrow> 2 else 2)
      in on_result call
           (request_body ''mining.start'' (''{'' @ quote @ ''threads'' @ quote @ '':'' @ int_text n @ ''}''))
           (\<lambda>res. [Success (''Mining started with '' @ int_text n @ '' threads!''),
                   Text ''Use 'stopmining' to stop, 'getmininginfo' to check status''])
           (\<lambda>_. [Failure ''Could not start mining. Make sure shawncoind is running!'']))"

definition cli_stopmining :: "'s call \<Rightarrow> 's \<Rightarrow> outcome \<times> 's" where
  "cli_stopmining call =
     on_result call (request_body ''mining.stop'' ''{}'')
       (\<lambda>_. [Success ''Mining stopped!'', Text ''Use 'startmining' to start again''])
       (\<lambda>_. [Failure ''Could not stop mining. Make sure shawncoind is running!''])"

definition cli_createwallet :: "'s call \<Rightarrow> string list \<Rightarrow> 's \<Rightarrow> outcome \<times> 's" where
  "cli_createwallet call args =
     (let password = (if 2 \<le> length args then args ! 1 else [])
      in on_result call
           (request_body ''wallet.create'' (''{'' @ quote @ ''passphrase'' @ quote @ '':'' @ quote @ password @ quote @ ''}''))
           (\<lambda>_. [Text ''Creating new wallet...'', Success ''New wallet created successfully!'',
                 Text ''Use 'getnewaddress' to get your first address''])
           (\<lambda>_. [Text ''Creating new wallet...'', Failure ''Could not create wallet!'']))"

definition cli_backupwallet_path :: "'s call \<Rightarrow> string list \<Rightarrow> 's \<Rightarrow> outcome \<times> 's" where
  "cli_backupwallet_path call args =
     (let path = (if 2 \<le> length args then args ! 1 else ''wallet_backup.txt'');
          head = Text (''Backing up wallet to '' @ path @ ''...'')
      in on_result call
           (request_body ''wallet.backup'' (''{'' @ quote @ ''path'' @ quote @ '':'' @ quote @ path @ quote @ ''}''))
           (\<lambda>_. [head, Success ''Wallet backed up successfully!'', Text ''Keep your backup file safe!''])
           (\<lambda>_. [head, Failure ''Could not backup wallet!'']))"

definition cli_getblockchaininfo :: "'s call \<Rightarrow> 's \<Rightarrow> outcome \<times> 's" where
  "cli_getblockchaininfo call =
     on_answer call (request_body ''blockchain.getinfo'' ''{}'')
       (\<lambda>res. [Text ''Blockchain Information:'', Text (''   '' @ res)])
       [Failure ''Could not get blockchain info. Make sure shawncoind is running!'']"

definition cli_getnetworkinfo :: "'s call \<Rightarrow> 's \<Rightarrow> outcome \<times> 's" where
  "cli_getnetworkinfo call =
     on_answer call (request_body ''network.getinfo'' ''{}'')
       (\<lambda>res. [Text ''Network Information:'', Text (''   '' @ res)])
       [Failure ''Could not get network info. Make sure shawncoind is running!'']"

definition cli_validateaddress :: "hasher \<Rightarrow> string list \<Rightarrow> outcome" where
  "cli_validateaddress sha args =
     (if length args < 2 then Exit 1 [Failure ''Usage: shawncoin-cli validateaddress <address>'']
      else
        let address = args ! 1; hash = addressToPubKeyHash sha address
        in if length hash = 20
           then Exit 0 [Success ''Address is valid!'', Text (address @ '' is a valid SHWN address'')]
           else Exit 0 [Failure ''Address is invalid!'', Text (address @ '' is NOT a valid SHWN address'')])"

text \<open>The summary file the daemon leaves: one pass per line.\<close>

fun mined_lines :: "string list \<Rightarrow> int \<times> int \<Rightarrow> (int \<times> int) option" where
  "mined_lines [] (blocks, totalShwn) = Some (blocks, totalShwn)"
| "mined_lines (line # lines) (blocks, totalShwn) =
     (case (if take 7 line = ''blocks='' then stoll (drop 7 line) else Some blocks) of
        None \<Rightarrow> None
      | Some blocks \<Rightarrow>
          (case (if take 11 line = ''total_shwn='' then stoll (drop 11 line) else Some totalShwn) of
             None \<Rightarrow> None
           | Some totalShwn \<Rightarrow> mined_lines lines (blocks, totalShwn)))"

definition cli_mined :: "string option \<Rightarrow> Config \<Rightarrow> files \<Rightarrow> outcome" where
  "cli_mined home cfg fs =
     (case fs (getDataDir home cfg @ ''/mined_summary.txt'') of
        None \<Rightarrow> Exit 1 [Failure ''No mining summary found. Start mining first: shawncoind --mine=1'']
      | Some contents \<Rightarrow>
          (case mined_lines (get_lines (text_of contents)) (0, 0) of
             None \<Rightarrow> Terminated []
           | Some (blocks, totalShwn) \<Rightarrow>
               Exit 0 [Text ''Mining Summary:'', Text (''   Blocks mined: '' @ int_text blocks),
                       Text (''   Total SHWN: '' @ int_text totalShwn @ '' SHWN''),
                       Text (''Amazing! You'' @ [CHR 0x27] @ ''re helping build the Shawn Coin network!'')]))"

text \<open>
  The tests of \<^verbatim>\<open>main\<close> in order; the second test for \<^verbatim>\<open>backupwallet\<close>, with a path, is never
  true. \<open>args\<close> are the arguments behind the program name.
\<close>

definition cli_dispatch ::
    "hasher \<Rightarrow> (string \<Rightarrow> real option) \<Rightarrow> string option \<Rightarrow> files \<Rightarrow> Config \<Rightarrow> string list \<Rightarrow> 's call \<Rightarrow> string \<Rightarrow> 's
     \<Rightarrow> outcome \<times> 's" where
  "cli_dispatch sha stod home fs cfg args call command s =
     (if command = ''getnewaddress'' then cli_getnewaddress call s
      else if command = ''getbalance'' then cli_getbalance call s
      else if command = ''sendtoaddress'' then cli_sendtoaddress call stod args s
      else if command = ''listtransactions'' then cli_listtransactions call s
      else if command = ''backupwallet'' then cli_backupwallet call s
      else if command = ''getmininginfo'' then cli_getmininginfo call s
      else if command = ''getblockcount'' then cli_getblockcount call s
      else if command = ''startmining'' then cli_startmining call args s
      else if command = ''stopmining'' then cli_stopmining call s
      else if command = ''createwallet'' then cli_createwallet call args s
      else if command = ''backupwallet'' then cli_backupwallet_path call args s
      else if command = ''getblockchaininfo'' then cli_getblockchaininfo call s
      else if command = ''getnetworkinfo'' then cli_getnetworkinfo call s
      else if command = ''validateaddress'' then (cli_validateaddress sha args, s)
      else if command = ''mined'' then (cli_mined home cfg fs, s)
      else (Exit 1 [Failure (''Unknown command: '' @ command), Text ''Use --help to see all available commands''], s))"

definition cli_main ::
    "hasher \<Rightarrow> (string \<Rightarrow> real option) \<Rightarrow> string option \<Rightarrow> 's net \<Rightarrow> files \<Rightarrow> string list \<Rightarrow> 's \<Rightarrow> outcome \<times> 's" where
  "cli_main sha stod home net fs args s =
     (if list_ex (\<lambda>a. a = ''--help'' \<or> a = ''-h'') args then (Exit 0 [Help], s)
      else
        let cfg = snd (loadFromArgs args new_config)
        in case getPort cfg ''rpcport'' RPC_PORT of
             None \<Rightarrow> (Terminated [], s)
           | Some rpcPort \<Rightarrow>
               (let rpcUser = config_get cfg ''rpcuser'' [];
                    rpcPass = config_get cfg ''rpcpassword'' [];
                    command = (case List.find (\<lambda>a. a = [] \<or> hd a \<noteq> CHR ''-'') args of Some a \<Rightarrow> a | None \<Rightarrow> [])
                in if command = [] then (Exit 0 [Help], s)
                   else cli_dispatch sha stod home fs cfg args
                     (rpcPost net ''127.0.0.1'' rpcPort rpcUser rpcPass) command s))"


section \<open>Numbers read back\<close>

lemma to_string_digits: "c \<in> set (to_string n) \<Longrightarrow> \<exists>k<10. c = char_of (48 + k :: nat)"
proof (induction n rule: to_string.induct)
  case (1 n)
  show ?case
  proof (cases "n < 10")
    case True
    then show ?thesis using 1(2) by (simp add: to_string.simps [of n] exI [of _ n])
  next
    case False
    then have "c \<in> set (to_string (n div 10)) \<or> c = char_of (48 + n mod 10)"
      using 1(2) by (auto simp: to_string.simps [of n])
    then show ?thesis
    proof
      assume "c = char_of (48 + n mod 10)"
      then show ?thesis by (intro exI [of _ "n mod 10"]) simp
    qed (rule 1(1) [OF False])
  qed
qed

lemma digit_facts:
  assumes "k < 10"
  shows "is_digit (char_of (48 + k :: nat))" "\<not> is_space (char_of (48 + k :: nat))"
    "of_char (char_of (48 + k :: nat) :: char) = (48 + int k)"
    "char_of (48 + k :: nat) \<noteq> CHR ''-''" "char_of (48 + k :: nat) \<noteq> CHR ''+''"
proof -
  have n: "of_char (char_of (48 + k :: nat) :: char) = 48 + k" using assms by simp
  have ne: "char_of (48 + k :: nat) \<noteq> c" if "of_char c < (48 :: nat)" for c
    using that n by auto
  show "is_digit (char_of (48 + k :: nat))" using assms n by (simp add: is_digit_def less_eq_char_def)
  show "\<not> is_space (char_of (48 + k :: nat))" using ne by (simp add: is_space_def)
  show "char_of (48 + k :: nat) \<noteq> CHR ''-''" "char_of (48 + k :: nat) \<noteq> CHR ''+''" by (rule ne, simp)+
  have "of_nat (of_char (char_of (48 + k :: nat) :: char) :: nat) = (of_char (char_of (48 + k :: nat) :: char) :: int)"
    by (rule of_nat_of_char)
  then show "of_char (char_of (48 + k :: nat) :: char) = (48 + int k)" unfolding n by simp
qed

lemma to_string_nonempty: "to_string n \<noteq> []"
  by (subst to_string.simps) simp

lemma to_string_all: "list_all is_digit (to_string n)"
  using to_string_digits digit_facts(1) by (fastforce simp: list_all_iff)

lemma digits_val_snoc: "digits_val (ds @ [c]) = digits_val ds * 10 + (of_char c - 48)"
  by (simp add: digits_val_def)

lemma digits_val_to_string: "digits_val (to_string n) = int n"
proof (induction n rule: to_string.induct)
  case (1 n)
  show ?case
  proof (cases "n < 10")
    case True
    then show ?thesis using digit_facts(3) [OF True] by (simp add: to_string.simps [of n] digits_val_def)
  next
    case False
    have "int (n div 10 * 10 + n mod 10) = int n" by (simp only: div_mult_mod_eq)
    then have "int (n div 10) * 10 + int (n mod 10) = int n" by (simp only: of_nat_add of_nat_mult of_nat_numeral)
    moreover have "of_char (char_of (48 + n mod 10) :: char) - 48 = int (n mod 10)"
      using digit_facts(3) [of "n mod 10"] by simp
    ultimately show ?thesis
      unfolding to_string.simps [of n] if_not_P [OF False] digits_val_snoc 1 [OF False] by simp
  qed
qed

lemma signed_digits_to_string: "signed_digits (to_string n) = (False, to_string n)"
proof -
  obtain c cs where s: "to_string n = c # cs" using to_string_nonempty [of n] by (meson neq_Nil_conv)
  then obtain k where "k < 10" "c = char_of (48 + k :: nat)" using to_string_digits [of c n] by auto
  note d = digit_facts [OF this(1), folded this(2)]
  have "takeWhile is_digit (c # cs) = c # cs"
    using to_string_all [of n] unfolding s by (simp add: takeWhile_eq_all_conv list_all_iff)
  then show ?thesis unfolding s using d by (simp add: signed_digits_def)
qed

lemma stoll_to_string: "n < 2 ^ 63 \<Longrightarrow> stoll (to_string n) = Some (int n)"
  by (simp add: stoll_def signed_digits_to_string digits_val_to_string to_string_nonempty)

lemma stoull_to_string: "n < 2 ^ 64 \<Longrightarrow> stoull (to_string n) = Some (word_of_nat n)"
  by (simp add: stoull_def signed_digits_to_string digits_val_to_string to_string_nonempty)

lemma no_newline: "CHR 0x0A \<notin> set (to_string n)"
proof
  assume "CHR 0x0A \<in> set (to_string n)"
  then have "is_digit (CHR 0x0A)" using to_string_all [of n] by (auto simp: list_all_iff)
  then show False by (simp add: is_digit_def less_eq_char_def)
qed


section \<open>The client against the server\<close>

text \<open>
  What the HTTP library does between the client's socket and the server's request handler:
  it hands over the \<^verbatim>\<open>authorization\<close> header and the body of a request, and sends a head, an
  empty line and the body of the answer.
\<close>

definition answer_body :: "http_response \<Rightarrow> string" where
  "answer_body r =
     (case r of
        Unauthorized \<Rightarrow> ''Unauthorized''
      | Forbidden \<Rightarrow> ''Forbidden''
      | Method_Not_Allowed \<Rightarrow> ''Method Not Allowed''
      | Answer text \<Rightarrow> text)"

definition auth_header :: "string \<Rightarrow> string \<Rightarrow> string" where
  "auth_header user pass =
     (if user \<noteq> [] \<or> pass \<noteq> [] then ''Basic '' @ base64_encode (user @ '':'' @ pass) else [])"

definition http_head :: "string \<Rightarrow> bool" where
  "http_head h \<longleftrightarrow> (\<forall>rest. find_str (h @ crlf @ crlf @ rest) (crlf @ crlf) 0 = Some (length h))"

definition http_library :: "('kp, 'd) rpc_env \<Rightarrow> string \<Rightarrow> string \<Rightarrow> rpc_state net \<Rightarrow> bool" where
  "http_library env user password net \<longleftrightarrow>
     (\<forall>port user' pass' body st r st'.
        request_handler env user password (auth_header user' pass') True body st = Some (r, st') \<longrightarrow>
        (\<exists>h. http_head h \<and> net ''127.0.0.1'' (unat port) (http_request ''127.0.0.1'' port user' pass' body) st
               = (Some (h @ crlf @ crlf @ answer_body r), st')))"

lemma length_crlf [simp]: "length crlf = 2"
  by (simp add: crlf_def)

lemma rpcPost_answer:
  assumes "http_library env user password net"
    and "request_handler env user password (auth_header user' pass') True body st = Some (r, st')"
  shows "rpcPost net ''127.0.0.1'' port user' pass' body st = (answer_body r, st')"
proof -
  obtain h where h: "http_head h"
    "net ''127.0.0.1'' (unat port) (http_request ''127.0.0.1'' port user' pass' body) st
       = (Some (h @ crlf @ crlf @ answer_body r), st')"
    using assms unfolding http_library_def by blast
  have "drop (length h + 4) (h @ crlf @ crlf @ answer_body r) = answer_body r" by simp
  then show ?thesis using h by (simp add: rpcPost_def http_head_def)
qed

lemma method_of_body:
  assumes "CHR 0x22 \<notin> set meth"
  shows "parse_method (request_body meth params) = Some meth"
proof -
  let ?pre = "''{'' @ quote @ ''jsonrpc'' @ quote @ '':'' @ quote @ ''2.0'' @ quote @ '','' @ quote @ ''id'' @ quote @ '':1,''"
  have "find_str (?pre @ quote @ ''method'' @ quote) (quote @ ''method'' @ quote) 0 = Some (length ?pre)"
    unfolding find_str_least by (auto simp: quote_def less_Suc_eq numeral_eq_Suc)
  from parse_method_member [OF this assms, of "[]"] show ?thesis
    unfolding request_body_def by simp
qed

text \<open>With the right credentials every call answers \<^verbatim>\<open>null\<close> and has the method's effect.\<close>

lemma post_effect:
  assumes "http_library env user password net" "CHR 0x22 \<notin> set meth" "rpc_effect env meth st = Some st'"
  shows "rpcPost net ''127.0.0.1'' port user password (request_body meth params) st = (''null'', st')"
proof -
  have "request_handler env user password (auth_header user password) True (request_body meth params) st
      = Some (Answer ''null'', st')"
    using assms(2,3) by (auto simp: request_handler_def authorized_def auth_header_def base64_encode_standard
        base64_decode_standard handle_request method_of_body)
  from rpcPost_answer [OF assms(1) this] show ?thesis by (simp add: answer_body_def)
qed

lemma null_has_no_result: "\<not> has_result ''null''" "stoull ''null'' = None"
proof -
  have "find_str ''null'' (quote @ ''result'' @ quote) 0 = None"
    by (simp add: find_str_def quote_def upt_rec)
  then show "\<not> has_result ''null''" by (simp add: has_result_def)
  show "stoull ''null'' = None"
    by (simp add: stoull_def signed_digits_def is_space_def is_digit_def less_eq_char_def)
qed


section \<open>A concrete server\<close>

text \<open>A library that serves without credentials: the body of a request is what follows the first empty line.\<close>

fun after_blank_line :: "string \<Rightarrow> string" where
  "after_blank_line [] = []"
| "after_blank_line (c # s) =
     (if take 4 (c # s) = crlf @ crlf then drop 4 (c # s) else after_blank_line s)"

definition toy_net :: "('kp, 'd) rpc_env \<Rightarrow> rpc_state net" where
  "toy_net env host port text st =
     (case request_handler env [] [] [] True (after_blank_line text) st of
        None \<Rightarrow> (None, st)
      | Some (r, st) \<Rightarrow> (Some (''HTTP/1.1 200 OK'' @ crlf @ crlf @ answer_body r), st))"

lemma after_line: "CHR 0x0D \<notin> set l \<Longrightarrow> after_blank_line (l @ s) = after_blank_line s"
  by (induction l) (auto simp: crlf_def)

lemma after_end: "c \<noteq> CHR 0x0D \<Longrightarrow> after_blank_line (crlf @ c # s) = after_blank_line (c # s)"
  by (simp add: crlf_def)

lemma after_blank: "after_blank_line (crlf @ crlf @ s) = s"
  by (simp add: crlf_def)

lemma no_cr: "CHR 0x0D \<notin> set (to_string n)" "CHR 0x0D \<notin> set (base64_encode s)"
proof
  assume "CHR 0x0D \<in> set (to_string n)"
  then obtain k where k: "k < 10" "CHR 0x0D = (char_of (48 + k :: nat) :: char)" using to_string_digits by blast
  then have "of_char (CHR 0x0D) = (of_char (char_of (48 + k :: nat) :: char) :: nat)" by (simp only: k(2))
  then show False using k(1) by simp
next
  have d: "digit64 n \<noteq> CHR 0x0D" if "n < 64" for n
  proof -
    have "digit64 n \<in> set base64_alphabet" using that alphabet_facts(1) by (simp add: digit64_def)
    then show ?thesis by (auto simp: base64_alphabet_def)
  qed
  show "CHR 0x0D \<notin> set (base64_encode s)"
    unfolding base64_encode_standard
  proof (induction s rule: rfc4648_encode.induct)
    case (2 a)
    show ?case using digit_arith [OF byte_less [of a], of 0 0] d by (simp add: eq_commute [of "CHR 0x0D"])
  next
    case (3 a b)
    show ?case using digit_arith [OF byte_less [of a] byte_less [of b], of 0] d by (simp add: eq_commute [of "CHR 0x0D"])
  next
    case (4 a b c s)
    show ?case using digit_arith [OF byte_less [of a] byte_less [of b] byte_less [of c]] d 4
      by (simp add: eq_commute [of "CHR 0x0D"])
  qed simp
qed

lemma after_char: "c \<noteq> CHR 0x0D \<Longrightarrow> after_blank_line (c # s) = after_blank_line s"
  by (simp add: crlf_def)

declare after_blank_line.simps [simp del]

lemma request_text: "after_blank_line (http_request ''127.0.0.1'' port user pass body) = body"
  by (cases "user \<noteq> [] \<or> pass \<noteq> []")
    (simp_all add: http_request_def after_char after_line after_end after_blank no_cr Let_def)

lemma no_cr_head:
  assumes "CHR 0x0D \<notin> set h"
  shows "http_head h"
  unfolding http_head_def
proof
  fix rest
  have "take (length (crlf @ crlf)) (drop k (h @ crlf @ crlf @ rest)) \<noteq> crlf @ crlf" if "k < length h" for k
  proof
    assume t: "take (length (crlf @ crlf)) (drop k (h @ crlf @ crlf @ rest)) = crlf @ crlf"
    have "hd (take (length (crlf @ crlf)) (drop k (h @ crlf @ crlf @ rest))) = h ! k"
      using that by (simp add: hd_append hd_drop_conv_nth)
    then have "CHR 0x0D = h ! k" unfolding t by (simp add: crlf_def)
    then show False using assms nth_mem [OF that] by simp
  qed
  then show "find_str (h @ crlf @ crlf @ rest) (crlf @ crlf) 0 = Some (length h)"
    unfolding find_str_least by simp
qed

lemma toy_head: "http_head ''HTTP/1.1 200 OK''"
  by (rule no_cr_head) simp

lemma toy_net_ok: "http_library env [] [] (toy_net env)"
  unfolding http_library_def
proof (intro allI impI exI [of _ "''HTTP/1.1 200 OK''"] conjI toy_head)
  fix port :: u16 and user pass body st r st'
  assume "request_handler env [] [] (auth_header user pass) True body st = Some (r, st')"
  then have "request_handler env [] [] [] True body st = Some (r, st')"
    by (simp add: request_handler_def authorized_def)
  then show "toy_net env ''127.0.0.1'' (unat port) (http_request ''127.0.0.1'' port user pass body) st
      = (Some (''HTTP/1.1 200 OK'' @ crlf @ crlf @ answer_body r), st')"
    by (simp add: toy_net_def request_text)
qed


section \<open>Properties\<close>

text \<open>
  C24. The client and the server together, with matching credentials and whatever the state:
  the client asks for an address and reports failure although the wallet has moved on; asking
  for the balance ends in an exception that nothing catches; no payment is ever made; starting
  the miner reports failure although the miner starts, with one thread whatever was asked for;
  and a backup is reported as written although no file changes.
\<close>

theorem client_against_server:
  fixes net :: "rpc_state net" and port :: u16
  assumes "http_library env user password net"
  defines "call \<equiv> rpcPost net ''127.0.0.1'' port user password"
  shows "cli_getnewaddress call st =
      (Exit 0 [Failure ''Could not get new address. Make sure shawncoind is running!''], new_address_state env st)
    \<and> cli_getbalance call st = (Terminated [Text ''Your Wallet Balance:'', Text ''   ''], st)
    \<and> snd (cli_sendtoaddress call stod args st) = st
    \<and> cli_startmining call args st =
        (Exit 0 [Failure ''Could not start mining. Make sure shawncoind is running!''],
         st\<lparr>rpc_miner := map_option (miner_start 1) (rpc_miner st)\<rparr>)
    \<and> cli_backupwallet call st =
        (Exit 0 [Success ''Wallet backed up successfully!'', Text ''Keep your backup safe and private!''], st)"
proof -
  have c: "call (request_body meth params) st = (''null'', st')"
    if "CHR 0x22 \<notin> set meth" "rpc_effect env meth st = Some st'" for meth params st'
    unfolding call_def using assms(1) that by (rule post_effect)
  note n = null_has_no_result
  have "cli_getnewaddress call st =
      (Exit 0 [Failure ''Could not get new address. Make sure shawncoind is running!''], new_address_state env st)"
    by (simp add: cli_getnewaddress_def on_result_def c rpc_effect_def n)
  moreover have "cli_getbalance call st = (Terminated [Text ''Your Wallet Balance:'', Text ''   ''], st)"
    by (simp add: cli_getbalance_def c rpc_effect_def n)
  moreover have "snd (cli_sendtoaddress call stod args st) = st"
    by (simp add: cli_sendtoaddress_def on_result_def c rpc_effect_def Let_def)
  moreover have "cli_startmining call args st =
      (Exit 0 [Failure ''Could not start mining. Make sure shawncoind is running!''],
       st\<lparr>rpc_miner := map_option (miner_start 1) (rpc_miner st)\<rparr>)"
    by (simp add: cli_startmining_def on_result_def c rpc_effect_def n Let_def)
  moreover have "cli_backupwallet call st =
      (Exit 0 [Success ''Wallet backed up successfully!'', Text ''Keep your backup safe and private!''], st)"
    by (simp add: cli_backupwallet_def on_answer_def c rpc_effect_def)
  ultimately show ?thesis by blast
qed

theorem client_against_server_witness:
  "fst (cli_getbalance (rpcPost (toy_net toy_rpc) ''127.0.0.1'' 7332 [] []) toy_state)
     = Terminated [Text ''Your Wallet Balance:'', Text ''   '']"
  using client_against_server [OF toy_net_ok [of toy_rpc], of 7332 toy_state "\<lambda>_. None" "[]"] by simp

end
