(* ===== verification/Daemon.thy ===== *)
theory Daemon
  imports Network Cli
begin

text \<open>
  \<^verbatim>\<open>src/main.cpp\<close>: the daemon, from its arguments to its exit code. Its state holds the
  components it starts; between start and shutdown the miner's threads run rounds, one after
  the other here, until a signal arrives. An exception ends \<^verbatim>\<open>main\<close> with exit code 1. Log lines
  are left out, and so is the RPC server, whose lines the source comments out. \<open>home\<close> is
  \<^verbatim>\<open>std::getenv("HOME")\<close>, \<open>junk\<close> the uninitialised hash of a new store, and \<open>can_write\<close> says which
  files can be opened for writing. A file can be opened for reading when it exists.
\<close>

record daemon =
  d_dir :: string
  d_config :: Config
  d_chain :: Blockchain
  d_mempool :: Mempool
  d_node :: Node
  d_wallet :: Wallet
  d_miner :: "Miner option"

section \<open>Start\<close>

text \<open>The arguments, then the file in the data directory they select: the file is read last and wins.\<close>

definition daemon_config :: "string option \<Rightarrow> string list \<Rightarrow> files \<Rightarrow> (string \<times> Config) option" where
  "daemon_config home args fs =
     (let config = snd (loadFromArgs args new_config);
          dataDir = getDataDir home config
      in if dataDir = [] then None
         else Some (dataDir, snd (load (map_option text_of (fs (dataDir @ ''/shawncoin.conf''))) config)))"

definition open_wallet :: "'kp crypto \<Rightarrow> string \<Rightarrow> string \<Rightarrow> files \<Rightarrow> Wallet" where
  "open_wallet env dataDir walletPass fs =
     (let wallet = new_wallet;
          walletDat = dataDir @ ''/wallet.dat'';
          walletBackupPath = dataDir @ ''/wallet_backup.txt''
      in if fs walletDat \<noteq> None then snd (loadFromFile env walletDat walletPass fs wallet)
         else case fs walletBackupPath of
           Some contents \<Rightarrow>
             (case get_lines (text_of contents) of
                [] \<Rightarrow> wallet
              | m # _ \<Rightarrow> if m \<noteq> [] then snd (restore env m [] wallet) else wallet)
         | None \<Rightarrow> wallet)"

text \<open>Whether to mine, for how many threads, and the miner; \<open>None\<close> where reading a number throws.\<close>

definition open_miner :: "hasher \<Rightarrow> Config \<Rightarrow> Miner option option" where
  "open_miner sha config =
     (case getInt config ''gen'' 0 of
        None \<Rightarrow> None
      | Some gen \<Rightarrow>
          (let doMine = (gen \<noteq> 0 \<or> config_get config ''mine'' [] = ''1'')
           in case getInt config ''genproclimit'' 2 of
                None \<Rightarrow> None
              | Some mineThreads \<Rightarrow>
                  if \<not> doMine then Some None
                  else
                    let miner = new_miner;
                        mineAddr = config_get config ''mineaddr'' [];
                        miner = (if mineAddr \<noteq> [] then
                            let h = addressToPubKeyHash sha mineAddr
                            in if length h = 20 then setPayoutHash h miner else miner
                          else miner)
                    in Some (Some (miner_start (word_of_int mineThreads) miner))))"

text \<open>\<open>Inl\<close> is the exit code of a failed start.\<close>

definition daemon_start ::
    "'kp crypto \<Rightarrow> string option \<Rightarrow> uint256 \<Rightarrow> string list \<Rightarrow> files \<Rightarrow> int + daemon" where
  "daemon_start env home junk args fs =
     (case daemon_config home args fs of
        None \<Rightarrow> Inl 1
      | Some (dataDir, config) \<Rightarrow>
          (let (ok, chainState) = cs_init dataDir (new_chainstate junk)
           in if \<not> ok then Inl 1
              else
                let chain = setChainState (Some chainState) (new_blockchain (SHA256 env));
                    (ok, chain) = bc_init dataDir chain
                in if \<not> ok then Inl 1
                   else case getPort config ''port'' P2P_PORT of
                     None \<Rightarrow> Inl 1
                   | Some p2pPort \<Rightarrow>
                       (let node = node_start p2pPort new_node;
                            wallet = open_wallet env dataDir (config_get config ''walletpass'' []) fs
                        in case open_miner (SHA256 env) config of
                             None \<Rightarrow> Inl 1
                           | Some miner \<Rightarrow> Inr \<lparr>d_dir = dataDir, d_config = config, d_chain = chain, d_mempool = [],
                               d_node = node, d_wallet = wallet, d_miner = miner\<rparr>)))"


section \<open>Running\<close>

text \<open>One round of the miner, with the clock when its block is built and when it is checked.\<close>

definition daemon_round :: "hasher \<Rightarrow> (string \<Rightarrow> bool) \<Rightarrow> u64 \<times> u64 \<Rightarrow> daemon \<times> files \<Rightarrow> daemon \<times> files" where
  "daemon_round sha can_write clocks st =
     (let (d, fs) = st; (now, now') = clocks
      in case d_miner d of
           None \<Rightarrow> (d, fs)
         | Some m \<Rightarrow>
             if \<not> is_mining m then (d, fs)
             else
               let (ok, c, fs) = mining_round sha can_write now now' m (d_mempool d) (d_chain d) fs
               in (d\<lparr>d_chain := c\<rparr>, fs))"

definition daemon_rounds :: "hasher \<Rightarrow> (string \<Rightarrow> bool) \<Rightarrow> (u64 \<times> u64) list \<Rightarrow> daemon \<times> files \<Rightarrow> daemon \<times> files" where
  "daemon_rounds sha can_write rounds st = fold (daemon_round sha can_write) rounds st"

text \<open>What follows the signal; \<open>None\<close> where adding up the supply never ends.\<close>

definition mined_summary :: "u64 \<Rightarrow> u64 \<Rightarrow> string" where
  "mined_summary finalHeight totalIssued =
     ''blocks='' @ to_string (unat finalHeight) @ [CHR 0x0A]
     @ ''total_shwn='' @ to_string (unat (totalIssued div COIN)) @ [CHR 0x0A]"

definition daemon_stop :: "(string \<Rightarrow> bool) \<Rightarrow> daemon \<times> files \<Rightarrow> (daemon \<times> files) option" where
  "daemon_stop can_write st =
     (let (d, fs) = st;
          d = d\<lparr>d_miner := map_option miner_stop (d_miner d)\<rparr>;
          finalHeight = getHeight (d_chain d)
      in case getTotalSupplyUpTo finalHeight of
           None \<Rightarrow> None
         | Some totalIssued \<Rightarrow>
             (let path = d_dir d @ ''/mined_summary.txt'';
                  fs = (if can_write path then fs(path \<mapsto> string_bytes (mined_summary finalHeight totalIssued)) else fs);
                  d = d\<lparr>d_node := node_stop (d_node d)\<rparr>
              in Some (d, fs)))"

text \<open>The whole program: the exit code and the files it leaves.\<close>

definition daemon_main ::
    "'kp crypto \<Rightarrow> string option \<Rightarrow> uint256 \<Rightarrow> (string \<Rightarrow> bool) \<Rightarrow> string list \<Rightarrow> (u64 \<times> u64) list \<Rightarrow> files
     \<Rightarrow> (int \<times> files) option" where
  "daemon_main env home junk can_write args rounds fs =
     (case daemon_start env home junk args fs of
        Inl code \<Rightarrow> Some (code, fs)
      | Inr d \<Rightarrow>
          (case daemon_stop can_write (daemon_rounds (SHA256 env) can_write rounds (d, fs)) of
             None \<Rightarrow> None
           | Some (d, fs) \<Rightarrow> Some (0, fs)))"


section \<open>The chain the daemon builds\<close>

text \<open>The memory pool of the daemon stays empty: nothing in it adds a transaction.\<close>

lemma empty_pool_spends: "block_spends (candidate sha now m [] c n) = []"
  by (simp add: candidate_spends)

definition pays :: "Miner \<Rightarrow> nat \<Rightarrow> Block \<Rightarrow> bool" where
  "pays m k b \<longleftrightarrow> (\<exists>tx. transactions b = [tx]
     \<and> outputs tx = [\<lparr>amount = getBlockSubsidy (word_of_nat k), script_pubkey = coinbase_script (payoutHash m)\<rparr>])"

lemma candidate_pays:
  "pays m (Suc (unat (height c))) (memo_block sha (candidate sha now m [] c n))"
  by (simp add: pays_def) (simp add: miner_coinbase_def getHeight_def add.commute)

lemma empty_round:
  assumes "holds_chain sha c bs" "height c \<noteq> - 1"
    and "mining_round sha w now now' m [] c fs = (r, c', fs')"
  obtains (same) "c' = c"
  | (mined) b where "extends_chain sha bs b" "holds_chain sha c' (bs @ [b])" "pays m (length bs) b"
      "map_find (bc_utxo c') = Utxo.connected sha b (map_find (bc_utxo c))"
      "Utxo.connected sha b (map_find (bc_utxo c)) = map_find (bc_utxo c) ++ map_of (tx_creates sha (miner_coinbase m c))"
proof (cases rule: mining_round_cases [of sha now m "[]" c w now' fs])
  case none
  then show ?thesis using same assms(3) by simp
next
  case (found n)
  let ?b = "candidate sha now m [] c n"
  have a: "addBlock sha w now' ?b (height c + 1) c fs = (r, c', fs')" using found(2) assms(3) by simp
  have l: "length bs = Suc (unat (height c))" using assms(1) by (simp add: holds_chain_def)
  from assms(1,2) a show ?thesis
  proof (cases rule: addBlock_step)
    case extended
    have "rev (tx_creates sha (miner_coinbase m c)) = tx_creates sha (miner_coinbase m c)"
      by (simp add: tx_creates_def) (simp add: miner_coinbase_def)
    moreover have "map_find (bc_utxo c) |` UNIV = map_find (bc_utxo c)" by (simp add: restrict_map_def)
    ultimately have "Utxo.connected sha (memo_block sha ?b) (map_find (bc_utxo c))
        = map_find (bc_utxo c) ++ map_of (tx_creates sha (miner_coinbase m c))"
      by (simp add: Utxo.connected_def empty_pool_spends) (simp add: block_creates_def)
    moreover have "map_find (bc_utxo c') = Utxo.connected sha (memo_block sha ?b) (map_find (bc_utxo c))"
      using extended(4) by (simp add: Utxo.connected_def)
    ultimately show ?thesis using mined extended(2,3) candidate_pays [of m c sha now n] l by simp
  qed (auto simp: empty_pool_spends intro: same)
qed

text \<open>What holds after any number of rounds.\<close>

definition daemon_inv :: "hasher \<Rightarrow> nat \<Rightarrow> daemon \<Rightarrow> Block list \<Rightarrow> bool" where
  "daemon_inv sha k d bs \<longleftrightarrow>
     valid_chain sha bs \<and> holds_chain sha (d_chain d) bs \<and> map_find (bc_utxo (d_chain d)) = replay sha bs
     \<and> length bs \<le> Suc k \<and> d_mempool d = []
     \<and> (\<forall>m. d_miner d = Some m \<longrightarrow> (\<forall>i. 0 < i \<longrightarrow> i < length bs \<longrightarrow> pays m i (bs ! i)))
     \<and> (d_miner d = None \<longrightarrow> length bs = 1)"

lemma daemon_round_frame:
  "d_dir (fst (daemon_round sha w cl st)) = d_dir (fst st)" "d_miner (fst (daemon_round sha w cl st)) = d_miner (fst st)"
  "d_config (fst (daemon_round sha w cl st)) = d_config (fst st)" "d_wallet (fst (daemon_round sha w cl st)) = d_wallet (fst st)"
  by (simp_all add: daemon_round_def Let_def split: prod.split option.split)

lemma daemon_rounds_frame:
  "d_dir (fst (daemon_rounds sha w rs st)) = d_dir (fst st)" "d_miner (fst (daemon_rounds sha w rs st)) = d_miner (fst st)"
  "d_config (fst (daemon_rounds sha w rs st)) = d_config (fst st)" "d_wallet (fst (daemon_rounds sha w rs st)) = d_wallet (fst st)"
  unfolding daemon_rounds_def by (induction rs arbitrary: st) (simp_all add: daemon_round_frame)

lemma daemon_round_inv:
  assumes "daemon_inv sha k d bs" "k < 2 ^ 64 - 1"
  shows "\<exists>bs'. daemon_inv sha (Suc k) (fst (daemon_round sha w cl (d, fs))) bs'"
proof (cases "\<exists>m. d_miner d = Some m \<and> is_mining m")
  case False
  then have "daemon_round sha w cl (d, fs) = (d, fs)"
    by (auto simp: daemon_round_def Let_def split: option.split prod.split)
  then show ?thesis using assms by (intro exI [of _ bs]) (simp add: daemon_inv_def)
next
  case True
  then obtain m where m: "d_miner d = Some m" "is_mining m" by blast
  obtain now now' where cl: "cl = (now, now')" by (cases cl)
  obtain r c' fs' where r: "mining_round sha w now now' m [] (d_chain d) fs = (r, c', fs')" by (metis surj_pair)
  have d: "daemon_round sha w cl (d, fs) = (d\<lparr>d_chain := c'\<rparr>, fs')"
    using assms(1) m r by (simp add: daemon_round_def cl daemon_inv_def)
  have h: "holds_chain sha (d_chain d) bs" using assms(1) by (simp add: daemon_inv_def)
  then have "unat (height (d_chain d)) \<le> k" using assms(1) by (simp add: holds_chain_def daemon_inv_def)
  then have "height (d_chain d) \<noteq> - 1"
    using assms(2) by (auto simp: unsigned_minus_1_eq_mask mask_eq_exp_minus_1)
  from h this r show ?thesis
  proof (cases rule: empty_round)
    case same
    then show ?thesis using assms(1) by (intro exI [of _ bs]) (simp add: d daemon_inv_def)
  next
    case (mined b)
    have "\<forall>i. 0 < i \<longrightarrow> i < length (bs @ [b]) \<longrightarrow> pays m i ((bs @ [b]) ! i)"
      using assms(1) m(1) mined(3) by (auto simp: daemon_inv_def nth_append less_Suc_eq)
    moreover have "valid_chain sha (bs @ [b])"
      using assms(1) mined(1) by (auto simp: daemon_inv_def intro: valid_chain.extend)
    moreover have "map_find (bc_utxo c') = replay sha (bs @ [b])"
      using assms(1) mined(4) by (simp add: daemon_inv_def)
    ultimately show ?thesis
      using assms(1) m(1) mined(2) by (intro exI [of _ "bs @ [b]"]) (simp add: d daemon_inv_def)
  qed
qed

lemma daemon_rounds_inv:
  assumes "daemon_inv sha k d bs" "k + length rs < 2 ^ 64"
  shows "\<exists>bs'. daemon_inv sha (k + length rs) (fst (daemon_rounds sha w rs (d, fs))) bs'"
  using assms
proof (induction rs arbitrary: k d fs bs)
  case (Cons cl rs)
  obtain d' fs' where r: "daemon_round sha w cl (d, fs) = (d', fs')" by (metis surj_pair)
  have "k < 2 ^ 64 - 1" using Cons.prems(2) by simp
  from daemon_round_inv [OF Cons.prems(1) this, of w cl fs] obtain bs' where
    "daemon_inv sha (Suc k) d' bs'" by (auto simp: r)
  from Cons.IH [OF this, of fs'] Cons.prems(2) show ?case
    by (simp add: daemon_rounds_def r)
qed (auto simp: daemon_rounds_def)

text \<open>What the start produces: the genesis chain whatever the files hold.\<close>

lemma daemon_start_facts:
  assumes "daemon_start env home junk args fs = Inr d"
  obtains config where "daemon_config home args fs = Some (d_dir d, config)" "d_config d = config"
    "d_chain d = main_chain (SHA256 env) (d_dir d) junk" "d_mempool d = []"
    "d_wallet d = open_wallet env (d_dir d) (config_get config ''walletpass'' []) fs"
    "open_miner (SHA256 env) config = Some (d_miner d)"
proof -
  obtain dataDir config where c: "daemon_config home args fs = Some (dataDir, config)"
    using assms by (auto simp: daemon_start_def split: option.splits prod.splits)
  have ok: "fst (cs_init dataDir (new_chainstate junk))" "fst (bc_init dataDir c')" for c'
    by (simp_all add: cs_init_def bc_init_def Let_def split: option.split prod.split)
  have "d_dir d = dataDir \<and> d_config d = config \<and> d_mempool d = []
    \<and> d_chain d = main_chain (SHA256 env) dataDir junk
    \<and> d_wallet d = open_wallet env dataDir (config_get config ''walletpass'' []) fs
    \<and> open_miner (SHA256 env) config = Some (d_miner d)"
    using assms ok unfolding daemon_start_def c main_chain_def
    by (auto simp: Let_def split_beta split: if_splits option.splits)
  then show ?thesis using that c by blast
qed

lemma daemon_start_inv:
  assumes "daemon_start env home junk args fs = Inr d"
  shows "daemon_inv (SHA256 env) 0 d [makeGenesisBlock (SHA256 env)]"
  using assms
proof (rule daemon_start_facts)
  assume "d_chain d = main_chain (SHA256 env) (d_dir d) junk" "d_mempool d = []"
  then show ?thesis using main_chain_holds by (auto simp: daemon_inv_def intro: valid_chain.genesis)
qed


text \<open>Without a payout address the miner pays to the zero hash, as the genesis block does.\<close>

lemma open_miner_payout:
  assumes "open_miner sha config = Some (Some m)" "config_get config ''mineaddr'' [] = []"
  shows "payoutHash m = replicate 20 0"
  using assms
  by (auto simp: open_miner_def Let_def miner_start_def new_miner_def split: option.splits if_splits)

lemma first_era: "unat h < 210000 \<Longrightarrow> getBlockSubsidy h = getBlockSubsidy 0"
  by (simp add: word_unat_eq_iff unat_getBlockSubsidy subsidy_at_def)

lemma coinbase_is_genesis:
  assumes "payoutHash m = replicate 20 0" "unat (height c + 1) < 210000"
  shows "tx_creates sha (miner_coinbase m c) = tx_creates sha genesis_coinbase"
  using assms first_era [OF assms(2)]
  by (simp add: tx_creates_def txid_fresh miner_coinbase_def genesis_coinbase_def txid_buf_enc outpoint_of_def
      getHeight_def coinbase_script_def Let_def)

lemma genesis_replay: "replay sha [makeGenesisBlock sha] = map_of (tx_creates sha genesis_coinbase)"
proof -
  have "rev (tx_creates sha genesis_coinbase) = tx_creates sha genesis_coinbase"
    by (simp add: tx_creates_def) (simp add: genesis_coinbase_def)
  then show ?thesis
    by (simp add: replay_def Utxo.connected_def block_creates_def makeGenesisBlock_def)
qed

lemma no_new_coins:
  assumes "daemon_inv sha k d bs" "k + length rs < 209999"
    and "\<And>m. d_miner d = Some m \<Longrightarrow> payoutHash m = replicate 20 0"
    and "map_find (bc_utxo (d_chain d)) = map_of (tx_creates sha genesis_coinbase)"
  shows "map_find (bc_utxo (d_chain (fst (daemon_rounds sha w rs (d, fs))))) = map_of (tx_creates sha genesis_coinbase)"
  using assms
proof (induction rs arbitrary: k d fs bs)
  case (Cons cl rs)
  obtain d' fs' where r: "daemon_round sha w cl (d, fs) = (d', fs')" by (metis surj_pair)
  have "k < 2 ^ 64 - 1" using Cons.prems(2) by simp
  from daemon_round_inv [OF Cons.prems(1) this, of w cl fs] obtain bs' where
    inv: "daemon_inv sha (Suc k) d' bs'" by (auto simp: r)
  have m': "d_miner d' = d_miner d" using daemon_round_frame(2) [of sha w cl "(d, fs)"] by (simp add: r)
  have "map_find (bc_utxo (d_chain d')) = map_of (tx_creates sha genesis_coinbase)"
  proof (cases "\<exists>m. d_miner d = Some m \<and> is_mining m")
    case False
    then have "d' = d" using r by (auto simp: daemon_round_def Let_def split: option.splits prod.splits)
    then show ?thesis using Cons.prems(4) by simp
  next
    case True
    then obtain m where m: "d_miner d = Some m" "is_mining m" by blast
    obtain now now' where cl: "cl = (now, now')" by (cases cl)
    obtain q c' fs2 where q: "mining_round sha w now now' m [] (d_chain d) fs = (q, c', fs2)" by (metis surj_pair)
    have d': "d_chain d' = c'" using r m q Cons.prems(1) by (auto simp: daemon_round_def cl daemon_inv_def)
    have h: "holds_chain sha (d_chain d) bs" using Cons.prems(1) by (simp add: daemon_inv_def)
    then have le: "unat (height (d_chain d)) \<le> k" using Cons.prems(1) by (simp add: holds_chain_def daemon_inv_def)
    then have ne: "height (d_chain d) \<noteq> - 1"
      using Cons.prems(2) by (auto simp: unsigned_minus_1_eq_mask mask_eq_exp_minus_1)
    have "unat (height (d_chain d) + 1) = Suc (unat (height (d_chain d)))"
      using ne by (intro unat_plus_1) (simp add: eq_neg_iff_add_eq_0)
    then have "unat (height (d_chain d) + 1) < 210000" using le Cons.prems(2) by simp
    then have e: "tx_creates sha (miner_coinbase m (d_chain d)) = tx_creates sha genesis_coinbase"
      using Cons.prems(3) m(1) by (intro coinbase_is_genesis) simp_all
    from h ne q show ?thesis
    proof (cases rule: empty_round)
      case same
      then show ?thesis using Cons.prems(4) by (simp add: d')
    next
      case (mined b)
      have "f ++ f = f" for f :: "OutPoint \<rightharpoonup> UtxoEntry" by (auto simp: map_add_def split: option.split)
      then show ?thesis using mined(4,5) Cons.prems(4) by (simp add: d' e)
    qed
  qed
  from Cons.IH [OF inv _ _ this, of fs'] Cons.prems(2,3) show ?case
    by (simp add: daemon_rounds_def r m')
qed (simp add: daemon_rounds_def)


section \<open>The summary file\<close>

lemma mined_summary_lines:
  "get_lines (mined_summary h t) = [''blocks='' @ to_string (unat h), ''total_shwn='' @ to_string (unat (t div COIN))]"
proof -
  have n: "CHR 0x0A \<notin> set (''blocks='' @ to_string (unat h))" "CHR 0x0A \<notin> set (''total_shwn='' @ to_string (unat (t div COIN)))"
    using no_newline by simp_all
  have "mined_summary h t = (''blocks='' @ to_string (unat h)) @ CHR 0x0A
      # (''total_shwn='' @ to_string (unat (t div COIN))) @ CHR 0x0A # []"
    by (simp add: mined_summary_def)
  then show ?thesis by (simp only: get_lines_line [OF n(1)] get_lines_line [OF n(2)] get_lines_Nil)
qed

lemma shown_number: "int_text (uint w) = to_string (unat w)"
  by (simp add: int_text_def)

lemma mined_summary_read:
  assumes "unat h < 2 ^ 63"
  shows "mined_lines (get_lines (mined_summary h t)) (0, 0) = Some (int (unat h), int (unat (t div COIN)))"
proof -
  have "unat (t div COIN) < 2 ^ 63"
    using unsigned_less [of t, where 'a = nat] by (simp add: unat_div COIN_def)
  then show ?thesis
    using assms stoll_to_string unfolding mined_summary_lines by simp
qed

lemma daemon_main_shown:
  assumes "daemon_start env home junk args fs = Inr d" "length rounds < 2 ^ 63"
    and "can_write (d_dir d @ ''/mined_summary.txt'')" "getDataDir home cfg = d_dir d"
    and "c = d_chain (fst (daemon_rounds (SHA256 env) can_write rounds (d, fs)))"
  shows "\<exists>fs' t. daemon_main env home junk can_write args rounds fs = Some (0, fs') \<and> getTotalSupplyUpTo (height c) = Some t
    \<and> fs' (getDataDir home cfg @ ''/mined_summary.txt'') = Some (string_bytes (mined_summary (height c) t))
    \<and> unat (height c) \<le> length rounds"
proof -
  have "0 + length rounds < 2 ^ 64" using assms(2) by simp
  from daemon_rounds_inv [OF daemon_start_inv [OF assms(1)] this, of can_write fs]
  obtain bs where "daemon_inv (SHA256 env) (0 + length rounds) (fst (daemon_rounds (SHA256 env) can_write rounds (d, fs))) bs" by blast
  then have le: "unat (height c) \<le> length rounds" by (simp add: assms(5) daemon_inv_def holds_chain_def)
  then have "height c \<noteq> - 1" using assms(2) by (auto simp: unsigned_minus_1_eq_mask mask_eq_exp_minus_1)
  from getTotalSupplyUpTo_eq [OF this] obtain t where t: "getTotalSupplyUpTo (height c) = Some t" by blast
  obtain d' fs1 where r: "daemon_rounds (SHA256 env) can_write rounds (d, fs) = (d', fs1)" by (metis surj_pair)
  have "d_dir d' = d_dir d" using daemon_rounds_frame(1) [of "SHA256 env" can_write rounds "(d, fs)"] by (simp add: r)
  then have "daemon_main env home junk can_write args rounds fs
      = Some (0, fs1(d_dir d @ ''/mined_summary.txt'' \<mapsto> string_bytes (mined_summary (height c) t)))"
    using assms(1,3,5) t by (simp add: daemon_main_def r daemon_stop_def Let_def getHeight_def)
  then show ?thesis using t le assms(4) by simp
qed

lemma wallet_at_start:
  assumes "m \<noteq> []" "CHR 0x0A \<notin> set m"
    and "fs (dataDir @ ''/wallet.dat'') = None"
    and "fs (dataDir @ ''/wallet_backup.txt'') = Some (string_bytes (m @ [CHR 0x0A]))"
  shows "open_wallet env dataDir pass fs = snd (restore env m [] new_wallet)"
  using assms get_lines_line [OF assms(2), of "[]"] by (simp add: open_wallet_def Let_def)


section \<open>Properties\<close>

definition demo_args :: "string list" where
  "demo_args = [''--mine'', ''--datadir'', ''/srv'']"

lemma demo_config:
  "\<exists>c. daemon_config None demo_args (\<lambda>_. None) = Some (''/srv'', c)
     \<and> map_find (cfg_values c) = [''mine'' \<mapsto> ''1'', ''datadir'' \<mapsto> ''/srv'']"
proof -
  let ?c = "load_args demo_args new_config"
  have m: "map_find (cfg_values ?c) = [''mine'' \<mapsto> ''1'', ''datadir'' \<mapsto> ''/srv'']"
    by (auto simp: demo_args_def new_config_def map_find_put fun_eq_iff)
  then have "getDataDir None ?c = ''/srv''" by (simp add: getDataDir_def config_get_def)
  with m show ?thesis
    by (intro exI [of _ ?c]) (simp add: daemon_config_def loadFromArgs_def load_def)
qed

lemma demo_start:
  "\<exists>d m. daemon_start (toy_env lucky_sha) None uint256_zero demo_args (\<lambda>_. None) = Inr d \<and> d_miner d = Some m
     \<and> d_dir d = ''/srv'' \<and> config_get (d_config d) ''mineaddr'' [] = []"
proof -
  obtain c where c: "daemon_config None demo_args (\<lambda>_. None) = Some (''/srv'', c)"
    "map_find (cfg_values c) = [''mine'' \<mapsto> ''1'', ''datadir'' \<mapsto> ''/srv'']"
    using demo_config by blast
  have g: "config_get c ''gen'' [] = []" "config_get c ''genproclimit'' [] = []" "config_get c ''port'' [] = []"
    "config_get c ''mine'' [] = ''1''" "config_get c ''mineaddr'' [] = []"
    by (simp_all add: config_get_def c(2))
  have "getPort c ''port'' Network.P2P_PORT = Some Network.P2P_PORT"
    by (simp add: getPort_def getInt_def g Network.P2P_PORT_def)
  moreover have "open_miner (SHA256 (toy_env lucky_sha)) c = Some (Some (miner_start 2 new_miner))"
    by (simp add: open_miner_def getInt_def g Let_def)
  ultimately show ?thesis
    by (auto simp: daemon_start_def c(1) cs_init_def bc_init_def g Let_def split: option.split prod.split)
qed





text \<open>
  The daemon leaves a summary that the client reads back: when the daemon ends with exit code
  0 and could write its file, the client's command \<^verbatim>\<open>mined\<close>, looking into the same data
  directory, shows exactly the height of the chain and the whole coins of the supply up to it.
\<close>

theorem summary_shown:
  assumes "daemon_start env home junk args fs = Inr d" "length rounds < 2 ^ 63"
    and "can_write (d_dir d @ ''/mined_summary.txt'')" "getDataDir home cfg = d_dir d"
  defines "c \<equiv> d_chain (fst (daemon_rounds (SHA256 env) can_write rounds (d, fs)))"
  shows "\<exists>fs' t. daemon_main env home junk can_write args rounds fs = Some (0, fs')
    \<and> getTotalSupplyUpTo (height c) = Some t
    \<and> cli_mined home cfg fs' = Exit 0 [Text ''Mining Summary:'',
        Text (''   Blocks mined: '' @ to_string (unat (height c))),
        Text (''   Total SHWN: '' @ to_string (unat (t div COIN)) @ '' SHWN''),
        Text (''Amazing! You'' @ [CHR 0x27] @ ''re helping build the Shawn Coin network!'')]"
proof -
  obtain fs' t where r: "daemon_main env home junk can_write args rounds fs = Some (0, fs')"
    "getTotalSupplyUpTo (height c) = Some t"
    "fs' (getDataDir home cfg @ ''/mined_summary.txt'') = Some (string_bytes (mined_summary (height c) t))"
    "unat (height c) \<le> length rounds"
    using daemon_main_shown [of env home junk args fs d rounds can_write cfg c, OF assms(1-4)] by (auto simp: c_def)
  have "unat (height c) < 2 ^ 63" using r(4) assms(2) by simp
  from mined_summary_read [OF this, of t] r(1-3) show ?thesis
    by (simp add: cli_mined_def shown_number)
qed

theorem summary_shown_witness:
  "\<exists>fs' t b. daemon_main (toy_env lucky_sha) None uint256_zero (\<lambda>_. True) demo_args [(1, 1)] (\<lambda>_. None) = Some (0, fs')
     \<and> cli_mined None (new_config\<lparr>cfg_values := [(''datadir'', ''/srv'')]\<rparr>) fs' = Exit 0 [Text ''Mining Summary:'',
        Text (''   Blocks mined: '' @ b), Text (''   Total SHWN: '' @ t @ '' SHWN''),
        Text (''Amazing! You'' @ [CHR 0x27] @ ''re helping build the Shawn Coin network!'')]"
proof -
  obtain d m where d: "daemon_start (toy_env lucky_sha) None uint256_zero demo_args (\<lambda>_. None) = Inr d" "d_dir d = ''/srv''"
    using demo_start by blast
  have l: "length [(1 :: u64, 1 :: u64)] < 2 ^ 63" by simp
  have dir: "getDataDir None (new_config\<lparr>cfg_values := [(''datadir'', ''/srv'')]\<rparr>) = d_dir d"
    by (simp add: getDataDir_def config_get_def d(2))
  from summary_shown [OF d(1) l _ dir, of "\<lambda>_. True"] show ?thesis by blast
qed

end
