(* ===== verification/WalletTool.thy ===== *)
theory WalletTool
  imports Daemon
begin

text \<open>
  \<^verbatim>\<open>tools/wallet_tool.cpp\<close>: the local wallet utility, which creates or restores a wallet, may
  write its phrase to the backup file, and prints addresses. What it writes to the error
  stream are the failures of the list of messages. A result \<open>None\<close> is the undefined behaviour of
  generating a phrase.
\<close>

definition starts_with :: "string \<Rightarrow> string \<Rightarrow> bool" where
  "starts_with p s \<longleftrightarrow> take (length p) s = p"

definition getArgValue :: "string list \<Rightarrow> string \<Rightarrow> string" where
  "getArgValue args name =
     (case List.find (\<lambda>a. starts_with (name @ ''='') a) args of
        Some a \<Rightarrow> drop (length name + 1) a
      | None \<Rightarrow> [])"

text \<open>The last number of addresses asked for; \<open>None\<close> where \<^verbatim>\<open>std::stoi\<close> throws.\<close>

fun tool_count :: "string list \<Rightarrow> int \<Rightarrow> int option" where
  "tool_count [] count = Some count"
| "tool_count (a # args) count =
     (if starts_with ''--count='' a
      then case stoi (drop 8 a) of None \<Rightarrow> None | Some n \<Rightarrow> tool_count args n
      else tool_count args count)"

definition tool_dir :: "string option \<Rightarrow> string list \<Rightarrow> string" where
  "tool_dir home args =
     (let datadir = getArgValue args ''--datadir''
      in if datadir = [] then getDataDir home new_config else datadir)"

definition tool_backup :: "(string \<Rightarrow> bool) \<Rightarrow> string \<Rightarrow> string \<Rightarrow> files \<Rightarrow> message list \<times> files" where
  "tool_backup can_write dataDir m fs =
     (let path = dataDir @ ''/wallet_backup.txt'';
          fs = (if can_write path then fs(path \<mapsto> string_bytes (m @ [CHR 0x0A])) else fs)
      in ([Text (''Mnemonic written to: '' @ dataDir @ ''/wallet_backup.txt'')], fs))"

fun tool_addresses :: "'kp crypto \<Rightarrow> nat list \<Rightarrow> Wallet \<Rightarrow> message list \<times> Wallet" where
  "tool_addresses env [] w = ([], w)"
| "tool_addresses env (i # is) w =
     (let (address, w) = generateNewAddress env w;
          (out, w) = tool_addresses env is w
      in (Text (''  ['' @ to_string i @ ''] '' @ address) # out, w))"

definition tool_derive :: "'kp crypto \<Rightarrow> int \<Rightarrow> Wallet \<Rightarrow> message list \<times> Wallet" where
  "tool_derive env count w =
     (let (out, w) = tool_addresses env [0..<nat count] w
      in (Text (''Deriving first '' @ int_text count @ '' addresses:'') # out, w))"

definition wallet_tool ::
    "'kp crypto \<Rightarrow> string option \<Rightarrow> (string \<Rightarrow> bool) \<Rightarrow> string list \<Rightarrow> files \<Rightarrow> (outcome \<times> files \<times> Wallet) option" where
  "wallet_tool env home can_write args fs =
     (case args of
        [] \<Rightarrow> Some (Exit 1 [Help], fs, new_wallet)
      | cmd # _ \<Rightarrow>
          let passphrase = getArgValue args ''--passphrase'';
              mnemonicArg = getArgValue args ''--mnemonic'';
              doBackup = List.member args ''--backup''
          in case tool_count args 5 of
               None \<Rightarrow> Some (Terminated [], fs, new_wallet)
             | Some count \<Rightarrow>
                 let dataDir = tool_dir home args; w = new_wallet
                 in if cmd = ''create'' then
                      case create env passphrase w of
                        None \<Rightarrow> None
                      | Some (ok, w) \<Rightarrow>
                          if \<not> ok then Some (Exit 1 [Failure ''Failed to create wallet.''], fs, w)
                          else
                            let m = mnemonic w;
                                out = [Text ''Generated mnemonic (store this offline):'', Text m, Text []];
                                (written, fs) = (if doBackup then tool_backup can_write dataDir m fs else ([], fs));
                                (listed, w) = tool_derive env count w
                            in Some (Exit 0 (out @ written @ listed), fs, w)
                    else if cmd = ''restore'' then
                      if mnemonicArg = [] then Some (Exit 1 [Failure ''Missing --mnemonic for restore.''], fs, w)
                      else
                        let (ok, w) = restore env mnemonicArg passphrase w
                        in if \<not> ok then Some (Exit 1 [Failure ''Failed to restore wallet from mnemonic.''], fs, w)
                           else
                             let out = [Text ''Wallet restored from provided mnemonic.''];
                                 (written, fs) = (if doBackup then tool_backup can_write dataDir mnemonicArg fs else ([], fs));
                                 (listed, w) = tool_derive env count w
                             in Some (Exit 0 (out @ written @ listed), fs, w)
                    else Some (Exit 1 [Help], fs, w))"

lemma generate_keeps:
  "mnemonic (snd (generateNewAddress env w)) = mnemonic w" "hd_wallet (snd (generateNewAddress env w)) = hd_wallet w"
  by (simp_all add: generateNewAddress_def Let_def)

lemma tool_addresses_keeps:
  "mnemonic (snd (tool_addresses env is w)) = mnemonic w" "hd_wallet (snd (tool_addresses env is w)) = hd_wallet w"
  by (induction "is" arbitrary: w) (simp_all add: generate_keeps split_beta)

lemma tool_derive_keeps:
  "mnemonic (snd (tool_derive env n w)) = mnemonic w" "hd_wallet (snd (tool_derive env n w)) = hd_wallet w"
  by (simp_all add: tool_derive_def tool_addresses_keeps split_beta)

lemma restore_mnemonic: "mnemonic (snd (restore env m p w)) = m"
  by (simp add: restore_def Let_def split: prod.split)

lemma create_restore:
  assumes "create env p w = Some (True, w')"
  shows "restore env (mnemonic w') p w = (True, w')" "mnemonic w' \<noteq> []"
  using assms by (auto simp: create_def restore_def Let_def split: option.splits if_splits prod.splits)

text \<open>A run that ends well and writes a backup, in either mode.\<close>

lemma tool_finish:
  assumes "(case tool_backup can_write dir m fs of (written, fs) \<Rightarrow>
      case tool_derive env count w0 of (listed, w) \<Rightarrow> Some (Exit 0 (out0 @ written @ listed), fs, w))
    = Some (Exit 0 out, fs', w)" "can_write (dir @ ''/wallet_backup.txt'')"
  shows "\<exists>pre. out = pre @ fst (tool_derive env count w0)" "w = snd (tool_derive env count w0)"
    "fs' = fs(dir @ ''/wallet_backup.txt'' \<mapsto> string_bytes (m @ [CHR 0x0A]))"
proof -
  have "out = (out0 @ [Text (''Mnemonic written to: '' @ dir @ ''/wallet_backup.txt'')]) @ fst (tool_derive env count w0)
    \<and> w = snd (tool_derive env count w0) \<and> fs' = fs(dir @ ''/wallet_backup.txt'' \<mapsto> string_bytes (m @ [CHR 0x0A]))"
    using assms by (auto simp: tool_backup_def Let_def split: prod.splits)
  then show "\<exists>pre. out = pre @ fst (tool_derive env count w0)" "w = snd (tool_derive env count w0)"
    "fs' = fs(dir @ ''/wallet_backup.txt'' \<mapsto> string_bytes (m @ [CHR 0x0A]))" by blast+
qed

lemma wallet_tool_backup:
  assumes "wallet_tool env home can_write args fs = Some (Exit 0 out, fs', w)" "''--backup'' \<in> set args"
    and "can_write (tool_dir home args @ ''/wallet_backup.txt'')"
  obtains pre count w0 where "restore env (mnemonic w) (getArgValue args ''--passphrase'') new_wallet = (True, w0)"
    "mnemonic w \<noteq> []" "out = pre @ fst (tool_derive env count w0)" "w = snd (tool_derive env count w0)"
    "fs' = fs(tool_dir home args @ ''/wallet_backup.txt'' \<mapsto> string_bytes (mnemonic w @ [CHR 0x0A]))"
proof -
  obtain cmd rest where args: "args = cmd # rest" using assms(2) by (cases args) auto
  have b: "List.member args ''--backup''" using assms(2) by (simp add: List.member_iff)
  obtain count where n: "tool_count args 5 = Some count"
    using assms(1) by (auto simp: wallet_tool_def args Let_def split: option.splits)
  have c: "(case args of [] \<Rightarrow> x | y # ys \<Rightarrow> f y ys) = f cmd rest" for x and f :: "string \<Rightarrow> string list \<Rightarrow> 'z"
    by (simp add: args)
  note t = assms(1) [unfolded wallet_tool_def c Let_def n option.case b if_True]
  let ?dir = "tool_dir home args" and ?p = "getArgValue args ''--passphrase''"
  consider (create) w0 where "create env ?p new_wallet = Some (True, w0)"
      "(case tool_backup can_write ?dir (mnemonic w0) fs of (written, fs) \<Rightarrow>
        case tool_derive env count w0 of (listed, w) \<Rightarrow>
          Some (Exit 0 ([Text ''Generated mnemonic (store this offline):'', Text (mnemonic w0), Text []] @ written @ listed), fs, w))
       = Some (Exit 0 out, fs', w)"
    | (restore) m w0 where "m \<noteq> []" "restore env m ?p new_wallet = (True, w0)"
      "(case tool_backup can_write ?dir m fs of (written, fs) \<Rightarrow>
        case tool_derive env count w0 of (listed, w) \<Rightarrow>
          Some (Exit 0 ([Text ''Wallet restored from provided mnemonic.''] @ written @ listed), fs, w))
       = Some (Exit 0 out, fs', w)"
    using t assms(2) by (auto split: if_splits option.splits prod.splits)
  then show ?thesis
  proof cases
    case create
    note f = tool_finish [OF create(2) assms(3)]
    have m: "mnemonic w = mnemonic w0" by (simp add: f(2) tool_derive_keeps)
    show ?thesis using that f create_restore [OF create(1)] unfolding m by blast
  next
    case restore
    note f = tool_finish [OF restore(3) assms(3)]
    have "mnemonic w0 = m" using restore_mnemonic [of env m ?p new_wallet] by (simp add: restore(2))
    then have m: "mnemonic w = m" by (simp add: f(2) tool_derive_keeps)
    show ?thesis using that f restore(1,2) unfolding m by blast
  qed
qed



end
