(* ===== verification/Node_System.thy ===== *)
theory Node_System
  imports WalletTool
begin

text \<open>
  The components together: the chain, the memory pool, the wallet and the miner behind the RPC
  server, as \<^verbatim>\<open>RpcContext\<close> ties them. A run is a sequence of HTTP requests, authenticated or
  not, with whatever the random source, the clock and the files answer, and of mining rounds.
  A round and a request are one step each.
\<close>

definition booted :: "hasher \<Rightarrow> rpc_state \<Rightarrow> bool" where
  "booted sha st \<longleftrightarrow>
     (\<exists>dataDir junk. rpc_chain st = Some (main_chain sha dataDir junk))
     \<and> rpc_mempool st = Some [] \<and> rpc_wallet st = Some new_wallet \<and> rpc_miner st = Some new_miner"

inductive system_run ::
    "hasher \<Rightarrow> (bytes \<Rightarrow> bytes) \<Rightarrow> 'kp key_ops \<Rightarrow> 'd itself \<Rightarrow> string \<Rightarrow> string \<Rightarrow> rpc_state \<Rightarrow> bool"
  for sha rmd ops d user password where
  boot: "booted sha st \<Longrightarrow> system_run sha rmd ops d user password st"
| request: "system_run sha rmd ops d user password st \<Longrightarrow> on_backend sha rmd ops (lib (env :: ('kp, 'd) rpc_env))
    \<Longrightarrow> request_handler env user password auth post body st = Some (r, st')
    \<Longrightarrow> system_run sha rmd ops d user password st'"
| round: "system_run sha rmd ops d user password st
    \<Longrightarrow> rpc_chain st = Some c \<Longrightarrow> rpc_mempool st = Some pool \<Longrightarrow> rpc_miner st = Some m \<Longrightarrow> is_mining m
    \<Longrightarrow> height c \<noteq> - 1 \<Longrightarrow> mining_round sha w now now' m pool c (rpc_files st) = (ok, c', fs')
    \<Longrightarrow> system_run sha rmd ops d user password (st\<lparr>rpc_chain := Some c', rpc_files := fs'\<rparr>)"


inductive_cases system_runE: "system_run sha rmd ops d user password st"

definition miner_wf :: "Miner \<Rightarrow> bool" where
  "miner_wf m \<longleftrightarrow> length (payoutHash m) = 20 \<and> (is_mining m \<longleftrightarrow> threads m \<noteq> 0)"

definition coinbase_only :: "Block list \<Rightarrow> bool" where
  "coinbase_only bs \<longleftrightarrow> (\<forall>b \<in> set (tl bs). \<exists>tx. transactions b = [tx])"

definition system_inv :: "hasher \<Rightarrow> (bytes \<Rightarrow> bytes) \<Rightarrow> 'kp key_ops \<Rightarrow> rpc_state \<Rightarrow> bool" where
  "system_inv sha rmd ops st \<longleftrightarrow>
     (\<exists>c bs. rpc_chain st = Some c \<and> valid_chain sha bs \<and> holds_chain sha c bs
        \<and> map_find (bc_utxo c) = replay sha bs \<and> coinbase_only bs)
     \<and> rpc_mempool st = Some []
     \<and> (\<exists>w. rpc_wallet st = Some w \<and> wallet_run sha rmd ops w)
     \<and> (\<exists>m. rpc_miner st = Some m \<and> miner_wf m \<and> payoutHash m = replicate 20 0)"

text \<open>A request that is served has the effect of its method, any other none.\<close>

lemma request_effect:
  assumes "request_handler env user password auth post body st = Some (r, st')"
  obtains "st' = st" | meth where "rpc_effect env meth st = Some st'"
  using assms
  by (auto simp: request_handler_def handle_request split: option.splits if_splits)

lemma miner_start_wf: "miner_wf m \<Longrightarrow> miner_wf (miner_start n m)"
  using unat_eq_0 [of n] by (auto simp: miner_wf_def miner_start_def Let_def)

lemma miner_stop_wf: "miner_wf m \<Longrightarrow> miner_wf (miner_stop m)"
  by (simp add: miner_wf_def miner_stop_def)

lemma effect_inv:
  assumes "system_inv sha rmd ops st" "on_backend sha rmd ops (lib env)" "rpc_effect env meth st = Some st'"
  shows "system_inv sha rmd ops st'"
proof -
  obtain c bs w m where st: "rpc_chain st = Some c" "valid_chain sha bs" "holds_chain sha c bs"
    "map_find (bc_utxo c) = replay sha bs" "coinbase_only bs" "rpc_mempool st = Some []"
    "rpc_wallet st = Some w" "wallet_run sha rmd ops w" "rpc_miner st = Some m" "miner_wf m"
    "payoutHash m = replicate 20 0"
    using assms(1) by (auto simp: system_inv_def)
  have w: "wallet_run sha rmd ops w'" if "create (lib env) [] w = Some (ok, w')" for ok w'
    using st(8) assms(2) that by (rule wallet_run.create)
  have a: "wallet_run sha rmd ops (snd (generateNewAddress (lib env) w))"
    using st(8) assms(2) by (rule wallet_run.address)
  have p: "payoutHash (miner_start n m) = payoutHash m" "payoutHash (miner_stop m) = payoutHash m" for n
    by (simp_all add: miner_start_def miner_stop_def Let_def)
  from assms(3) consider "st' = st" | w' ok where "create (lib env) [] w = Some (ok, w')" "st' = st\<lparr>rpc_wallet := Some w'\<rparr>"
    | "st' = st\<lparr>rpc_wallet := Some (snd (generateNewAddress (lib env) w))\<rparr>"
    | "st' = st\<lparr>rpc_miner := Some (miner_start 1 m)\<rparr>" | "st' = st\<lparr>rpc_miner := Some (miner_stop m)\<rparr>"
    unfolding rpc_effect_def new_address_state_def st(7,9) by (auto split: if_splits)
  then show ?thesis
    by cases (use st w a in \<open>auto simp: system_inv_def p miner_start_wf miner_stop_wf\<close>)
qed

lemma round_inv:
  assumes "system_inv sha rmd ops st" "rpc_chain st = Some c" "rpc_mempool st = Some pool" "rpc_miner st = Some m"
    and "height c \<noteq> - 1" "mining_round sha w now now' m pool c fs = (ok, c', fs')"
  shows "system_inv sha rmd ops (st\<lparr>rpc_chain := Some c', rpc_files := fs'\<rparr>)"
proof -
  obtain bs where bs: "valid_chain sha bs" "holds_chain sha c bs" "map_find (bc_utxo c) = replay sha bs" "coinbase_only bs"
    using assms(1,2) by (auto simp: system_inv_def)
  have "pool = []" using assms(1,3) by (simp add: system_inv_def)
  from bs(2) assms(5) assms(6) [unfolded this]
  have "\<exists>bs'. valid_chain sha bs' \<and> holds_chain sha c' bs' \<and> map_find (bc_utxo c') = replay sha bs' \<and> coinbase_only bs'"
  proof (cases rule: empty_round)
    case same
    then show ?thesis using bs by blast
  next
    case (mined b)
    have "bs \<noteq> []" using bs(2) by (auto simp: holds_chain_def)
    then have "coinbase_only (bs @ [b])"
      using bs(4) mined(3) by (auto simp: coinbase_only_def pays_def)
    moreover have "valid_chain sha (bs @ [b])" using bs(1) mined(1) by (rule valid_chain.extend)
    ultimately show ?thesis using mined(2,4) bs(3) by (intro exI [of _ "bs @ [b]"]) simp
  qed
  then show ?thesis using assms(1) by (auto simp: system_inv_def)
qed

lemma system_run_inv: "system_run sha rmd ops d user password st \<Longrightarrow> system_inv sha rmd ops st"
proof (induction rule: system_run.induct)
  case (boot st)
  then show ?case
    using main_chain_holds [of sha] valid_chain.genesis [of sha] wallet_run.fresh [of sha rmd ops]
    by (fastforce simp: booted_def system_inv_def coinbase_only_def miner_wf_def new_miner_def)
next
  case (request st env auth post body r st')
  from request.hyps(3) show ?case
    using request.IH effect_inv [OF request.IH request.hyps(2)] by (cases rule: request_effect) auto
next
  case (round st c pool m w now now' ok c' fs')
  then show ?case using round_inv by blast
qed


section \<open>Properties\<close>

definition demo_system :: rpc_state where
  "demo_system = \<lparr>rpc_chain = Some (main_chain lucky_sha ''/srv'' uint256_zero), rpc_mempool = Some [],
     rpc_wallet = Some new_wallet, rpc_miner = Some new_miner, rpc_files = \<lambda>_. None, rpc_feed = None\<rparr>"

text \<open>A system after a request that starts the miner.\<close>

lemma demo_run:
  "system_run lucky_sha (\<lambda>_. replicate 20 0) (openssl_ops toy_openssl) TYPE(unit) [] []
     (demo_system\<lparr>rpc_miner := Some (miner_start 1 new_miner)\<rparr>)"
proof -
  let ?run = "system_run lucky_sha (\<lambda>_. replicate 20 0) (openssl_ops toy_openssl) TYPE(unit) [] []"
  have "?run demo_system" by (rule system_run.boot) (auto simp: booted_def demo_system_def)
  moreover have "on_backend lucky_sha (\<lambda>_. replicate 20 0) (openssl_ops toy_openssl) (lib toy_rpc)"
    by (simp add: on_backend_def) (simp add: toy_env_def)
  moreover have "request_handler toy_rpc [] [] [] True (request_body ''mining.start'' ''{}'') demo_system
      = Some (Answer ''null'', demo_system\<lparr>rpc_miner := Some (miner_start 1 new_miner)\<rparr>)"
    by (simp add: request_handler_def authorized_def handle_request method_of_body rpc_effect_def)
      (simp add: demo_system_def)
  ultimately show ?thesis by (rule system_run.request)
qed



text \<open>
  C22. No request and no mining round ever puts a transaction to work: in every run of the system
  the memory pool is empty, the chain is valid with its UTXO set the replay of the chain, and every
  block above the genesis block holds a coinbase alone; no run moves a coin.
\<close>

theorem system_moves_no_coins:
  assumes "system_run sha rmd ops d user password st"
  shows "\<exists>c bs. rpc_chain st = Some c \<and> valid_chain sha bs \<and> holds_chain sha c bs
    \<and> map_find (bc_utxo c) = replay sha bs \<and> rpc_mempool st = Some []
    \<and> (\<forall>i. 0 < i \<longrightarrow> i < length bs \<longrightarrow> (\<exists>tx. transactions (bs ! i) = [tx] \<and> isCoinbase tx))"
proof -
  from system_run_inv [OF assms] obtain c bs where c: "rpc_chain st = Some c" "valid_chain sha bs" "holds_chain sha c bs"
    "map_find (bc_utxo c) = replay sha bs" "rpc_mempool st = Some []" "coinbase_only bs"
    by (auto simp: system_inv_def)
  have "\<exists>tx. transactions (bs ! i) = [tx] \<and> isCoinbase tx" if "0 < i" "i < length bs" for i
  proof -
    have "bs ! i \<in> set (tl bs)" using that by (cases bs) (auto simp: nth_Cons')
    then obtain tx where tx: "transactions (bs ! i) = [tx]" using c(6) by (auto simp: coinbase_only_def)
    have "extends_chain sha (take i bs) (bs ! i)" using valid_chain_nth [OF c(2), of "i - 1"] that by simp
    then show ?thesis using tx by (simp add: extends_chain_def)
  qed
  then show ?thesis using c by blast
qed

theorem system_moves_no_coins_witness:
  "\<exists>bs. valid_chain lucky_sha bs \<and> holds_chain lucky_sha (main_chain lucky_sha ''/srv'' uint256_zero) bs
     \<and> map_find (bc_utxo (main_chain lucky_sha ''/srv'' uint256_zero)) = replay lucky_sha bs"
  using system_moves_no_coins [OF demo_run] by (auto simp: demo_system_def)

end
