(* ===== verification/Database.thy ===== *)
theory Database
  imports StdMap "HOL-Library.Char_ord" "HOL-Library.List_Lexorder"
begin

text \<open>
  \<^verbatim>\<open>src/storage/database.cpp\<close>: the key-value database behind one abstract class, with two
  implementations chosen when the program is built, the stub over \<^verbatim>\<open>std::map\<close> and RocksDB. The
  locale \<open>database\<close> is what a client of the class can rely on; the stub keeps it, and the RocksDB
  wrapper keeps it when the library does what its documentation says.
\<close>

section \<open>The stub\<close>

text \<open>
  \<^verbatim>\<open>StubDatabase\<close>: keys and values are \<^verbatim>\<open>std::string\<close>s, ordered by their characters. \<open>get\<close>
  leaves the caller's \<open>value\<close> as it was when the key is missing.
\<close>

type_synonym StubDatabase = "(string, string) std_map"

definition db_open :: "string \<Rightarrow> StubDatabase \<Rightarrow> bool \<times> StubDatabase" where
  "db_open path db = (True, db)"

definition db_get :: "string \<Rightarrow> string \<Rightarrow> StubDatabase \<Rightarrow> bool \<times> string" where
  "db_get key value db =
     (case map_find db key of None \<Rightarrow> (False, value) | Some v \<Rightarrow> (True, v))"

definition db_put :: "string \<Rightarrow> string \<Rightarrow> StubDatabase \<Rightarrow> bool \<times> StubDatabase" where
  "db_put key value db = (True, map_put key value db)"

definition db_del :: "string \<Rightarrow> StubDatabase \<Rightarrow> bool \<times> StubDatabase" where
  "db_del key db = (let db' = map_erase key db in (length db' < length db, db'))"

definition db_close :: "StubDatabase \<Rightarrow> StubDatabase" where
  "db_close db = db"


section \<open>RocksDB\<close>

text \<open>
  What the wrapper calls, on an abstract database; a boolean is \<^verbatim>\<open>Status::ok\<close>. The wrapper's state
  is its pointer: \<open>None\<close> is the null pointer, and using the database then is undefined, the outer
  \<open>None\<close> of a result.
\<close>

record 'db rocksdb =
  DB_Open :: "string \<Rightarrow> 'db option"
  DB_Get :: "'db \<Rightarrow> string \<Rightarrow> string option"
  DB_Put :: "'db \<Rightarrow> string \<Rightarrow> string \<Rightarrow> bool \<times> 'db"
  DB_Delete :: "'db \<Rightarrow> string \<Rightarrow> bool \<times> 'db"

definition rocks_open :: "'db rocksdb \<Rightarrow> string \<Rightarrow> bool \<times> 'db option" where
  "rocks_open lib path = (case DB_Open lib path of None \<Rightarrow> (False, None) | Some db \<Rightarrow> (True, Some db))"

definition rocks_close :: "'db option \<Rightarrow> 'db option" where
  "rocks_close db = None"

definition rocks_get :: "'db rocksdb \<Rightarrow> string \<Rightarrow> string \<Rightarrow> 'db option \<Rightarrow> (bool \<times> string) option" where
  "rocks_get lib key value st =
     (case st of
        None \<Rightarrow> None
      | Some db \<Rightarrow> (case DB_Get lib db key of None \<Rightarrow> Some (False, value) | Some v \<Rightarrow> Some (True, v)))"

definition rocks_put :: "'db rocksdb \<Rightarrow> string \<Rightarrow> string \<Rightarrow> 'db option \<Rightarrow> (bool \<times> 'db option) option" where
  "rocks_put lib key value st =
     (case st of
        None \<Rightarrow> None
      | Some db \<Rightarrow> (let (ok, db) = DB_Put lib db key value in Some (ok, Some db)))"

definition rocks_del :: "'db rocksdb \<Rightarrow> string \<Rightarrow> 'db option \<Rightarrow> (bool \<times> 'db option) option" where
  "rocks_del lib key st =
     (case st of
        None \<Rightarrow> None
      | Some db \<Rightarrow> (let (ok, db) = DB_Delete lib db key in Some (ok, Some db)))"


section \<open>The interface\<close>

datatype db_op = Put string string | Del string

text \<open>The map a list of operations leaves, by the last operation on each key.\<close>

fun last_op :: "db_op list \<Rightarrow> (string \<rightharpoonup> string) \<Rightarrow> (string \<rightharpoonup> string)" where
  "last_op [] m = m"
| "last_op (Put k v # ops) m = last_op ops (m(k \<mapsto> v))"
| "last_op (Del k # ops) m = last_op ops (m(k := None))"

text \<open>\<open>usable\<close> is an open database, \<open>contents\<close> what it holds.\<close>

locale database =
  fixes get :: "string \<Rightarrow> string \<Rightarrow> 's \<Rightarrow> (bool \<times> string) option"
    and put :: "string \<Rightarrow> string \<Rightarrow> 's \<Rightarrow> (bool \<times> 's) option"
    and del :: "string \<Rightarrow> 's \<Rightarrow> (bool \<times> 's) option"
    and usable :: "'s \<Rightarrow> bool" and contents :: "'s \<Rightarrow> (string \<rightharpoonup> string)"
  assumes get_contents: "usable s \<Longrightarrow> get k v s =
      Some (case contents s k of None \<Rightarrow> (False, v) | Some w \<Rightarrow> (True, w))"
    and put_contents: "usable s \<Longrightarrow> \<exists>s'. put k v s = Some (True, s') \<and> usable s' \<and> contents s' = (contents s)(k \<mapsto> v)"
    and del_contents: "usable s \<Longrightarrow> \<exists>r s'. del k s = Some (r, s') \<and> usable s' \<and> contents s' = (contents s)(k := None)"
begin

fun run :: "db_op list \<Rightarrow> 's \<Rightarrow> 's option" where
  "run [] s = Some s"
| "run (Put k v # ops) s = (case put k v s of None \<Rightarrow> None | Some (ok, s) \<Rightarrow> run ops s)"
| "run (Del k # ops) s = (case del k s of None \<Rightarrow> None | Some (ok, s) \<Rightarrow> run ops s)"

lemma run_contents:
  "usable s \<Longrightarrow> \<exists>s'. run ops s = Some s' \<and> usable s' \<and> contents s' = last_op ops (contents s)"
proof (induction ops arbitrary: s)
  case (Cons oper ops)
  show ?case
  proof (cases oper)
    case (Put k v)
    then show ?thesis
      using put_contents [OF Cons.prems, of k v] Cons.IH by fastforce
  next
    case (Del k)
    then show ?thesis
      using del_contents [OF Cons.prems, of k] Cons.IH by fastforce
  qed
qed simp

lemma run_get:
  assumes "usable s"
  shows "\<exists>s'. run ops s = Some s' \<and>
    get k v s' = Some (case last_op ops (contents s) k of None \<Rightarrow> (False, v) | Some w \<Rightarrow> (True, w))"
  using run_contents [OF assms, of ops] get_contents by fastforce

end

text \<open>The stub keeps the interface.\<close>

interpretation stub: database
  "\<lambda>k v db. Some (db_get k v db)" "\<lambda>k v db. Some (db_put k v db)" "\<lambda>k db. Some (db_del k db)"
  "\<lambda>db :: StubDatabase. map_ok db" "map_find"
  by unfold_locales (simp_all add: db_get_def db_put_def db_del_def std_map_simps Let_def split: option.split)

text \<open>
  What RocksDB promises of a database with the map \<open>contents\<close>, where no call reports an error:
  reading finds what the map holds, writing and deleting change it, and deleting a missing key
  is not an error.
\<close>

definition rocksdb_ok :: "'db rocksdb \<Rightarrow> ('db \<Rightarrow> (string \<rightharpoonup> string)) \<Rightarrow> bool" where
  "rocksdb_ok lib contents \<longleftrightarrow>
     (\<forall>db k. DB_Get lib db k = contents db k)
     \<and> (\<forall>db k v. fst (DB_Put lib db k v) \<and> contents (snd (DB_Put lib db k v)) = (contents db)(k \<mapsto> v))
     \<and> (\<forall>db k. fst (DB_Delete lib db k) \<and> contents (snd (DB_Delete lib db k)) = (contents db)(k := None))"

lemma rocks_database:
  assumes "rocksdb_ok lib contents"
  shows "database (rocks_get lib) (rocks_put lib) (rocks_del lib) (\<lambda>st. st \<noteq> None) (\<lambda>st. contents (the st))"
proof
  fix s :: "'a option" and k v
  assume "s \<noteq> None"
  then obtain db where s: "s = Some db" by blast
  show "rocks_get lib k v s = Some (case contents (the s) k of None \<Rightarrow> (False, v) | Some w \<Rightarrow> (True, w))"
    using assms by (simp add: rocks_get_def rocksdb_ok_def s split: option.split)
  show "\<exists>s'. rocks_put lib k v s = Some (True, s') \<and> s' \<noteq> None \<and> contents (the s') = (contents (the s))(k \<mapsto> v)"
    using assms by (simp add: rocks_put_def rocksdb_ok_def s split_beta)
  show "\<exists>r s'. rocks_del lib k s = Some (r, s') \<and> s' \<noteq> None \<and> contents (the s') = (contents (the s))(k := None)"
    by (rule exI [of _ True]) (use assms in \<open>simp add: rocks_del_def rocksdb_ok_def s split_beta\<close>)
qed


section \<open>Properties\<close>

fun stub_run :: "db_op list \<Rightarrow> StubDatabase \<Rightarrow> StubDatabase" where
  "stub_run [] db = db"
| "stub_run (Put k v # ops) db = stub_run ops (snd (db_put k v db))"
| "stub_run (Del k # ops) db = stub_run ops (snd (db_del k db))"

fun rocks_run :: "'db rocksdb \<Rightarrow> db_op list \<Rightarrow> 'db option \<Rightarrow> 'db option option" where
  "rocks_run lib [] st = Some st"
| "rocks_run lib (Put k v # ops) st =
     (case rocks_put lib k v st of None \<Rightarrow> None | Some (ok, st) \<Rightarrow> rocks_run lib ops st)"
| "rocks_run lib (Del k # ops) st =
     (case rocks_del lib k st of None \<Rightarrow> None | Some (ok, st) \<Rightarrow> rocks_run lib ops st)"

lemma stub_run: "stub.run ops db = Some (stub_run ops db)"
  by (induction ops db rule: stub_run.induct) (simp_all add: stub.run.simps split_beta)

lemma rocks_run:
  assumes "rocksdb_ok lib contents"
  shows "database.run (rocks_put lib) (rocks_del lib) ops st = rocks_run lib ops st"
proof (induction ops arbitrary: st)
  case (Cons oper ops)
  then show ?case
    by (cases oper) (simp_all add: database.run.simps [OF rocks_database [OF assms]] split: option.split)
qed (simp add: database.run.simps [OF rocks_database [OF assms]])

text \<open>
  The two databases behind the abstract class agree: after any series of writes and
  deletions on a new stub and on a freshly opened empty RocksDB, reading any key gives the same
  answer, that of the last operation on the key, and the caller's string stays as it was when
  there is none. They differ in what a deletion reports: the stub answers whether the key was
  there, RocksDB that the call worked.
\<close>

theorem databases_agree:
  assumes "rocksdb_ok lib contents" "rocks_open lib path = (True, st)" "contents (the st) = Map.empty"
  shows "\<exists>st'. rocks_run lib ops st = Some st' \<and> rocks_get lib k v st' = Some (db_get k v (stub_run ops []))
    \<and> db_get k v (stub_run ops []) = (case last_op ops Map.empty k of None \<Rightarrow> (False, v) | Some w \<Rightarrow> (True, w))
    \<and> fst (db_del k (stub_run ops [])) = (last_op ops Map.empty k \<noteq> None)
    \<and> (\<exists>st2. rocks_del lib k st' = Some (True, st2))"
proof -
  have open_db: "st \<noteq> None"
    using assms(2) by (cases "DB_Open lib path") (auto simp: rocks_open_def)
  obtain st' where st': "rocks_run lib ops st = Some st'" "st' \<noteq> None" "contents (the st') = last_op ops Map.empty"
    using database.run_contents [OF rocks_database [OF assms(1)] open_db, of ops]
    by (auto simp: rocks_run [OF assms(1)] assms(3))
  have stub: "map_ok (stub_run ops [])" "map_find (stub_run ops []) = last_op ops Map.empty"
    using stub.run_contents [of "[]" ops] by (simp_all add: stub_run std_map_simps ext [of "map_find []" Map.empty])
  have "rocks_get lib k v st' = Some (case last_op ops Map.empty k of None \<Rightarrow> (False, v) | Some w \<Rightarrow> (True, w))"
    using database.get_contents [OF rocks_database [OF assms(1)] st'(2)] st'(3) by simp
  moreover have "\<exists>st2. rocks_del lib k st' = Some (True, st2)"
    using st'(2) assms(1) by (auto simp: rocks_del_def rocksdb_ok_def split_beta)
  moreover have "fst (db_del k (stub_run ops [])) = (last_op ops Map.empty k \<noteq> None)"
    using std_map.erase_changes [OF stub(1), of k] stub(2) by (simp add: db_del_def Let_def)
  ultimately show ?thesis
    using st'(1) stub by (simp add: db_get_def)
qed

text \<open>The library as a map, and a series in which a key is deleted and another written twice.\<close>

definition map_rocksdb :: "(string \<rightharpoonup> string) rocksdb" where
  "map_rocksdb = \<lparr>DB_Open = (\<lambda>path. Some Map.empty), DB_Get = (\<lambda>db k. db k),
     DB_Put = (\<lambda>db k v. (True, db(k \<mapsto> v))), DB_Delete = (\<lambda>db k. (True, db(k := None)))\<rparr>"

theorem databases_agree_witness:
  "\<exists>st'. rocks_run map_rocksdb [Put ''a'' ''1'', Put ''b'' ''2'', Del ''a'', Put ''b'' ''3''] (Some Map.empty) = Some st'
    \<and> rocks_get map_rocksdb ''b'' ''x'' st' = Some (True, ''3'')"
proof -
  have "rocksdb_ok map_rocksdb (\<lambda>db. db)"
    by (simp add: rocksdb_ok_def map_rocksdb_def)
  moreover have "rocks_open map_rocksdb ''chain'' = (True, Some Map.empty)"
    by (simp add: rocks_open_def map_rocksdb_def)
  ultimately show ?thesis
    using databases_agree [of map_rocksdb "\<lambda>db. db" "''chain''" "Some Map.empty"
      "[Put ''a'' ''1'', Put ''b'' ''2'', Del ''a'', Put ''b'' ''3'']" "''b''" "''x''"]
    by auto
qed

end
