(* ===== verification/HashRate.thy ===== *)
theory HashRate
  imports Difficulty Amounts
begin

text \<open>
  The floating-point estimates of \<^verbatim>\<open>src/mining/difficulty.cpp\<close>: the hash rate a difficulty
  stands for, the time to the next block, and the text the miner reports. Every number these
  functions meet lies far above the least normal \<^verbatim>\<open>double\<close>, so that only the upper end of the
  exponent matters; a number beyond it is infinite.
\<close>

section \<open>Doubles\<close>

datatype double = Fin real | Inf | NaN

text \<open>\<^verbatim>\<open>pow(256.0, n)\<close>, which is exact, and the product and the quotients the code takes.\<close>

definition pow256 :: "nat \<Rightarrow> double" where
  "pow256 n = (if n < 128 then Fin (256 ^ n) else Inf)"

fun scaled :: "u32 \<Rightarrow> double \<Rightarrow> double" where
  "scaled mantissa (Fin p) =
     (let x = real (unat mantissa) * p in if x < 2 ^ 1024 then Fin x else Inf)"
| "scaled mantissa Inf = (if mantissa = 0 then NaN else Inf)"
| "scaled mantissa NaN = NaN"

fun max_over :: "double \<Rightarrow> double" where
  "max_over (Fin t) = (if t = 0 then Inf else Fin (double_round (2 ^ 256 / t)))"
| "max_over Inf = Fin 0"
| "max_over NaN = NaN"

fun over :: "double \<Rightarrow> real \<Rightarrow> double" where
  "over (Fin x) n = Fin (double_round (x / n))"
| "over Inf n = Inf"
| "over NaN n = NaN"

fun times :: "double \<Rightarrow> real \<Rightarrow> double" where
  "times (Fin x) n = Fin (double_round (x * n))"
| "times Inf n = Inf"
| "times NaN n = NaN"


section \<open>The functions\<close>

definition mantissa_exponent :: "u32 \<Rightarrow> u32 \<times> nat" where
  "mantissa_exponent difficulty =
     (let mantissa = difficulty AND 0x00ffffff;
          exponent = unat (drop_bit 24 difficulty AND 0xff)
      in if exponent \<le> 3 then (drop_bit (3 - exponent) mantissa, 3) else (mantissa, exponent))"

definition calculateHashRate :: "u32 \<Rightarrow> double" where
  "calculateHashRate difficulty =
     (let (mantissa, exponent) = mantissa_exponent difficulty;
          target = scaled mantissa (pow256 (exponent - 3))
      in over (max_over target) 600)"

text \<open>
  The conversion of a \<^verbatim>\<open>double\<close> to \<^verbatim>\<open>uint64_t\<close> is undefined outside its range, and the result is
  \<open>None\<close> then. A negative infinity of the network is taken as a negative number.
\<close>

definition estimateBlockTime :: "u32 \<Rightarrow> double \<Rightarrow> u64 option" where
  "estimateBlockTime difficulty networkHashRate =
     (let targetHashes = times (calculateHashRate difficulty) 600
      in case networkHashRate of
           Fin n \<Rightarrow>
             if n \<le> 0 then Some (ucast BLOCK_TIME_TARGET * 1000)
             else (case over targetHashes n of
                     Fin s \<Rightarrow> if s < 2 ^ 64 then Some (of_int \<lfloor>s\<rfloor>) else None
                   | _ \<Rightarrow> None)
         | Inf \<Rightarrow> (case targetHashes of Fin t \<Rightarrow> Some 0 | _ \<Rightarrow> None)
         | NaN \<Rightarrow> None)"

text \<open>
  The text: \<^verbatim>\<open>std::uppercase\<close> stays set, so an infinite rate is \<^verbatim>\<open>INF\<close>. How a NaN prints depends
  on its sign bit and is a parameter.
\<close>

definition hex_digit_upper :: "nat \<Rightarrow> char" where
  "hex_digit_upper d = char_of (if d < 10 then 48 + d else 55 + d)"

fun hex_upper :: "nat \<Rightarrow> string" where
  "hex_upper n =
     (if n < 16 then [hex_digit_upper n] else hex_upper (n div 16) @ [hex_digit_upper (n mod 16)])"

declare hex_upper.simps [simp del]

definition print_fixed2 :: "real \<Rightarrow> string" where
  "print_fixed2 x =
     (let n = nat (round_even (x * 100)); frac = to_string (n mod 100)
      in to_string (n div 100) @ ''.'' @ replicate (2 - length frac) (CHR ''0'') @ frac)"

fun rate_text :: "string \<Rightarrow> double \<Rightarrow> string" where
  "rate_text nan (Fin x) =
     (if x < 1000 then print_fixed2 x @ '' H/s''
      else if x < 1000000 then print_fixed2 (double_round (x / 1000)) @ '' KH/s''
      else if x < 1000000000 then print_fixed2 (double_round (x / 1000000)) @ '' MH/s''
      else print_fixed2 (double_round (x / 1000000000)) @ '' GH/s'')"
| "rate_text nan Inf = ''INF GH/s''"
| "rate_text nan NaN = nan @ '' GH/s''"

definition difficultyToString :: "string \<Rightarrow> u32 \<Rightarrow> string" where
  "difficultyToString nan difficulty =
     (let mantissa = difficulty AND 0x00ffffff;
          exponent = drop_bit 24 difficulty AND 0xff
      in ''0x'' @ hex_upper (unat difficulty)
         @ '' (exp='' @ to_string (unat exponent) @ '', mantissa='' @ to_string (unat mantissa) @ '')''
         @ '' (~'' @ rate_text nan (calculateHashRate difficulty) @ '')'')"


section \<open>What the rate is\<close>

text \<open>Two roundings to 53 bits.\<close>

lemma double_round_two:
  assumes "0 < x" "0 < n"
  shows "\<bar>double_round (double_round x / n) - x / n\<bar> \<le> x / n / 2 ^ 51"
proof -
  define a b where "a = double_round x / n" and "b = x / n"
  have "\<bar>double_round x - x\<bar> \<le> x / 2 ^ 53" using double_round_error [of x] assms(1) by simp
  then have "\<bar>double_round x - x\<bar> / n \<le> x / 2 ^ 53 / n" using assms(2) by (intro divide_right_mono) simp_all
  then have "\<bar>a - b\<bar> \<le> b / 2 ^ 53"
    using assms(2) by (simp add: a_def b_def abs_divide flip: diff_divide_distrib)
  then have "\<bar>a - b\<bar> \<le> b / 9007199254740992" by simp
  then have a: "a - b \<le> b / 9007199254740992" "b - a \<le> b / 9007199254740992" by (simp_all only: abs_le_iff minus_diff_eq)
  have b: "0 < b" using assms by (simp add: b_def)
  then have pos: "0 \<le> a" using a(2) by linarith
  have "\<bar>double_round a - a\<bar> \<le> a / 9007199254740992" using double_round_error [of a] pos by simp
  then have r: "double_round a - a \<le> a / 9007199254740992" "a - double_round a \<le> a / 9007199254740992"
    by (simp_all only: abs_le_iff minus_diff_eq)
  have "double_round a - b \<le> b / 2251799813685248" "b - double_round a \<le> b / 2251799813685248"
    using a r b by linarith+
  then have "\<bar>double_round a - b\<bar> \<le> b / 2251799813685248" by (simp only: abs_le_iff minus_diff_eq)
  then have "\<bar>double_round a - b\<bar> \<le> b / 2 ^ 51" by simp
  then show ?thesis by (simp add: a_def b_def)
qed

lemma rate_finite:
  assumes "mantissa_exponent d = (m, e)" "m \<noteq> 0" "real (unat m) * 256 ^ (e - 3) < 2 ^ 1024" "e - 3 < 128"
  shows "\<exists>x. calculateHashRate d = Fin x \<and>
    \<bar>x - 2 ^ 256 / (real (unat m) * 256 ^ (e - 3)) / 600\<bar>
      \<le> 2 ^ 256 / (real (unat m) * 256 ^ (e - 3)) / 600 / 2 ^ 51"
proof -
  define t where "t = real (unat m) * 256 ^ (e - 3)"
  have "0 < unat m" using assms(2) by (simp add: unat_gt_0)
  then have "0 < real (unat m)" by (rule of_nat_0_less_iff [THEN iffD2])
  then have t: "0 < t" unfolding t_def by (rule mult_pos_pos) simp
  have "scaled m (pow256 (e - 3)) = Fin t"
    using assms(3,4) by (simp add: pow256_def Let_def t_def)
  then have "calculateHashRate d = Fin (double_round (double_round (2 ^ 256 / t) / 600))"
    using t by (simp add: calculateHashRate_def assms(1))
  moreover have "\<bar>double_round (double_round (2 ^ 256 / t) / 600) - 2 ^ 256 / t / 600\<bar> \<le> 2 ^ 256 / t / 600 / 2 ^ 51"
    using t by (intro double_round_two) simp_all
  ultimately show ?thesis unfolding t_def by blast
qed

lemma compact_mantissa_exponent:
  assumes "4 \<le> s" "s < 256" "m < 2 ^ 23"
  shows "mantissa_exponent (compact_of s m) = (word_of_nat m, s)"
proof -
  have u: "unat (compact_of s m) = s * 2 ^ 24 + m"
    unfolding compact_of_def using assms(2,3) by (subst unat_of_nat) simp
  have mask: "(0x00ffffff :: u32) = mask 24" "(0xff :: u32) = mask 8"
    by (simp_all add: mask_eq_exp_minus_1)
  have "unat (compact_of s m AND 0x00ffffff) = (s * 2 ^ 24 + m) mod 2 ^ 24"
    unfolding mask by (simp only: take_bit_eq_mask [symmetric] unsigned_take_bit_eq u) (simp only: take_bit_eq_mod)
  also have "\<dots> = m" using assms(3) by simp
  finally have "compact_of s m AND 0x00ffffff = word_of_nat m"
    using assms(3) by (simp add: word_unat_eq_iff unat_of_nat)
  moreover have "unat (drop_bit 24 (compact_of s m) AND 0xff) = s"
  proof -
    have "unat (drop_bit 24 (compact_of s m) AND 0xff) = unat (drop_bit 24 (compact_of s m)) mod 2 ^ 8"
      unfolding mask by (simp only: take_bit_eq_mask [symmetric] unsigned_take_bit_eq) (simp only: take_bit_eq_mod)
    then show ?thesis using compact_parts(1) [of s m] assms(2,3) by simp
  qed
  ultimately show ?thesis using assms(1) by (simp add: mantissa_exponent_def Let_def)
qed

text \<open>The hashes per second a compact difficulty stands for, by the formula of the code.\<close>

definition exact_rate :: "nat \<Rightarrow> nat \<Rightarrow> real" where
  "exact_rate s m = 2 ^ 256 / (real m * 256 ^ (s - 3)) / 600"

lemma rate_compact:
  assumes "4 \<le> s" "s \<le> 33" "0 < m" "m < 2 ^ 23"
  shows "\<exists>x. calculateHashRate (compact_of s m) = Fin x \<and> \<bar>x - exact_rate s m\<bar> \<le> exact_rate s m / 2 ^ 51"
proof -
  have um: "unat (word_of_nat m :: u32) = m" using assms(4) by (simp add: unat_of_nat)
  then have nz: "(word_of_nat m :: u32) \<noteq> 0" using assms(3) by (metis unat_0 less_not_refl)
  have "(256 :: real) ^ (s - 3) \<le> 256 ^ 30" using assms(2) by (intro power_increasing) simp_all
  then have "real m * 256 ^ (s - 3) \<le> 2 ^ 23 * 256 ^ 30" using assms(4) by (intro mult_mono) simp_all
  also have "(2 :: real) ^ 23 * 256 ^ 30 < 2 ^ 1024" by simp
  finally have "real (unat (word_of_nat m :: u32)) * 256 ^ (s - 3) < 2 ^ 1024" unfolding um .
  from rate_finite [OF compact_mantissa_exponent nz this] show ?thesis
    using assms unfolding um exact_rate_def by simp
qed


section \<open>Properties\<close>



end
