(* ===== verification/MinerLoop.thy ===== *)
theory MinerLoop
  imports HashRate Subsidy Mining
begin

text \<open>
  \<^verbatim>\<open>Miner::miningLoop\<close> of \<^verbatim>\<open>src/mining/miner.cpp\<close> with what it reports: the line on the console,
  the events of the realtime feed and the hash rate. \<open>Mining\<close> has the round without them; here the
  loop is shown to do the same to the chain, and what it reports is related to it. A thread runs
  alone; \<open>tick\<close> is the steady clock in nanoseconds at the end of a round.
\<close>

record mining_thread =
  ml_chain :: Blockchain
  ml_files :: files
  ml_out :: string
  ml_feed :: feed
  ml_hashrate :: u64
  ml_hashes :: u64
  ml_start :: int


section \<open>The reports\<close>

text \<open>\<^verbatim>\<open>std::to_string\<close> of a \<^verbatim>\<open>double\<close> that is not negative: six decimals.\<close>

definition print_fixed6 :: "real \<Rightarrow> string" where
  "print_fixed6 x =
     (let n = nat (round_even (x * 1000000)); frac = to_string (n mod 1000000)
      in to_string (n div 1000000) @ ''.'' @ replicate (6 - length frac) (CHR ''0'') @ frac)"

fun double_text :: "string \<Rightarrow> double \<Rightarrow> string" where
  "double_text nan (Fin x) = print_fixed6 x"
| "double_text nan Inf = ''inf''"
| "double_text nan NaN = nan"

definition block_event :: "hasher \<Rightarrow> string \<Rightarrow> u64 \<Rightarrow> Block \<Rightarrow> u64 \<Rightarrow> string" where
  "block_event sha nan newHeight b hashrate =
     ''{\"type\":\"block\",\"height\":'' @ to_string (unat newHeight)
     @ '',\"hash\":\"'' @ uint256ToHex (getHash sha b) @ ''\"''
     @ '',\"reward\":'' @ to_string (unat (amount (hd (outputs (hd (transactions b))))))
     @ '',\"txcount\":'' @ to_string (length (transactions b))
     @ '',\"difficulty\":\"'' @ difficultyToString nan (difficulty_target (header b)) @ ''\"''
     @ '',\"hashrate\":'' @ to_string (unat hashrate) @ ''}''"

definition adjustment_event :: "string \<Rightarrow> u64 \<Rightarrow> Block \<Rightarrow> string" where
  "adjustment_event nan newHeight b =
     ''{\"type\":\"difficulty_adjustment\",\"height\":'' @ to_string (unat newHeight)
     @ '',\"difficulty\":\"'' @ difficultyToString nan (difficulty_target (header b)) @ ''\"''
     @ '',\"network_hashrate\":'' @ double_text nan (calculateHashRate (difficulty_target (header b))) @ ''}''"

definition mined_events :: "hasher \<Rightarrow> string \<Rightarrow> u64 \<Rightarrow> Block \<Rightarrow> u64 \<Rightarrow> string list" where
  "mined_events sha nan newHeight b hashrate =
     block_event sha nan newHeight b hashrate
       # (if 0 < newHeight \<and> newHeight mod ucast DIFFICULTY_INTERVAL = 0
          then [adjustment_event nan newHeight b] else [])"

definition mined_line :: "u64 \<Rightarrow> Block \<Rightarrow> u64 \<Rightarrow> string" where
  "mined_line newHeight b totalIssued =
     ''[MINED] Block '' @ to_string (unat newHeight)
     @ '' | Reward: '' @ to_string (unat (amount (hd (outputs (hd (transactions b)))) div COIN))
     @ '' SHWN | Total issued: '' @ to_string (unat (totalIssued div COIN)) @ '' SHWN'' @ [CHR 0x0A]"


section \<open>The loop\<close>

text \<open>One round; \<open>None\<close> where adding up the supply never ends.\<close>

definition loop_round ::
    "hasher \<Rightarrow> (string \<Rightarrow> bool) \<Rightarrow> string \<Rightarrow> Miner \<Rightarrow> Mempool \<Rightarrow> u64 \<times> u64 \<times> int \<Rightarrow> mining_thread
     \<Rightarrow> mining_thread option" where
  "loop_round sha can_write nan m pool clocks s =
     (let (now, now', tick) = clocks;
          c = ml_chain s;
          mined =
            (case mineBlock sha (block_template now m pool c) EASY_MINE_DIFFICULTY of
               (False, b) \<Rightarrow> Some s
             | (True, b) \<Rightarrow>
                 (let newHeight = getHeight c + 1;
                      (ok, c', fs') = addBlock sha can_write now' b newHeight c (ml_files s);
                      s = s\<lparr>ml_chain := c', ml_files := fs'\<rparr>;
                      reported =
                        (if ok then
                           case getTotalSupplyUpTo newHeight of
                             None \<Rightarrow> None
                           | Some totalIssued \<Rightarrow>
                               Some (s\<lparr>ml_out := ml_out s @ mined_line newHeight b totalIssued,
                                       ml_feed := fold appendRealtimeEvent
                                         (mined_events sha nan newHeight b (ml_hashrate s)) (ml_feed s)\<rparr>)
                         else Some s)
                  in map_option (\<lambda>s. s\<lparr>ml_hashrate := ml_hashes s\<rparr>) reported))
      in case mined of
           None \<Rightarrow> None
         | Some s \<Rightarrow>
             (let s = s\<lparr>ml_hashes := ml_hashes s + 1\<rparr>
              in Some (if 1 \<le> (tick - ml_start s) div 1000000000
                       then s\<lparr>ml_hashrate := ml_hashes s, ml_start := tick, ml_hashes := 0\<rparr> else s)))"

text \<open>The rounds until the flag is cleared.\<close>

fun mining_loop ::
    "hasher \<Rightarrow> (string \<Rightarrow> bool) \<Rightarrow> string \<Rightarrow> Miner \<Rightarrow> Mempool \<Rightarrow> (u64 \<times> u64 \<times> int) list \<Rightarrow> mining_thread
     \<Rightarrow> mining_thread option" where
  "mining_loop sha w nan m pool [] s = Some s"
| "mining_loop sha w nan m pool (clocks # rest) s =
     (case loop_round sha w nan m pool clocks s of
        None \<Rightarrow> None
      | Some s \<Rightarrow> mining_loop sha w nan m pool rest s)"


section \<open>The loop and the rounds of \<open>Mining\<close>\<close>

text \<open>The rounds of \<open>Mining\<close> one after the other: the chain before each, its answer, the chain after it.\<close>

fun round_trace ::
    "hasher \<Rightarrow> (string \<Rightarrow> bool) \<Rightarrow> Miner \<Rightarrow> Mempool \<Rightarrow> (u64 \<times> u64 \<times> int) list \<Rightarrow> Blockchain \<times> files
     \<Rightarrow> (Blockchain \<times> bool \<times> Blockchain) list \<times> Blockchain \<times> files" where
  "round_trace sha w m pool [] st = ([], st)"
| "round_trace sha w m pool ((now, now', tick) # rest) st =
     (let (ok, c', fs') = mining_round sha w now now' m pool (fst st) (snd st);
          (trace, st') = round_trace sha w m pool rest (c', fs')
      in ((fst st, ok, c') # trace, st'))"

text \<open>
  What a round reports: nothing when its block was refused, and otherwise the next height and a
  block on the best one that the chain now holds.
\<close>

definition round_reports ::
    "hasher \<Rightarrow> string \<Rightarrow> Blockchain \<times> bool \<times> Blockchain \<Rightarrow> string list \<Rightarrow> bool" where
  "round_reports sha nan = (\<lambda>(c, ok, c') es.
     if ok then \<exists>b hashrate. es = mined_events sha nan (height c + 1) b hashrate
         \<and> previous_hash (header b) = bestBlockHash c \<and> map_find (blockCache c') (getHash sha b) \<noteq> None
     else es = [])"

lemma connectBlock_height:
  "height (fst (snd (connectBlock sha w now b h c fs))) \<in> {height c, h}"
  by (auto simp: connectBlock_def record_block_def split_beta Let_def split: prod.split bool.split)

lemma addBlock_height: "height (fst (snd (addBlock sha w now b h c fs))) \<in> {height c, height c + 1}"
  using connectBlock_height [of sha w now b h c fs] by (auto simp: addBlock_def Let_def)

lemma addBlock_caches:
  "fst (addBlock sha w now b h c fs) \<Longrightarrow>
     map_find (blockCache (fst (snd (addBlock sha w now b h c fs)))) (getHash sha b) \<noteq> None"
  by (cases "connectBlockUTXO sha b (bc_utxo c)"; cases "fst (connectBlockUTXO sha b (bc_utxo c))")
    (auto simp: addBlock_def connectBlock_def record_block_def std_map_simps split_beta Let_def split: if_splits)

lemma mining_round_height:
  "height (fst (snd (mining_round sha w now now' m pool c fs))) \<in> {height c, height c + 1}"
  using addBlock_height by (cases rule: mining_round_cases [of sha now m pool c w now' fs]) auto

lemma unat_word_plus_1: "unat (h :: u64) + 1 < 2 ^ 64 \<Longrightarrow> unat (h + 1) = unat h + 1"
  by (subst unat_word_ariths) simp

lemma unat_step: "h' \<in> {h, h + 1} \<Longrightarrow> unat (h :: u64) + 1 < 2 ^ 64 \<Longrightarrow> unat h' \<le> unat h + 1"
  using unat_word_plus_1 by auto

lemma unat_max: "unat (- 1 :: u64) = 2 ^ 64 - 1"
  by (simp add: unsigned_minus_1_eq_mask mask_eq_exp_minus_1)

text \<open>One round: it always ends, does to the chain what \<open>Mining\<close> says, and reports accepted blocks.\<close>

lemma loop_round_eq:
  assumes "unat (height (ml_chain s)) + 2 < 2 ^ 64"
    and "mining_round sha w now now' m pool (ml_chain s) (ml_files s) = (ok, c', fs')"
  shows "\<exists>s' es. loop_round sha w nan m pool (now, now', tick) s = Some s'
    \<and> ml_chain s' = c' \<and> ml_files s' = fs'
    \<and> ml_feed s' = fold appendRealtimeEvent es (ml_feed s)
    \<and> round_reports sha nan (ml_chain s, ok, c') es
    \<and> ml_hashes s' \<in> {ml_hashes s + 1, 0} \<and> ml_hashrate s' \<in> {ml_hashrate s, ml_hashes s, ml_hashes s + 1}"
proof -
  let ?c = "ml_chain s"
  have "unat (height ?c + 1) < 2 ^ 64 - 1" using assms(1) unat_word_plus_1 [of "height ?c"] by simp
  then have "height ?c + 1 \<noteq> - 1" using unat_max by (metis less_irrefl)
  then obtain t where t: "getTotalSupplyUpTo (height ?c + 1) = Some t" using getTotalSupplyUpTo_eq by blast
  obtain found b where mine: "mineBlock sha (block_template now m pool ?c) EASY_MINE_DIFFICULTY = (found, b)"
    by (cases "mineBlock sha (block_template now m pool ?c) EASY_MINE_DIFFICULTY")
  show ?thesis
  proof (cases found)
    case False
    then have r: "ok = False" "c' = ?c" "fs' = ml_files s" using assms(2) mine by (simp_all add: mining_round_def)
    show ?thesis
      by (intro exI [of _ "the (loop_round sha w nan m pool (now, now', tick) s)"] exI [of _ "[]"])
        (simp add: loop_round_def mine False r round_reports_def Let_def)
  next
    case True
    then have add: "addBlock sha w now' b (height ?c + 1) ?c (ml_files s) = (ok, c', fs')"
      using assms(2) mine by (simp add: mining_round_def getHeight_def)
    obtain n where b: "b = candidate sha now m pool ?c n"
      using mine True mineBlock_found mineBlock_none by (metis candidate_def prod.inject)
    have prev: "previous_hash (header b) = bestBlockHash ?c" by (simp add: b)
    define es where "es = (if ok then mined_events sha nan (height ?c + 1) b (ml_hashrate s) else [])"
    have "round_reports sha nan (?c, ok, c') es"
      using addBlock_caches [of sha w now' b "height ?c + 1" ?c "ml_files s"] prev
      by (auto simp: round_reports_def add es_def)
    then show ?thesis
      by (intro exI [of _ "the (loop_round sha w nan m pool (now, now', tick) s)"] exI [of _ es])
        (simp add: loop_round_def mine True add getHeight_def t es_def Let_def)
  qed
qed

lemma mining_loop_eq:
  assumes "unat (height (ml_chain s)) + length rounds + 1 < 2 ^ 64"
    and "unat (ml_hashes s) \<le> k" "unat (ml_hashrate s) \<le> k" "k + length rounds < 2 ^ 64"
    and "round_trace sha w m pool rounds (ml_chain s, ml_files s) = (trace, c', fs')"
  shows "\<exists>s' ess. mining_loop sha w nan m pool rounds s = Some s'
    \<and> ml_chain s' = c' \<and> ml_files s' = fs'
    \<and> ml_feed s' = fold appendRealtimeEvent (concat ess) (ml_feed s)
    \<and> list_all2 (round_reports sha nan) trace ess \<and> unat (ml_hashrate s') \<le> k + length rounds"
  using assms
proof (induction rounds arbitrary: s k trace c' fs')
  case Nil
  then show ?case by (intro exI [of _ s] exI [of _ "[]"]) auto
next
  case (Cons clocks rest)
  obtain now now' tick where clocks: "clocks = (now, now', tick)" by (cases clocks)
  obtain ok c1 fs1 where r: "mining_round sha w now now' m pool (ml_chain s) (ml_files s) = (ok, c1, fs1)"
    by (cases "mining_round sha w now now' m pool (ml_chain s) (ml_files s)")
  obtain trace' where tr: "round_trace sha w m pool rest (c1, fs1) = (trace', c', fs')" "trace = (ml_chain s, ok, c1) # trace'"
    using Cons.prems(5) by (auto simp: clocks r split: prod.splits)
  have "unat (height (ml_chain s)) + 2 < 2 ^ 64" using Cons.prems(1) by simp
  from loop_round_eq [OF this r, of nan tick] obtain s1 es where s1:
    "loop_round sha w nan m pool (now, now', tick) s = Some s1" "ml_chain s1 = c1" "ml_files s1 = fs1"
    "ml_feed s1 = fold appendRealtimeEvent es (ml_feed s)" "round_reports sha nan (ml_chain s, ok, c1) es"
    "ml_hashes s1 \<in> {ml_hashes s + 1, 0}" "ml_hashrate s1 \<in> {ml_hashrate s, ml_hashes s, ml_hashes s + 1}" by blast
  have "height c1 \<in> {height (ml_chain s), height (ml_chain s) + 1}"
    using mining_round_height [of sha w now now' m pool "ml_chain s" "ml_files s"] by (simp add: r)
  then have h: "unat (height (ml_chain s1)) + length rest + 1 < 2 ^ 64"
    using unat_step [of "height c1" "height (ml_chain s)"] Cons.prems(1) by (simp add: s1(2))
  have n: "unat (ml_hashes s + 1) = unat (ml_hashes s) + 1"
    using Cons.prems(2,4) by (intro unat_word_plus_1) simp
  have k: "unat (ml_hashes s1) \<le> Suc k" "unat (ml_hashrate s1) \<le> Suc k" "Suc k + length rest < 2 ^ 64"
    using s1(6,7) n Cons.prems(2-4) by auto
  have "round_trace sha w m pool rest (ml_chain s1, ml_files s1) = (trace', c', fs')"
    using tr(1) by (simp add: s1(2,3))
  from Cons.IH [OF h k this] obtain s' ess where s':
    "mining_loop sha w nan m pool rest s1 = Some s'" "ml_chain s' = c'" "ml_files s' = fs'"
    "ml_feed s' = fold appendRealtimeEvent (concat ess) (ml_feed s1)"
    "list_all2 (round_reports sha nan) trace' ess" "unat (ml_hashrate s') \<le> Suc k + length rest" by blast
  then show ?case
    using s1(1,4,5) by (intro exI [of _ s'] exI [of _ "es # ess"]) (simp add: clocks tr(2))
qed


section \<open>Properties\<close>



end
