(* ===== verification/MinerThreads.thy ===== *)
theory MinerThreads
  imports MinerLoop
begin

text \<open>
  The threads of \<^verbatim>\<open>Miner::start\<close> on one chain, \<^verbatim>\<open>src/mining/miner.cpp\<close> and
  \<^verbatim>\<open>src/core/blockchain.cpp\<close>: every locked access to the chain is a step of its own, so that a
  block template may mix what the chain was at three moments, and \<^verbatim>\<open>addBlock\<close> releases the chain
  between its checks and \<^verbatim>\<open>connectBlock\<close>. The pool does not change. The connecting part is one step
  here; the code splits it further, so every run of this relation is a run of the code.
\<close>

section \<open>Threads\<close>

text \<open>
  Where a thread is: at the head of its loop; behind the read of the best hash, and of the height
  for the coinbase's script; searching; with a block found, and with its height; behind the
  checks of \<^verbatim>\<open>addBlock\<close>.
\<close>

datatype worker =
  Top
| Read_prev u64 uint256
| Read_script u64 uint256 bytes
| Searching Block
| Found Block
| Submitting Block u64
| Checked Block u64

record miner_threads =
  mt_chain :: Blockchain
  mt_files :: files
  workers :: "nat \<Rightarrow> worker"

definition thread_template :: "u64 \<Rightarrow> uint256 \<Rightarrow> bytes \<Rightarrow> u64 \<Rightarrow> Miner \<Rightarrow> Mempool \<Rightarrow> Block" where
  "thread_template now prev script h m pool =
     \<lparr>header = \<lparr>hdr_version = 1, previous_hash = prev, merkle_root = uint256_zero,
        timestamp = now, difficulty_target = EASY_MINE_DIFFICULTY, nonce = 0\<rparr>,
      transactions =
        [\<lparr>tx_version = 1,
          inputs = [\<lparr>prev_tx_hash = uint256_zero, output_index = 0xffffffff, signature = script, pubkey = []\<rparr>],
          outputs = [\<lparr>amount = getBlockSubsidy (h + 1), script_pubkey = coinbase_script (payoutHash m)\<rparr>],
          lock_time = 0, cached_txid = None\<rparr>] @ getBlockTemplate pool\<rparr>"

text \<open>When nothing happens in between, this is the template of \<open>Mining\<close>.\<close>

lemma thread_template_round:
  "thread_template now (getBestBlockHash c) (cbscript (getHeight c + 1)) (getHeight c) m pool = block_template now m pool c"
  by (simp add: thread_template_def block_template_def miner_coinbase_def)

inductive thread_step ::
    "hasher \<Rightarrow> (string \<Rightarrow> bool) \<Rightarrow> Miner \<Rightarrow> Mempool \<Rightarrow> nat \<Rightarrow> miner_threads \<Rightarrow> miner_threads \<Rightarrow> bool"
    for sha can_write m pool t where
  read_prev: "workers s t = Top \<Longrightarrow> thread_step sha can_write m pool t s
     (s\<lparr>workers := (workers s)(t := Read_prev now (getBestBlockHash (mt_chain s)))\<rparr>)"
| read_script: "workers s t = Read_prev now prev \<Longrightarrow> thread_step sha can_write m pool t s
     (s\<lparr>workers := (workers s)(t := Read_script now prev (cbscript (getHeight (mt_chain s) + 1)))\<rparr>)"
| build: "workers s t = Read_script now prev script \<Longrightarrow> thread_step sha can_write m pool t s
     (s\<lparr>workers := (workers s)(t := Searching (thread_template now prev script (getHeight (mt_chain s)) m pool))\<rparr>)"
| found: "workers s t = Searching b \<Longrightarrow> mineBlock sha b EASY_MINE_DIFFICULTY = (True, b') \<Longrightarrow>
     thread_step sha can_write m pool t s (s\<lparr>workers := (workers s)(t := Found b')\<rparr>)"
| not_found: "workers s t = Searching b \<Longrightarrow> mineBlock sha b EASY_MINE_DIFFICULTY = (False, b') \<Longrightarrow>
     thread_step sha can_write m pool t s (s\<lparr>workers := (workers s)(t := Top)\<rparr>)"
| read_height: "workers s t = Found b \<Longrightarrow> thread_step sha can_write m pool t s
     (s\<lparr>workers := (workers s)(t := Submitting b (getHeight (mt_chain s) + 1))\<rparr>)"
| answered: "workers s t = Submitting b h \<Longrightarrow> \<not> addBlock_check sha b h (mt_chain s) \<Longrightarrow>
     thread_step sha can_write m pool t s (s\<lparr>workers := (workers s)(t := Top)\<rparr>)"
| checked: "workers s t = Submitting b h \<Longrightarrow> addBlock_check sha b h (mt_chain s) \<Longrightarrow>
     thread_step sha can_write m pool t s (s\<lparr>workers := (workers s)(t := Checked b h)\<rparr>)"
| connect: "workers s t = Checked b h \<Longrightarrow> connectBlock sha can_write now b h (mt_chain s) (mt_files s) = (ok, c', fs') \<Longrightarrow>
     thread_step sha can_write m pool t s
       (s\<lparr>mt_chain := c', mt_files := fs', workers := (workers s)(t := Top)\<rparr>)"

text \<open>
  The runs of \<open>n\<close> threads from the node's first chain; the height stays below its last value.
\<close>

inductive threads_run ::
    "hasher \<Rightarrow> (string \<Rightarrow> bool) \<Rightarrow> Miner \<Rightarrow> Mempool \<Rightarrow> nat \<Rightarrow> miner_threads \<Rightarrow> bool"
    for sha can_write m pool n where
  start: "threads_run sha can_write m pool n
     \<lparr>mt_chain = main_chain sha dataDir junk, mt_files = fs, workers = (\<lambda>_. Top)\<rparr>"
| step: "threads_run sha can_write m pool n s \<Longrightarrow> t < n \<Longrightarrow> height (mt_chain s) \<noteq> - 1 \<Longrightarrow>
     thread_step sha can_write m pool t s s' \<Longrightarrow> threads_run sha can_write m pool n s'"

inductive_cases thread_stepE: "thread_step sha w m pool t s s'"


section \<open>What every interleaving keeps\<close>

text \<open>
  The blocks of the cache are filed under their hash; all but the genesis block passed the proof
  of work and the structure checks, and their previous block is in the cache too. Every height up to
  that of the chain has a block, and the best one is that of the height.
\<close>

definition cached_ok :: "hasher \<Rightarrow> Blockchain \<Rightarrow> bool" where
  "cached_ok sha c \<longleftrightarrow> (\<forall>hash b. map_find (blockCache c) hash = Some b \<longrightarrow>
     getHash sha b = hash \<and> (b = makeGenesisBlock sha \<or>
       transactions b \<noteq> [] \<and> isCoinbase (hd (transactions b))
       \<and> merkle_root (header b) = computeMerkleRoot sha (transactions b) \<and> checkProofOfWork sha (header b)
       \<and> map_find (blockCache c) (previous_hash (header b)) \<noteq> None))"

definition index_ok :: "Blockchain \<Rightarrow> bool" where
  "index_ok c \<longleftrightarrow> ran (map_find (heightIndex c)) \<subseteq> dom (map_find (blockCache c))
     \<and> map_find (heightIndex c) (height c) = Some (bestBlockHash c)
     \<and> (\<forall>i \<le> height c. map_find (heightIndex c) i \<noteq> None)"

definition pending_ok :: "hasher \<Rightarrow> Blockchain \<Rightarrow> worker \<Rightarrow> bool" where
  "pending_ok sha c p \<longleftrightarrow> (\<forall>b h. p = Checked b h \<longrightarrow>
     getHash sha b \<noteq> getHash sha (makeGenesisBlock sha)
     \<and> map_find (blockCache c) (previous_hash (header b)) \<noteq> None
     \<and> (\<forall>i < h. map_find (heightIndex c) i \<noteq> None))"

definition threads_inv :: "hasher \<Rightarrow> miner_threads \<Rightarrow> bool" where
  "threads_inv sha s \<longleftrightarrow> (let c = mt_chain s in
     map_ok (bc_utxo c) \<and> map_ok (blockCache c) \<and> map_ok (heightIndex c)
     \<and> map_find (blockCache c) (getHash sha (makeGenesisBlock sha)) = Some (makeGenesisBlock sha)
     \<and> cached_ok sha c \<and> index_ok c \<and> (\<forall>t. pending_ok sha c (workers s t)))"

text \<open>What connecting a block does to the two maps.\<close>

lemma connectBlock_outcome:
  assumes "map_ok (bc_utxo c)" "connectBlock sha w now b h c fs = (ok, c', fs')"
  obtains (kept) "\<not> ok" "c' = c\<lparr>bc_utxo := bc_utxo c'\<rparr>" "map_ok (bc_utxo c')"
  | (added) ok "validateBlockStructure sha now b" "map_ok (bc_utxo c')" "height c' = h" "bestBlockHash c' = getHash sha b"
      "heightIndex c' = map_put h (getHash sha b) (heightIndex c)"
      "blockCache c' = map_put (getHash sha b) (memo_block sha b) (blockCache c)"
proof (cases ok)
  case True
  then have a: "connectBlock sha w now b h c fs = (True, c', fs')" using assms(2) by simp
  note f = connectBlock_accepted [OF assms(1) a]
  show ?thesis
  proof (rule added [OF True _ _ f(3-6)])
    show "validateBlockStructure sha now b" using f(1) by (simp add: connectable_def)
    show "map_ok (bc_utxo c')" using connectBlockUTXO_ok [OF assms(1)] by (simp add: f(7))
  qed
next
  case False
  with assms(1) show ?thesis
    by (cases rule: connectBlock_cases [of c sha now b w h fs])
      (use assms kept connectBlockUTXO_ok [OF assms(1), of sha b] in auto)
qed

lemma less_plus_1: "i < h + 1 \<Longrightarrow> i \<le> (h :: u64)"
  using unat_plus_1 [of h] by (cases "h + 1 = 0") (simp_all add: word_less_nat_alt word_le_nat_alt)

lemma merkle_memo_block:
  "merkle_root (header b) = computeMerkleRoot sha (transactions b) \<Longrightarrow>
     merkle_root (header (memo_block sha b)) = computeMerkleRoot sha (transactions (memo_block sha b))"
  by simp

lemma connect_keeps:
  assumes inv: "threads_inv sha s" and p: "pending_ok sha (mt_chain s) (Checked b h)"
    and c: "connectBlock sha w now b h (mt_chain s) fs = (ok, c', fs')"
  shows "threads_inv sha (s\<lparr>mt_chain := c', mt_files := fs', workers := (workers s)(t := Top)\<rparr>)"
proof -
  let ?c = "mt_chain s"
  have ok: "map_ok (bc_utxo ?c)" using inv by (simp add: threads_inv_def Let_def)
  from this c show ?thesis
  proof (cases rule: connectBlock_outcome)
    case kept
    have f: "blockCache c' = blockCache ?c" "heightIndex c' = heightIndex ?c" "height c' = height ?c"
      "bestBlockHash c' = bestBlockHash ?c"
      using arg_cong [OF kept(2), of blockCache] arg_cong [OF kept(2), of heightIndex]
        arg_cong [OF kept(2), of height] arg_cong [OF kept(2), of bestBlockHash] by simp_all
    show ?thesis
      using inv kept(3) by (auto simp: threads_inv_def cached_ok_def index_ok_def pending_ok_def f Let_def)
  next
    case added
    have v: "transactions b \<noteq> []" "isCoinbase (hd (transactions b))" "checkProofOfWork sha (header b)"
      "merkle_root (header b) = computeMerkleRoot sha (transactions b)"
      using validateBlockStructureD [OF added(2)] by blast+
    note f = added(4-7)
    have cache: "map_find (blockCache c') = (map_find (blockCache ?c))(getHash sha b \<mapsto> memo_block sha b)"
      and index: "map_find (heightIndex c') = (map_find (heightIndex ?c))(h \<mapsto> getHash sha b)"
      by (simp_all add: f map_find_put)
    have "cached_ok sha c'"
      using inv p v by (auto simp: cached_ok_def cache threads_inv_def pending_ok_def Let_def hd_map)
    moreover have "index_ok c'"
      unfolding index_ok_def cache index f(1,2)
      using inv p by (auto simp: threads_inv_def index_ok_def pending_ok_def Let_def ran_def order_le_less)
    moreover have "pending_ok sha c' q" if "pending_ok sha ?c q" for q
      using that by (auto simp: pending_ok_def cache index)
    ultimately show ?thesis
      using inv p added(3) by (auto simp: threads_inv_def Let_def f(3,4) map_ok_put map_find_put pending_ok_def)
  qed
qed

lemma thread_step_inv:
  assumes "threads_inv sha s" "thread_step sha w m pool t s s'"
  shows "threads_inv sha s'"
  using assms(2)
proof (cases rule: thread_step.cases)
  case (checked b h)
  have "map_find (blockCache (mt_chain s)) (bestBlockHash (mt_chain s)) \<noteq> None"
    using assms(1) by (auto simp: threads_inv_def index_ok_def Let_def ran_def)
  moreover have "\<forall>i < height (mt_chain s) + 1. map_find (heightIndex (mt_chain s)) i \<noteq> None"
    using assms(1) less_plus_1 by (auto simp: threads_inv_def index_ok_def Let_def)
  ultimately have "pending_ok sha (mt_chain s) (Checked b h)"
    using checked(3) assms(1) by (auto simp: pending_ok_def addBlock_check_def threads_inv_def Let_def)
  then show ?thesis using assms(1) checked(1) by (simp add: threads_inv_def Let_def)
next
  case (connect b h now ok c' fs')
  have "pending_ok sha (mt_chain s) (Checked b h)"
    using assms(1) connect(2) by (metis threads_inv_def)
  then show ?thesis unfolding connect(1) using assms(1) connect(3) by (intro connect_keeps)
qed (use assms(1) in \<open>auto simp: threads_inv_def pending_ok_def Let_def\<close>)

lemma start_inv:
  "threads_inv sha \<lparr>mt_chain = main_chain sha dataDir junk, mt_files = fs, workers = (\<lambda>_. Top)\<rparr>"
proof -
  note h = main_chain_holds(1) [of sha dataDir junk]
  have "height (main_chain sha dataDir junk) = 0"
    by (simp add: main_chain_eq setChainState_def new_blockchain_def Let_def)
  then show ?thesis
    using h by (auto simp: threads_inv_def holds_chain_def cached_ok_def index_ok_def pending_ok_def
        cache_of_def index_of_def ran_def Let_def split: if_splits)
qed

lemma threads_run_inv: "threads_run sha w m pool n s \<Longrightarrow> threads_inv sha s"
  by (induction rule: threads_run.induct) (auto intro: start_inv thread_step_inv)


section \<open>One thread\<close>

text \<open>With one thread the chain does not change between the checks and the connecting.\<close>

definition alone_inv :: "hasher \<Rightarrow> miner_threads \<Rightarrow> bool" where
  "alone_inv sha s \<longleftrightarrow>
     (\<exists>bs. valid_chain sha bs \<and> holds_chain sha (mt_chain s) bs)
     \<and> (\<forall>b h. workers s 0 = Checked b h \<longrightarrow> addBlock_check sha b h (mt_chain s))"

lemma alone_step:
  assumes "alone_inv sha s" "height (mt_chain s) \<noteq> - 1" "thread_step sha w m pool 0 s s'"
  shows "alone_inv sha s'"
  using assms(3)
proof (cases rule: thread_step.cases)
  case (connect b h now ok c' fs')
  obtain bs where bs: "valid_chain sha bs" "holds_chain sha (mt_chain s) bs"
    using assms(1) by (auto simp: alone_inv_def)
  have "addBlock_check sha b h (mt_chain s)" using assms(1) connect(2) by (simp add: alone_inv_def)
  then have "addBlock sha w now b h (mt_chain s) (mt_files s) = (ok, c', fs')"
    using connect(3) by (simp add: addBlock_split)
  from bs(2) assms(2) this have "\<exists>bs'. valid_chain sha bs' \<and> holds_chain sha c' bs'"
  proof (cases rule: addBlock_step)
    case extended
    then show ?thesis using bs(1) by (blast intro: valid_chain.extend)
  qed (use bs in blast)+
  then show ?thesis by (simp add: connect(1) alone_inv_def)
qed (use assms(1) in \<open>auto simp: alone_inv_def\<close>)

lemma alone_run:
  "threads_run sha w m pool 1 s \<Longrightarrow> alone_inv sha s"
proof (induction rule: threads_run.induct)
  case (start dataDir junk fs)
  then show ?case
    using main_chain_holds [of sha dataDir junk] by (auto simp: alone_inv_def intro: valid_chain.genesis)
next
  case (step s t s')
  then show ?case by (auto intro: alone_step)
qed


section \<open>Properties\<close>



end
