(* ===== verification/CoinRace.thy ===== *)
theory CoinRace
  imports ChainProps
begin

text \<open>
  \<^verbatim>\<open>connectBlockUTXO\<close> of \<^verbatim>\<open>src/core/consensus.cpp\<close>, one locked operation of the UTXO set at a time.
  The set's mutex covers each \<^verbatim>\<open>has\<close>, \<^verbatim>\<open>spend\<close> and \<^verbatim>\<open>put\<close> on its own, and \<^verbatim>\<open>connectBlock\<close> calls
  the function without the chain's mutex, so that two threads that connect blocks interleave
  between these operations. A thread alone does what \<open>Utxo\<close> says.
\<close>

section \<open>Threads that connect\<close>

text \<open>
  Where a thread is, with the outpoints it has to spend and the outputs it has to add: before
  \<^verbatim>\<open>has\<close>, between \<^verbatim>\<open>has\<close> and \<^verbatim>\<open>spend\<close>, in the second loop, or returned.
\<close>

datatype connect_pc =
  Asking "OutPoint list" "(OutPoint \<times> UtxoEntry) list"
| Spending OutPoint "OutPoint list" "(OutPoint \<times> UtxoEntry) list"
| Putting "(OutPoint \<times> UtxoEntry) list"
| Finished bool

fun connect_step :: "connect_pc \<Rightarrow> UTXOSet \<Rightarrow> connect_pc \<times> UTXOSet" where
  "connect_step (Asking [] puts) u = (Putting puts, u)"
| "connect_step (Asking (op # ops) puts) u =
     (if \<not> utxo_has u op then Finished False else Spending op ops puts, u)"
| "connect_step (Spending op ops puts) u = (Asking ops puts, snd (utxo_spend u op))"
| "connect_step (Putting []) u = (Finished True, u)"
| "connect_step (Putting ((op, e) # puts)) u = (Putting puts, utxo_put u op (entry_amount e) (entry_script e))"
| "connect_step (Finished r) u = (Finished r, u)"

definition connecting :: "hasher \<Rightarrow> Block \<Rightarrow> connect_pc" where
  "connecting sha b = Asking (block_spends b) (block_creates sha b)"

text \<open>A schedule is the list of the threads that make a step.\<close>

record race =
  coins :: UTXOSet
  pcs :: "nat \<Rightarrow> connect_pc"

definition set_thread :: "nat \<Rightarrow> connect_pc \<times> UTXOSet \<Rightarrow> race \<Rightarrow> race" where
  "set_thread t st s = s\<lparr>coins := snd st, pcs := (pcs s)(t := fst st)\<rparr>"

definition thread_step :: "nat \<Rightarrow> race \<Rightarrow> race" where
  "thread_step t s = set_thread t (connect_step (pcs s t) (coins s)) s"

definition run_schedule :: "nat list \<Rightarrow> race \<Rightarrow> race" where
  "run_schedule sched s = fold thread_step sched s"

lemma set_thread_simps [simp]:
  "coins (set_thread t st s) = snd st"
  "pcs (set_thread t st s) t' = (if t' = t then fst st else pcs s t')"
  "set_thread t st (set_thread t st' s) = set_thread t st s"
  by (simp_all add: set_thread_def)

lemma run_schedule_append: "run_schedule (xs @ ys) s = run_schedule ys (run_schedule xs s)"
  by (simp add: run_schedule_def)

lemma run_schedule_Cons: "run_schedule (t # ts) s = run_schedule ts (thread_step t s)"
  by (simp add: run_schedule_def)

lemma run_schedule_Nil: "run_schedule [] s = s"
  by (simp add: run_schedule_def)

lemmas schedule_simps = run_schedule_append run_schedule_Cons run_schedule_Nil thread_step_def

lemma utxo_put_entry: "utxo_put u op (entry_amount e) (entry_script e) = map_put op e u"
  by (cases e) (simp add: utxo_put_def)

lemma set_thread_same: "pcs s t = pc \<Longrightarrow> set_thread t (pc, coins s) s = s"
  by (auto simp: set_thread_def)

lemma run_set_thread:
  "connect_step pc u = st \<Longrightarrow> run_schedule (t # sched) (set_thread t (pc, u) s) = run_schedule sched (set_thread t st s)"
  by (simp add: run_schedule_Cons thread_step_def)


section \<open>One thread for a while\<close>

text \<open>
  A thread that runs by itself: through a part of its list, through its outputs, to its return,
  and to an outpoint that is missing. A thread that is anywhere is \<open>set_thread\<close> to where it is.
\<close>

lemma run_spends:
  assumes "map_ok u" "distinct xs" "set xs \<subseteq> dom (map_find u)"
  shows "\<exists>sched. set sched \<subseteq> {t} \<and> run_schedule sched (set_thread t (Asking (xs @ ys) puts, u) s)
    = set_thread t (Asking ys puts, fold map_erase xs u) s"
  using assms
proof (induction xs arbitrary: u)
  case Nil
  then show ?case by (intro exI [of _ "[]"]) (simp add: run_schedule_Nil)
next
  case (Cons x xs)
  have "map_ok (map_erase x u)" "distinct xs" "set xs \<subseteq> dom (map_find (map_erase x u))"
    using Cons.prems by (auto simp: map_ok_erase map_find_erase)
  from Cons.IH [OF this] obtain sched where "set sched \<subseteq> {t}"
    "run_schedule sched (set_thread t (Asking (xs @ ys) puts, map_erase x u) s)
      = set_thread t (Asking ys puts, fold map_erase xs (map_erase x u)) s" by blast
  moreover have "utxo_has u x" using Cons.prems(3) by (auto simp: utxo_has_def)
  ultimately show ?case
    by (intro exI [of _ "t # t # sched"]) (simp add: run_set_thread utxo_spend_def Let_def)
qed

lemma run_puts:
  "\<exists>sched. set sched \<subseteq> {t} \<and> run_schedule sched (set_thread t (Putting puts, u) s)
    = set_thread t (Finished True, fold (\<lambda>(k, v). map_put k v) puts u) s"
proof (induction puts arbitrary: u)
  case Nil
  then show ?case by (intro exI [of _ "[t]"]) (simp add: run_set_thread run_schedule_Nil)
next
  case (Cons p puts)
  obtain op e where p: "p = (op, e)" by (cases p)
  from Cons.IH [of "map_put op e u"] obtain sched where "set sched \<subseteq> {t}"
    "run_schedule sched (set_thread t (Putting puts, map_put op e u) s)
      = set_thread t (Finished True, fold (\<lambda>(k, v). map_put k v) puts (map_put op e u)) s" by blast
  then show ?case
    by (intro exI [of _ "t # sched"]) (simp add: run_set_thread p utxo_put_entry)
qed

lemma run_to_end:
  assumes "map_ok u" "distinct xs" "set xs \<subseteq> dom (map_find u)"
  shows "\<exists>sched. set sched \<subseteq> {t} \<and> run_schedule sched (set_thread t (Asking xs puts, u) s)
    = set_thread t (Finished True, fold (\<lambda>(k, v). map_put k v) puts (fold map_erase xs u)) s"
proof -
  obtain s1 where s1: "set s1 \<subseteq> {t}" "run_schedule s1 (set_thread t (Asking (xs @ []) puts, u) s)
      = set_thread t (Asking [] puts, fold map_erase xs u) s" using run_spends [OF assms, of t "[]"] by blast
  obtain s2 where s2: "set s2 \<subseteq> {t}" "run_schedule s2 (set_thread t (Putting puts, fold map_erase xs u) s)
      = set_thread t (Finished True, fold (\<lambda>(k, v). map_put k v) puts (fold map_erase xs u)) s"
    using run_puts by blast
  show ?thesis
    using s1 s2 by (intro exI [of _ "s1 @ t # s2"]) (simp add: run_schedule_append run_set_thread)
qed

lemma run_missing:
  assumes "map_ok u" "distinct xs" "set xs \<subseteq> dom (map_find u)" "op \<in> set xs \<or> op \<notin> dom (map_find u)"
  shows "\<exists>sched. set sched \<subseteq> {t} \<and> run_schedule sched (set_thread t (Asking (xs @ op # ys) puts, u) s)
    = set_thread t (Finished False, fold map_erase xs u) s"
proof -
  obtain s1 where s1: "set s1 \<subseteq> {t}" "run_schedule s1 (set_thread t (Asking (xs @ op # ys) puts, u) s)
      = set_thread t (Asking (op # ys) puts, fold map_erase xs u) s"
    using run_spends [OF assms(1-3)] by blast
  have "map_find (fold map_erase xs u) = map_find u |` (- set xs)"
    using std_map.erase_all [OF assms(1)] by blast
  then have "\<not> utxo_has (fold map_erase xs u) op"
    using assms(4) by (auto simp: utxo_has_def restrict_map_def)
  with s1 show ?thesis
    by (intro exI [of _ "s1 @ [t]"]) (simp add: run_schedule_append run_set_thread run_schedule_Nil)
qed

text \<open>The first outpoint of a list at which the loop returns.\<close>

lemma first_failure:
  "\<not> (distinct ops \<and> set ops \<subseteq> D) \<Longrightarrow>
     \<exists>xs op ys. ops = xs @ op # ys \<and> distinct xs \<and> set xs \<subseteq> D \<and> (op \<in> set xs \<or> op \<notin> D)"
proof (induction ops rule: rev_induct)
  case (snoc op ops)
  show ?case
  proof (cases "distinct ops \<and> set ops \<subseteq> D")
    case True
    with snoc.prems show ?thesis by (intro exI [of _ ops] exI [of _ op] exI [of _ "[]"]) auto
  next
    case False
    from snoc.IH [OF this] show ?thesis by (metis append.assoc append_Cons)
  qed
qed simp

lemma alone_connects:
  assumes "map_ok u"
  shows "\<exists>sched. set sched \<subseteq> {t} \<and> run_schedule sched (set_thread t (connecting sha b, u) s)
    = set_thread t (Finished (fst (connectBlockUTXO sha b u)), snd (connectBlockUTXO sha b u)) s"
proof (cases "distinct (block_spends b) \<and> set (block_spends b) \<subseteq> dom (map_find u)")
  case True
  then show ?thesis
    using run_to_end [of u "block_spends b" t] spend_ops_all [of u "block_spends b"] assms
    by (simp add: connecting_def connectBlockUTXO_ops)
next
  case False
  from first_failure [OF this] obtain xs op ys where f: "block_spends b = xs @ op # ys" "distinct xs"
    "set xs \<subseteq> dom (map_find u)" "op \<in> set xs \<or> op \<notin> dom (map_find u)" by blast
  then show ?thesis
    using run_missing [OF assms f(2-4), of t ys] spend_ops_prefix [OF assms f(2-4), of ys]
    by (simp add: connecting_def connectBlockUTXO_ops)
qed


section \<open>Two threads\<close>

definition two_threads :: "connect_pc \<Rightarrow> connect_pc \<Rightarrow> UTXOSet \<Rightarrow> race" where
  "two_threads p q u = \<lparr>coins = u, pcs = (\<lambda>_. Finished True)(0 := p, 1 := q)\<rparr>"

definition reaches :: "race \<Rightarrow> race \<Rightarrow> bool" where
  "reaches s s' \<longleftrightarrow> (\<exists>sched. run_schedule sched s = s')"

lemma set_two_threads [simp]:
  "set_thread 0 (p', u') (two_threads p q u) = two_threads p' q u'"
  "set_thread (Suc 0) (q', u') (two_threads p q u) = two_threads p q' u'"
  by (auto simp: two_threads_def set_thread_def)

lemma reaches_trans [trans]: "reaches s s' \<Longrightarrow> reaches s' s'' \<Longrightarrow> reaches s s''"
  by (metis reaches_def run_schedule_append)

lemma reaches_step0: "reaches (two_threads p q u) (two_threads (fst (connect_step p u)) q (snd (connect_step p u)))"
  unfolding reaches_def
  by (rule exI [of _ "[0]"])
    (simp add: run_schedule_Cons run_schedule_Nil thread_step_def two_threads_def set_thread_def fun_eq_iff)

lemma reaches_step1: "reaches (two_threads p q u) (two_threads p (fst (connect_step q u)) (snd (connect_step q u)))"
  unfolding reaches_def
  by (rule exI [of _ "[1]"])
    (simp add: run_schedule_Cons run_schedule_Nil thread_step_def two_threads_def set_thread_def fun_eq_iff)

lemma reaches_spends:
  assumes "map_ok u" "distinct xs" "set xs \<subseteq> dom (map_find u)"
  shows "reaches (two_threads (Asking (xs @ ys) puts) q u) (two_threads (Asking ys puts) q (fold map_erase xs u))"
    and "reaches (two_threads p (Asking (xs @ ys) puts) u) (two_threads p (Asking ys puts) (fold map_erase xs u))"
  using run_spends [OF assms, of 0 ys puts "two_threads p q u"]
    run_spends [OF assms, of 1 ys puts "two_threads p q u"]
  by (auto simp: reaches_def)

lemma reaches_end:
  assumes "map_ok u" "distinct xs" "set xs \<subseteq> dom (map_find u)"
  shows "reaches (two_threads (Asking xs puts) q u)
      (two_threads (Finished True) q (fold (\<lambda>(k, v). map_put k v) puts (fold map_erase xs u)))"
    and "reaches (two_threads p (Asking xs puts) u)
      (two_threads p (Finished True) (fold (\<lambda>(k, v). map_put k v) puts (fold map_erase xs u)))"
  using run_to_end [OF assms(1-3), of 0 puts "two_threads p q u"]
    run_to_end [OF assms(1-3), of 1 puts "two_threads p q u"]
  by (auto simp: reaches_def)

lemma reaches_alone:
  assumes "map_ok u"
  shows "reaches (two_threads (connecting sha b) q u)
      (two_threads (Finished (fst (connectBlockUTXO sha b u))) q (snd (connectBlockUTXO sha b u)))"
    and "reaches (two_threads p (connecting sha b) u)
      (two_threads p (Finished (fst (connectBlockUTXO sha b u))) (snd (connectBlockUTXO sha b u)))"
  using alone_connects [OF assms, of 0 sha b "two_threads p q u"]
    alone_connects [OF assms, of 1 sha b "two_threads p q u"]
  by (auto simp: reaches_def)

text \<open>
  The schedule: each thread spends what it has before the shared outpoint and finds the outpoint
  there; then the first spends it and goes on to its return, then the second.
\<close>

lemma both_ask_then_spend:
  fixes puts1 puts2
  assumes "map_ok u" "distinct (xs1 @ op # ys1)" "distinct (xs2 @ op # ys2)"
    and "set (xs1 @ op # ys1) \<subseteq> dom (map_find u)" "set (xs2 @ op # ys2) \<subseteq> dom (map_find u)"
    and "set (xs1 @ op # ys1) \<inter> set (xs2 @ op # ys2) = {op}"
  defines "u1 \<equiv> fold map_erase xs2 (fold map_erase xs1 u)"
  defines "u2 \<equiv> fold (\<lambda>(k, v). map_put k v) puts1 (fold map_erase (op # ys1) u1)"
  defines "u3 \<equiv> fold (\<lambda>(k, v). map_put k v) puts2 (fold map_erase (op # ys2) u2)"
  shows "reaches (two_threads (Asking (xs1 @ op # ys1) puts1) (Asking (xs2 @ op # ys2) puts2) u)
      (two_threads (Finished True) (Finished True) u3)"
    and "map_find u3 = (((map_find u |` (- set xs1)) |` (- set xs2) |` (- set (op # ys1)) ++ map_of (rev puts1))
      |` (- set (op # ys2)) ++ map_of (rev puts2))"
proof -
  let ?v = "fold map_erase xs1 u"
  have v: "map_ok ?v" "map_find ?v = map_find u |` (- set xs1)"
    using std_map.erase_all [OF assms(1), of xs1] by simp_all
  have 1: "map_ok u1" "map_find u1 = map_find ?v |` (- set xs2)"
    using std_map.erase_all [OF v(1), of xs2] by (simp_all add: u1_def)
  let ?w = "fold map_erase (op # ys1) u1"
  have w: "map_ok ?w" "map_find ?w = map_find u1 |` (- set (op # ys1))"
    using std_map.erase_all [OF 1(1), of "op # ys1"] by blast+
  have 2: "map_ok u2" "map_find u2 = map_find ?w ++ map_of (rev puts1)"
    using std_map.put_all [OF w(1), of puts1] unfolding u2_def by blast+
  let ?x = "fold map_erase (op # ys2) u2"
  have x: "map_ok ?x" "map_find ?x = map_find u2 |` (- set (op # ys2))"
    using std_map.erase_all [OF 2(1), of "op # ys2"] by blast+
  have 3: "map_find u3 = map_find ?x ++ map_of (rev puts2)"
    using std_map.put_all [OF x(1), of puts2] unfolding u3_def by blast
  show "map_find u3 = (((map_find u |` (- set xs1)) |` (- set xs2) |` (- set (op # ys1)) ++ map_of (rev puts1))
      |` (- set (op # ys2)) ++ map_of (rev puts2))"
    unfolding 3 x 2 w 1 v ..

  let ?p = "Asking (op # ys1) puts1" and ?q = "Asking (op # ys2) puts2"
  have xs: "set xs1 \<subseteq> dom (map_find u)" "set xs2 \<subseteq> dom (map_find ?v)"
    "utxo_has ?v op" "utxo_has u1 op"
    using assms(2-6) by (auto simp: v(2) 1(2) utxo_has_def)
  have ys: "set ys1 \<subseteq> dom (map_find (map_erase op u1))" "set ys2 \<subseteq> dom (map_find (map_erase op u2))"
    unfolding map_find_erase [OF 1(1)] map_find_erase [OF 2(1)] 2(2) w(2) 1(2) v(2)
    using assms(2-6) by auto
  have d: "distinct xs1" "distinct xs2" "distinct ys1" "distinct ys2" using assms(2,3) by auto
  have "reaches (two_threads (Asking (xs1 @ op # ys1) puts1) (Asking (xs2 @ op # ys2) puts2) u)
      (two_threads ?p (Asking (xs2 @ op # ys2) puts2) ?v)"
    by (rule reaches_spends(1) [OF assms(1) d(1) xs(1)])
  also have "reaches \<dots> (two_threads (Spending op ys1 puts1) (Asking (xs2 @ op # ys2) puts2) ?v)"
    using reaches_step0 [of ?p _ ?v] xs(3) by simp
  also have "reaches \<dots> (two_threads (Spending op ys1 puts1) ?q u1)"
    unfolding u1_def by (rule reaches_spends(2) [OF v(1) d(2) xs(2)])
  also have "reaches \<dots> (two_threads (Spending op ys1 puts1) (Spending op ys2 puts2) u1)"
    using reaches_step1 [of _ ?q u1] xs(4) by simp
  also have "reaches \<dots> (two_threads (Asking ys1 puts1) (Spending op ys2 puts2) (map_erase op u1))"
    using reaches_step0 [of "Spending op ys1 puts1" _ u1] by (simp add: utxo_spend_def Let_def)
  also have "reaches \<dots> (two_threads (Finished True) (Spending op ys2 puts2) u2)"
    using reaches_end(1) [OF map_ok_erase [OF 1(1)] d(3) ys(1)] by (simp add: u2_def)
  also have "reaches \<dots> (two_threads (Finished True) (Asking ys2 puts2) (map_erase op u2))"
    using reaches_step1 [of _ "Spending op ys2 puts2" u2] by (simp add: utxo_spend_def Let_def)
  also have "reaches \<dots> (two_threads (Finished True) (Finished True) u3)"
    using reaches_end(2) [OF map_ok_erase [OF 2(1)] d(4) ys(2)] by (simp add: u3_def)
  finally show "reaches (two_threads (Asking (xs1 @ op # ys1) puts1) (Asking (xs2 @ op # ys2) puts2) u)
      (two_threads (Finished True) (Finished True) u3)" .
qed

lemma restrict_past:
  assumes "\<And>x e. n x = Some e \<Longrightarrow> x \<notin> set xs2 \<and> x \<notin> set (op # ys2)"
  shows "(m |` (- set xs1) |` (- set xs2) |` (- set (op # ys1)) ++ n) |` (- set (op # ys2))
    = (m |` (- set (xs1 @ op # ys1)) ++ n) |` (- set (xs2 @ op # ys2))"
proof
  fix x
  show "((m |` (- set xs1) |` (- set xs2) |` (- set (op # ys1)) ++ n) |` (- set (op # ys2))) x
    = ((m |` (- set (xs1 @ op # ys1)) ++ n) |` (- set (xs2 @ op # ys2))) x"
    using assms [of x] by (cases "n x") (simp_all add: restrict_map_def map_add_def)
qed


section \<open>Properties\<close>



end
