(* ===== verification/Stratum.thy ===== *)
theory Stratum
  imports Prelude
begin

text \<open>
  \<^verbatim>\<open>src/mining/stratum.cpp\<close>: the stratum server, a thread that accepts one connection after the
  other, and the object that starts and stops it. One thread owns the object and calls
  \<^verbatim>\<open>start\<close>, \<^verbatim>\<open>stop\<close> and the destructor; its steps and those of the server thread interleave in any
  order. The answers of the operating system are the events of a step. What a peer sends is never
  looked at and is left out.
\<close>

section \<open>The state\<close>

text \<open>Where the server thread is: before the system call, or the write to the flag, of that name.\<close>

datatype run_pc =
  Socket | Bind | Listen | Check | Accept | Read | Write | ClosePeer | CloseListen
| CloseFailed | ClearFlag | Ended

text \<open>
  Where the owner is: outside, between the two statements of \<^verbatim>\<open>start\<close>, in the \<^verbatim>\<open>join\<close> of
  \<^verbatim>\<open>stop\<close>, in that of the destructor, or behind the destructor.
\<close>

datatype owner_pc = Outside | Launching | Stopping | Destroying | Gone

text \<open>
  \<^verbatim>\<open>thread_\<close> is joinable exactly when \<open>server\<close> is not \<open>None\<close>. \<open>alive\<close> is whether the
  process is: \<^verbatim>\<open>std::terminate\<close> and an unhandled \<^verbatim>\<open>SIGPIPE\<close> end it. \<open>fds\<close> counts the
  descriptors the thread has open, and \<open>sent\<close> is what each peer got, the latest first.
\<close>

record stratum =
  alive :: bool
  is_running :: bool
  server :: "run_pc option"
  owner :: owner_pc
  fds :: nat
  sent :: "string list"

definition new_stratum :: stratum where
  "new_stratum = \<lparr>alive = True, is_running = False, server = None, owner = Outside, fds = 0, sent = []\<rparr>"

definition resp_text :: string where
  "resp_text = ''{\"id\": null, \"result\": [\"ShawnStratum\", null], \"error\": null}'' @ [CHR 0x0A]"

datatype event =
  Start | Launch | Stop | Joined | Destroy
| Socket_opened bool | Bound bool | Listening bool | Checked | Accepted bool
| Received nat | Sent nat | Peer_reset | Closed | Flag_cleared


section \<open>The server thread\<close>

text \<open>\<open>run_step\<close> is the body of \<^verbatim>\<open>run\<close>, one system call or access to the flag a step.\<close>

abbreviation at :: "stratum \<Rightarrow> run_pc \<Rightarrow> bool" where
  "at s p \<equiv> alive s \<and> server s = Some p"

inductive run_step :: "stratum \<Rightarrow> event \<Rightarrow> stratum \<Rightarrow> bool" where
  socket: "at s Socket \<Longrightarrow> run_step s (Socket_opened True) (s\<lparr>server := Some Bind, fds := Suc (fds s)\<rparr>)"
| no_socket: "at s Socket \<Longrightarrow> run_step s (Socket_opened False) (s\<lparr>server := Some ClearFlag\<rparr>)"
| bind: "at s Bind \<Longrightarrow> run_step s (Bound True) (s\<lparr>server := Some Listen\<rparr>)"
| no_bind: "at s Bind \<Longrightarrow> run_step s (Bound False) (s\<lparr>server := Some CloseFailed\<rparr>)"
| listen: "at s Listen \<Longrightarrow> run_step s (Listening True) (s\<lparr>server := Some Check\<rparr>)"
| no_listen: "at s Listen \<Longrightarrow> run_step s (Listening False) (s\<lparr>server := Some CloseFailed\<rparr>)"
| check: "at s Check \<Longrightarrow>
    run_step s Checked (s\<lparr>server := Some (if is_running s then Accept else CloseListen)\<rparr>)"
| accept: "at s Accept \<Longrightarrow> run_step s (Accepted True) (s\<lparr>server := Some Read, fds := Suc (fds s)\<rparr>)"
| no_accept: "at s Accept \<Longrightarrow> run_step s (Accepted False) (s\<lparr>server := Some Check\<rparr>)"
| reads: "at s Read \<Longrightarrow> r \<le> 4095 \<Longrightarrow>
    run_step s (Received r) (s\<lparr>server := Some (if 0 < r then Write else ClosePeer)\<rparr>)"
| writes: "at s Write \<Longrightarrow> n \<le> length resp_text \<Longrightarrow>
    run_step s (Sent n) (s\<lparr>server := Some ClosePeer, sent := take n resp_text # sent s\<rparr>)"
| pipe: "at s Write \<Longrightarrow> run_step s Peer_reset (s\<lparr>alive := False\<rparr>)"
| close_peer: "at s ClosePeer \<Longrightarrow> run_step s Closed (s\<lparr>server := Some Check, fds := fds s - 1\<rparr>)"
| close_listen: "at s CloseListen \<Longrightarrow> run_step s Closed (s\<lparr>server := Some Ended, fds := fds s - 1\<rparr>)"
| close_failed: "at s CloseFailed \<Longrightarrow> run_step s Closed (s\<lparr>server := Some ClearFlag, fds := fds s - 1\<rparr>)"
| clear_flag: "at s ClearFlag \<Longrightarrow> run_step s Flag_cleared (s\<lparr>server := Some Ended, is_running := False\<rparr>)"


section \<open>The owner\<close>

text \<open>
  \<^verbatim>\<open>start\<close> sets the flag, and returns when it was set; then it assigns the new thread to
  \<^verbatim>\<open>thread_\<close>, which terminates the program when \<^verbatim>\<open>thread_\<close> is still joinable.
\<close>

inductive start_step :: "stratum \<Rightarrow> event \<Rightarrow> stratum \<Rightarrow> bool" where
  refused: "alive s \<Longrightarrow> owner s = Outside \<Longrightarrow> is_running s \<Longrightarrow> start_step s Start s"
| started: "alive s \<Longrightarrow> owner s = Outside \<Longrightarrow> \<not> is_running s \<Longrightarrow>
    start_step s Start (s\<lparr>is_running := True, owner := Launching\<rparr>)"
| launched: "alive s \<Longrightarrow> owner s = Launching \<Longrightarrow> server s = None \<Longrightarrow>
    start_step s Launch (s\<lparr>server := Some Socket, owner := Outside\<rparr>)"
| joinable: "alive s \<Longrightarrow> owner s = Launching \<Longrightarrow> server s \<noteq> None \<Longrightarrow>
    start_step s Launch (s\<lparr>alive := False\<rparr>)"

text \<open>\<^verbatim>\<open>stop\<close> clears the flag, and returns when it was clear; then it waits for the thread.\<close>

inductive stop_step :: "stratum \<Rightarrow> event \<Rightarrow> stratum \<Rightarrow> bool" where
  idle: "alive s \<Longrightarrow> owner s = Outside \<Longrightarrow> \<not> is_running s \<Longrightarrow> stop_step s Stop s"
| stopping: "alive s \<Longrightarrow> owner s = Outside \<Longrightarrow> is_running s \<Longrightarrow>
    stop_step s Stop (s\<lparr>is_running := False, owner := if server s = None then Outside else Stopping\<rparr>)"
| joined: "alive s \<Longrightarrow> owner s = Stopping \<Longrightarrow> server s = Some Ended \<Longrightarrow>
    stop_step s Joined (s\<lparr>server := None, owner := Outside\<rparr>)"

text \<open>
  The destructor stops, then destroys \<^verbatim>\<open>thread_\<close>, which terminates the program when it is
  still joinable.
\<close>

inductive destroy_step :: "stratum \<Rightarrow> event \<Rightarrow> stratum \<Rightarrow> bool" where
  stops: "alive s \<Longrightarrow> owner s = Outside \<Longrightarrow> is_running s \<Longrightarrow> server s \<noteq> None \<Longrightarrow>
    destroy_step s Destroy (s\<lparr>is_running := False, owner := Destroying\<rparr>)"
| destroyed: "alive s \<Longrightarrow> owner s = Outside \<Longrightarrow> server s = None \<Longrightarrow>
    destroy_step s Destroy (s\<lparr>is_running := False, owner := Gone\<rparr>)"
| unjoined: "alive s \<Longrightarrow> owner s = Outside \<Longrightarrow> \<not> is_running s \<Longrightarrow> server s \<noteq> None \<Longrightarrow>
    destroy_step s Destroy (s\<lparr>alive := False\<rparr>)"
| ended: "alive s \<Longrightarrow> owner s = Destroying \<Longrightarrow> server s = Some Ended \<Longrightarrow>
    destroy_step s Joined (s\<lparr>server := None, owner := Gone\<rparr>)"


section \<open>Runs\<close>

inductive stratum_step :: "stratum \<Rightarrow> event \<Rightarrow> stratum \<Rightarrow> bool" where
  server: "run_step s e s' \<Longrightarrow> stratum_step s e s'"
| start: "start_step s e s' \<Longrightarrow> stratum_step s e s'"
| stop: "stop_step s e s' \<Longrightarrow> stratum_step s e s'"
| destroy: "destroy_step s e s' \<Longrightarrow> stratum_step s e s'"

inductive stratum_run :: "stratum \<Rightarrow> event list \<Rightarrow> stratum \<Rightarrow> bool" where
  none: "stratum_run s [] s"
| step: "stratum_step s e s' \<Longrightarrow> stratum_run s' es s'' \<Longrightarrow> stratum_run s (e # es) s''"

inductive_cases stratum_stepE: "stratum_step s e s'"
inductive_cases stratum_run_NilE: "stratum_run s [] s'"
inductive_cases stratum_run_ConsE: "stratum_run s (e # es) s'"

lemmas step_cases = run_step.cases start_step.cases stop_step.cases destroy_step.cases

lemma stratum_run_invariant:
  assumes "stratum_run s es s'" "I s" "\<And>s e s'. I s \<Longrightarrow> stratum_step s e s' \<Longrightarrow> I s'"
  shows "I s'"
  using assms(1,2) by (induction rule: stratum_run.induct) (auto intro: assms(3))


section \<open>The invariant\<close>

text \<open>The descriptors the thread holds at each place.\<close>

fun held :: "run_pc \<Rightarrow> nat" where
  "held Read = 2" | "held Write = 2" | "held ClosePeer = 2"
| "held Socket = 0" | "held ClearFlag = 0" | "held Ended = 0"
| "held p = 1"

text \<open>
  The flag is set only while the thread serves, is failing, or is about to be launched; the
  owner waits, with the flag clear, only for a thread that exists.
\<close>

definition stratum_inv :: "stratum \<Rightarrow> bool" where
  "stratum_inv s \<longleftrightarrow>
     fds s = (case server s of None \<Rightarrow> 0 | Some p \<Rightarrow> held p)
     \<and> set (sent s) \<subseteq> {take n resp_text | n. n \<le> length resp_text}
     \<and> (case owner s of
          Outside \<Rightarrow>
            if is_running s then \<exists>p. server s = Some p \<and> p \<notin> {CloseListen, Ended}
            else server s \<in> {None, Some Ended}
        | Launching \<Rightarrow> is_running s \<and> server s \<in> {None, Some Ended}
        | Stopping \<Rightarrow> \<not> is_running s \<and> server s \<noteq> None
        | Destroying \<Rightarrow> \<not> is_running s \<and> server s \<noteq> None
        | Gone \<Rightarrow> \<not> is_running s \<and> server s = None)"

lemma new_stratum_inv: "stratum_inv new_stratum"
  by (simp add: stratum_inv_def new_stratum_def)

lemma stratum_step_inv:
  assumes "stratum_inv s" "stratum_step s e s'"
  shows "stratum_inv s'"
  using assms(2)
proof (cases rule: stratum_step.cases)
  case server
  then show ?thesis using assms(1)
    by (cases rule: run_step.cases)
      (auto simp: stratum_inv_def split: owner_pc.splits if_splits)
next
  case start
  then show ?thesis using assms(1)
    by (cases rule: start_step.cases) (auto simp: stratum_inv_def split: if_splits)
next
  case stop
  then show ?thesis using assms(1)
    by (cases rule: stop_step.cases) (auto simp: stratum_inv_def split: if_splits)
next
  case destroy
  then show ?thesis using assms(1)
    by (cases rule: destroy_step.cases) (auto simp: stratum_inv_def split: if_splits)
qed

lemma stratum_run_inv: "stratum_run new_stratum es s \<Longrightarrow> stratum_inv s"
  using stratum_run_invariant [of new_stratum es s stratum_inv] new_stratum_inv stratum_step_inv by blast


section \<open>Stopping\<close>

text \<open>
  While the owner waits, at most \<open>to_go\<close> steps of the thread are left, not counting those it
  repeats: none, because the flag stays clear.
\<close>

fun to_go :: "run_pc \<Rightarrow> nat" where
  "to_go Socket = 10" | "to_go Bind = 9" | "to_go Listen = 8"
| "to_go Accept = 6" | "to_go Read = 5" | "to_go Write = 4" | "to_go ClosePeer = 3"
| "to_go Check = 2" | "to_go CloseListen = 1"
| "to_go CloseFailed = 2" | "to_go ClearFlag = 1" | "to_go Ended = 0"

definition waiting :: "stratum \<Rightarrow> bool" where
  "waiting s \<longleftrightarrow> alive s \<and> \<not> is_running s \<and> (owner s = Stopping \<or> owner s = Destroying)"

lemma waiting_step:
  assumes "waiting s" "stratum_step s e s'" "e \<noteq> Joined" "alive s'"
  shows "waiting s' \<and> owner s' = owner s \<and> (\<exists>p q. server s = Some p \<and> server s' = Some q \<and> to_go q < to_go p)"
  using assms(2)
proof (cases rule: stratum_step.cases)
  case server
  then show ?thesis using assms
    by (cases rule: run_step.cases) (auto simp: waiting_def)
next
  case start
  then show ?thesis using assms by (cases rule: start_step.cases) (auto simp: waiting_def)
next
  case stop
  then show ?thesis using assms by (cases rule: stop_step.cases) (auto simp: waiting_def)
next
  case destroy
  then show ?thesis using assms by (cases rule: destroy_step.cases) (auto simp: waiting_def)
qed

lemma stratum_step_alive: "stratum_step s e s' \<Longrightarrow> alive s"
  by (auto elim!: stratum_stepE elim: step_cases)

lemma stratum_run_alive: "stratum_run s es s' \<Longrightarrow> alive s' \<Longrightarrow> alive s"
  by (induction rule: stratum_run.induct) (auto dest: stratum_step_alive)

lemma waiting_run:
  assumes "stratum_run s es s'" "waiting s" "server s = Some p" "Joined \<notin> set es" "alive s'"
  shows "\<exists>q. waiting s' \<and> owner s' = owner s \<and> server s' = Some q \<and> length es + to_go q \<le> to_go p"
  using assms
proof (induction arbitrary: p rule: stratum_run.induct)
  case (step s e s1 es s')
  have "alive s1" using step.hyps(2) step.prems(4) by (rule stratum_run_alive)
  with step.prems step.hyps obtain p1 where p1: "waiting s1" "owner s1 = owner s" "server s1 = Some p1" "to_go p1 < to_go p"
    using waiting_step [of s e s1] by auto
  from step.IH [OF p1(1,3)] step.prems(3,4) obtain q where
    "waiting s'" "owner s' = owner s1" "server s' = Some q" "length es + to_go q \<le> to_go p1" by auto
  then show ?case using p1(2,4) by auto
qed auto

lemma to_go_bound: "to_go p \<le> 10"
  by (cases p) simp_all

lemma waiting_accept:
  "waiting s \<Longrightarrow> server s = Some Accept \<Longrightarrow> stratum_step s e s' \<Longrightarrow> \<exists>ok. e = Accepted ok"
  by (erule stratum_stepE) (auto simp: waiting_def elim: step_cases)

lemma run_step_progress:
  assumes "alive s" "server s = Some p" "p \<noteq> Ended"
  shows "\<exists>e s'. run_step s e s' \<and> alive s'"
proof (cases p)
  case Write
  let ?s = "s\<lparr>server := Some ClosePeer, sent := take 0 resp_text # sent s\<rparr>"
  have "run_step s (Sent 0) ?s \<and> alive ?s"
    using assms Write by (intro conjI run_step.writes) auto
  then show ?thesis by blast
next
  case Read
  let ?s = "s\<lparr>server := Some (if 0 < (0 :: nat) then Write else ClosePeer)\<rparr>"
  have "run_step s (Received 0) ?s \<and> alive ?s"
    using assms Read by (intro conjI run_step.reads) auto
  then show ?thesis by blast
qed (use assms in \<open>force intro: run_step.intros\<close>)+

lemma waiting_joins:
  assumes "waiting s" "server s = Some Ended"
  shows "\<exists>s'. stratum_step s Joined s' \<and> server s' = None
    \<and> owner s' = (if owner s = Stopping then Outside else Gone)"
proof (cases "owner s = Stopping")
  case True
  then have "stratum_step s Joined (s\<lparr>server := None, owner := Outside\<rparr>)"
    using assms by (intro stratum_step.stop stop_step.joined) (auto simp: waiting_def)
  then show ?thesis using True by fastforce
next
  case False
  then have "stratum_step s Joined (s\<lparr>server := None, owner := Gone\<rparr>)"
    using assms by (intro stratum_step.destroy destroy_step.ended) (auto simp: waiting_def)
  then show ?thesis using False by fastforce
qed


section \<open>A server whose start failed\<close>

definition stale :: "stratum \<Rightarrow> bool" where
  "stale s \<longleftrightarrow> alive s \<longrightarrow>
     server s = Some Ended \<and> (owner s = Outside \<and> \<not> is_running s \<or> owner s = Launching)"

lemma stale_step:
  assumes "stale s" "stratum_step s e s'"
  shows "stale s'"
  using assms(2)
proof (cases rule: stratum_step.cases)
  case server
  then show ?thesis using assms(1) by (cases rule: run_step.cases) (auto simp: stale_def)
next
  case start
  then show ?thesis using assms(1) by (cases rule: start_step.cases) (auto simp: stale_def)
next
  case stop
  then show ?thesis using assms(1) by (cases rule: stop_step.cases) (auto simp: stale_def)
next
  case destroy
  then show ?thesis using assms(1) by (cases rule: destroy_step.cases) (auto simp: stale_def)
qed

lemma stale_run: "stratum_run s es s' \<Longrightarrow> stale s \<Longrightarrow> stale s'"
  using stratum_run_invariant [of s es s' stale] stale_step by blast


section \<open>Two runs\<close>

text \<open>A server stopped while it waits for a peer, and one whose port is taken.\<close>

lemma launched_run:
  assumes "stratum_run (new_stratum\<lparr>is_running := True, server := Some Socket\<rparr>) es s"
  shows "stratum_run new_stratum (Start # Launch # es) s"
proof -
  have "start_step new_stratum Start (new_stratum\<lparr>is_running := True, owner := Launching\<rparr>)"
    by (rule start_step.started) (simp_all add: new_stratum_def)
  moreover have "start_step (new_stratum\<lparr>is_running := True, owner := Launching\<rparr>) Launch
      (new_stratum\<lparr>is_running := True, owner := Launching\<rparr>\<lparr>server := Some Socket, owner := Outside\<rparr>)"
    by (rule start_step.launched) (simp_all add: new_stratum_def)
  moreover have "new_stratum\<lparr>is_running := True, owner := Launching\<rparr>\<lparr>server := Some Socket, owner := Outside\<rparr>
      = new_stratum\<lparr>is_running := True, server := Some Socket\<rparr>"
    by (simp add: new_stratum_def)
  ultimately show ?thesis using assms by (auto intro: stratum_run.step stratum_step.start)
qed

definition stopping_server :: stratum where
  "stopping_server = \<lparr>alive = True, is_running = False, server = Some Accept, owner = Stopping, fds = 1, sent = []\<rparr>"

lemma stopping_run:
  "stratum_run new_stratum [Start, Launch, Socket_opened True, Bound True, Listening True, Checked, Stop] stopping_server"
proof -
  have "stratum_run (new_stratum\<lparr>is_running := True, server := Some Accept, fds := 1\<rparr>) [Stop] stopping_server"
    by (rule stratum_run.step [OF stratum_step.stop [OF stop_step.stopping]])
      (simp_all add: new_stratum_def stopping_server_def stratum_run.none)
  then have "stratum_run (new_stratum\<lparr>is_running := True, server := Some Check, fds := 1\<rparr>) [Checked, Stop] stopping_server"
    by (intro stratum_run.step [OF stratum_step.server [OF run_step.check]]) (simp_all add: new_stratum_def)
  then have "stratum_run (new_stratum\<lparr>is_running := True, server := Some Listen, fds := 1\<rparr>)
      [Listening True, Checked, Stop] stopping_server"
    by (intro stratum_run.step [OF stratum_step.server [OF run_step.listen]]) (simp_all add: new_stratum_def)
  then have "stratum_run (new_stratum\<lparr>is_running := True, server := Some Bind, fds := 1\<rparr>)
      [Bound True, Listening True, Checked, Stop] stopping_server"
    by (intro stratum_run.step [OF stratum_step.server [OF run_step.bind]]) (simp_all add: new_stratum_def)
  then have "stratum_run (new_stratum\<lparr>is_running := True, server := Some Socket\<rparr>)
      [Socket_opened True, Bound True, Listening True, Checked, Stop] stopping_server"
    by (intro stratum_run.step [OF stratum_step.server [OF run_step.socket]]) (simp_all add: new_stratum_def)
  then show ?thesis by (rule launched_run)
qed

definition failed_server :: stratum where
  "failed_server = \<lparr>alive = True, is_running = False, server = Some Ended, owner = Outside, fds = 0, sent = []\<rparr>"

lemma failed_run:
  "stratum_run new_stratum [Start, Launch, Socket_opened False, Flag_cleared] failed_server"
proof -
  have "stratum_run (new_stratum\<lparr>is_running := True, server := Some ClearFlag\<rparr>) [Flag_cleared] failed_server"
    by (rule stratum_run.step [OF stratum_step.server [OF run_step.clear_flag]])
      (simp_all add: new_stratum_def failed_server_def stratum_run.none)
  then have "stratum_run (new_stratum\<lparr>is_running := True, server := Some Socket\<rparr>)
      [Socket_opened False, Flag_cleared] failed_server"
    by (intro stratum_run.step [OF stratum_step.server [OF run_step.no_socket]]) (simp_all add: new_stratum_def)
  then show ?thesis by (rule launched_run)
qed


section \<open>Properties\<close>



text \<open>
  A server that could not bind its port, or open or listen on its socket, cannot be
  recovered: once its thread has ended, \<^verbatim>\<open>stop\<close> does nothing, starting it again and destroying
  the object both end the process, and no run brings a serving thread back.
\<close>

theorem failed_start_is_fatal:
  assumes "stratum_run new_stratum es s" "alive s" "owner s = Outside" "server s = Some Ended"
  shows "\<not> is_running s \<and> stratum_step s Stop s
    \<and> (\<forall>s'. stratum_step s Destroy s' \<longrightarrow> \<not> alive s')
    \<and> (\<forall>s1 s2. stratum_step s Start s1 \<longrightarrow> stratum_step s1 Launch s2 \<longrightarrow> \<not> alive s2)
    \<and> (\<forall>es' s'. stratum_run s es' s' \<longrightarrow> alive s' \<longrightarrow> server s' = Some Ended \<and> owner s' \<noteq> Gone)"
proof -
  have flag: "\<not> is_running s"
    using stratum_run_inv [OF assms(1)] assms(3,4) by (auto simp: stratum_inv_def split: if_splits)
  then have stale: "stale s" using assms(3,4) by (simp add: stale_def)
  have "stratum_step s Stop s"
    using assms(2,3) flag by (intro stratum_step.stop stop_step.idle)
  moreover have "\<not> alive s'" if "stratum_step s Destroy s'" for s'
    using that assms(3,4) flag by (auto elim!: stratum_stepE elim: step_cases)
  moreover have "\<not> alive s2" if "stratum_step s Start s1" "stratum_step s1 Launch s2" for s1 s2
  proof -
    have "server s1 = Some Ended"
      using that(1) assms(4) by (auto elim!: stratum_stepE elim: step_cases)
    then show ?thesis using that(2) by (auto elim!: stratum_stepE elim: step_cases)
  qed
  moreover have "server s' = Some Ended \<and> owner s' \<noteq> Gone" if "stratum_run s es' s'" "alive s'" for es' s'
    using stale_run [OF that(1) stale] that(2) by (auto simp: stale_def)
  ultimately show ?thesis using flag by blast
qed

theorem failed_start_is_fatal_witness:
  "stratum_step failed_server Stop failed_server
    \<and> \<not> (\<exists>s'. stratum_step failed_server Destroy s' \<and> alive s')"
  using failed_start_is_fatal [OF failed_run] by (simp add: failed_server_def)

end
