(* ===== verification/Logger.thy ===== *)
theory Logger
  imports Prelude
begin

text \<open>
  \<^verbatim>\<open>src/util/logger.cpp\<close>: the logger. It writes to a file it appends to, or to the standard
  output when no file is set or the file cannot be opened. The rendered message (\<^verbatim>\<open>vfprintf\<close>) and
  the time (\<^verbatim>\<open>strftime\<close>) are arguments; \<open>can_write\<close> says which paths can be opened.
\<close>

section \<open>Levels\<close>

datatype LogLevel = Debug | Info | Warn | Error | Critical

fun level_number :: "LogLevel \<Rightarrow> nat" where
  "level_number Debug = 0" | "level_number Info = 1" | "level_number Warn = 2"
| "level_number Error = 3" | "level_number Critical = 4"

lemma level_number_inject [simp]: "level_number a = level_number b \<longleftrightarrow> a = b"
  by (cases a; cases b) simp_all

instantiation LogLevel :: linorder
begin

definition less_LogLevel :: "LogLevel \<Rightarrow> LogLevel \<Rightarrow> bool" where
  "less_LogLevel a b \<longleftrightarrow> level_number a < level_number b"

definition less_eq_LogLevel :: "LogLevel \<Rightarrow> LogLevel \<Rightarrow> bool" where
  "less_eq_LogLevel a b \<longleftrightarrow> level_number a \<le> level_number b"

instance
  by standard (auto simp: less_LogLevel_def less_eq_LogLevel_def)

end

fun level_text :: "LogLevel \<Rightarrow> string" where
  "level_text Debug = ''DEBUG''"
| "level_text Info = ''INFO''"
| "level_text Warn = ''WARN''"
| "level_text Error = ''ERROR''"
| "level_text Critical = ''CRITICAL''"


section \<open>The logger\<close>

text \<open>\<open>Unset\<close> is the null pointer the logger starts with.\<close>

datatype log_target = Unset | Stdout | is_File: File string

record logger =
  log_level :: LogLevel
  log_file :: log_target
  log_path :: string

text \<open>What is written: the text of the standard output and of each file.\<close>

record outputs =
  out :: string
  texts :: "string \<Rightarrow> string option"

definition new_logger :: logger where
  "new_logger = \<lparr>log_level = Info, log_file = Unset, log_path = []\<rparr>"

definition setLevel :: "LogLevel \<Rightarrow> logger \<Rightarrow> logger" where
  "setLevel level l = l\<lparr>log_level := level\<rparr>"

text \<open>Opening with mode \<^verbatim>\<open>a\<close> creates a missing file.\<close>

definition open_append :: "(string \<Rightarrow> bool) \<Rightarrow> string \<Rightarrow> outputs \<Rightarrow> bool \<times> outputs" where
  "open_append can_write path w =
     (if can_write path
      then (True, w\<lparr>texts := (texts w)(path \<mapsto> (case texts w path of None \<Rightarrow> [] | Some t \<Rightarrow> t))\<rparr>)
      else (False, w))"

definition setFile :: "(string \<Rightarrow> bool) \<Rightarrow> string \<Rightarrow> logger \<Rightarrow> outputs \<Rightarrow> logger \<times> outputs" where
  "setFile can_write path l w =
     (let l = l\<lparr>log_file := Unset, log_path := path\<rparr>;
          (file, w) =
            if path \<noteq> [] then
              let (opened, w) = open_append can_write path w
              in (if opened then File path else Unset, w)
            else (Unset, w)
      in (l\<lparr>log_file := if file = Unset then Stdout else file\<rparr>, w))"

definition log_line :: "string \<Rightarrow> LogLevel \<Rightarrow> string \<Rightarrow> string \<Rightarrow> string" where
  "log_line time level component message =
     time @ '' ['' @ level_text level @ ''] ['' @ component @ ''] '' @ message @ [CHR 0x0A]"

definition append_text :: "log_target \<Rightarrow> string \<Rightarrow> outputs \<Rightarrow> outputs" where
  "append_text target t w =
     (case target of
        File path \<Rightarrow> w\<lparr>texts := (texts w)(path \<mapsto> (case texts w path of None \<Rightarrow> [] | Some old \<Rightarrow> old) @ t)\<rparr>
      | _ \<Rightarrow> w\<lparr>out := out w @ t\<rparr>)"

definition log_msg :: "string \<Rightarrow> LogLevel \<Rightarrow> string \<Rightarrow> string \<Rightarrow> logger \<Rightarrow> outputs \<Rightarrow> outputs" where
  "log_msg time level component message l w =
     (if level < log_level l then w
      else append_text (log_file l) (log_line time level component message) w)"


section \<open>What a sequence of messages leaves\<close>

text \<open>The text of the place the logger writes to.\<close>

definition log_text :: "logger \<Rightarrow> outputs \<Rightarrow> string" where
  "log_text l w =
     (case log_file l of
        File path \<Rightarrow> (case texts w path of None \<Rightarrow> [] | Some t \<Rightarrow> t)
      | _ \<Rightarrow> out w)"

type_synonym message = "string \<times> LogLevel \<times> string \<times> string"

fun log_all :: "message list \<Rightarrow> logger \<Rightarrow> outputs \<Rightarrow> outputs" where
  "log_all [] l w = w"
| "log_all ((time, level, component, message) # ms) l w =
     log_all ms l (log_msg time level component message l w)"

lemma log_text_append: "log_text l (append_text (log_file l) t w) = log_text l w @ t"
  by (simp add: log_text_def append_text_def split: log_target.split option.split)

lemma log_text_msg:
  "log_text l (log_msg time level component message l w) =
     log_text l w @ (if level < log_level l then [] else log_line time level component message)"
  by (simp add: log_msg_def log_text_append)

text \<open>
  The messages at or above the level reach the chosen place, each as one line and in order,
  behind what was there; the others leave no trace.
\<close>

lemma log_all_text:
  "log_text l (log_all ms l w) = log_text l w @ concat
     (map (\<lambda>(time, level, component, message). log_line time level component message)
       (filter (\<lambda>(time, level, component, message). log_level l \<le> level) ms))"
  by (induction ms l w rule: log_all.induct) (auto simp: log_text_msg not_less)

text \<open>A file is appended to, never truncated, and other places keep their text.\<close>

lemma setFile_keeps:
  assumes "setFile can_write path l w = (l', w')"
  shows "out w' = out w \<and> (\<forall>p t. texts w p = Some t \<longrightarrow> texts w' p = Some t)
    \<and> log_level l' = log_level l \<and> log_file l' = (if path \<noteq> [] \<and> can_write path then File path else Stdout)"
  using assms by (auto simp: setFile_def open_append_def Let_def split: if_splits option.split)

lemma log_all_elsewhere:
  "(\<forall>path. log_file l \<noteq> File path \<longrightarrow> texts (log_all ms l w) path = texts w path)
    \<and> (is_File (log_file l) \<longrightarrow> out (log_all ms l w) = out w)"
  by (induction ms l w rule: log_all.induct)
    (auto simp: log_msg_def append_text_def split: log_target.splits)

end
