(* ===== verification/Realtime.thy ===== *)
theory Realtime
  imports Mempool
begin

text \<open>
  \<^verbatim>\<open>src/util/realtime.cpp\<close> on a file system: where the event file is, and when an event reaches
  it. \<open>Mempool\<close> works with the text of the file alone (\<open>feed\<close>); here its append is shown to be
  what the file system does. \<open>can_mkdir\<close> and \<open>can_write\<close> are the permissions; a file can be
  opened only in a directory that exists.
\<close>

record event_files =
  dirs :: "string list"
  file_texts :: "string \<Rightarrow> string option"

definition data_dir :: "string option \<Rightarrow> string" where
  "data_dir home = (case home of None \<Rightarrow> ''/tmp'' | Some h \<Rightarrow> h) @ ''/.shawncoin''"

definition defaultDataDir :: "(string \<Rightarrow> bool) \<Rightarrow> string option \<Rightarrow> event_files \<Rightarrow> string \<times> event_files" where
  "defaultDataDir can_mkdir home w =
     (let dir = data_dir home
      in (dir, if dir \<notin> set (dirs w) \<and> can_mkdir dir then w\<lparr>dirs := dir # dirs w\<rparr> else w))"

definition append_event ::
    "(string \<Rightarrow> bool) \<Rightarrow> (string \<Rightarrow> bool) \<Rightarrow> string option \<Rightarrow> string \<Rightarrow> event_files \<Rightarrow> event_files" where
  "append_event can_mkdir can_write home jsonLine w =
     (let (dir, w) = defaultDataDir can_mkdir home w;
          path = dir @ ''/realtime_feed.log''
      in if dir \<notin> set (dirs w) \<or> \<not> can_write path then w
         else w\<lparr>file_texts := (file_texts w)
                (path \<mapsto> (case file_texts w path of None \<Rightarrow> [] | Some t \<Rightarrow> t) @ jsonLine @ [CHR 0x0A])\<rparr>)"

text \<open>The feed of \<open>Mempool\<close>: the text of the event file, or \<open>None\<close> when it cannot be opened.\<close>

definition event_feed ::
    "(string \<Rightarrow> bool) \<Rightarrow> (string \<Rightarrow> bool) \<Rightarrow> string option \<Rightarrow> event_files \<Rightarrow> feed" where
  "event_feed can_mkdir can_write home w =
     (let dir = data_dir home; path = dir @ ''/realtime_feed.log''
      in if (dir \<in> set (dirs w) \<or> can_mkdir dir) \<and> can_write path
         then Some (case file_texts w path of None \<Rightarrow> [] | Some t \<Rightarrow> t) else None)"

lemma append_event_feed:
  "event_feed can_mkdir can_write home (append_event can_mkdir can_write home e w) =
     appendRealtimeEvent e (event_feed can_mkdir can_write home w)"
  by (auto simp: event_feed_def append_event_def defaultDataDir_def appendRealtimeEvent_def Let_def
      split: option.split)

text \<open>A series of events, and the pool's own use of it.\<close>

lemma fold_append_event_feed:
  "event_feed can_mkdir can_write home (fold (append_event can_mkdir can_write home) es w) =
     fold appendRealtimeEvent es (event_feed can_mkdir can_write home w)"
  by (induction es arbitrary: w) (simp_all add: append_event_feed)

lemma append_event_frame:
  "path \<noteq> data_dir home @ ''/realtime_feed.log'' \<Longrightarrow>
     file_texts (append_event can_mkdir can_write home e w) path = file_texts w path"
  by (auto simp: append_event_def defaultDataDir_def Let_def)

end
