(* ===== verification/Memory.thy ===== *)
theory Memory
  imports Prelude
begin

text \<open>
  The two helpers of \<^verbatim>\<open>src/crypto/secure_random.c\<close> for secrets in memory: the comparison that
  takes the same time for every content, and the wipe. A buffer is a list of bytes; the length
  is at most that of the buffers.
\<close>

fun cmp_loop :: "byte list \<Rightarrow> byte list \<Rightarrow> nat \<Rightarrow> byte \<Rightarrow> byte" where
  "cmp_loop pa pb 0 diff = diff"
| "cmp_loop pa pb (Suc n) diff = cmp_loop (tl pa) (tl pb) n (diff OR (hd pa XOR hd pb))"

definition memcmp_const :: "byte list \<Rightarrow> byte list \<Rightarrow> nat \<Rightarrow> int" where
  "memcmp_const a b len = (if cmp_loop a b len 0 = 0 then 1 else 0)"

definition memwipe :: "byte list \<Rightarrow> nat \<Rightarrow> byte list" where
  "memwipe buf len = (if 0 < len then replicate len 0 @ drop len buf else buf)"

text \<open>
  The accumulator is zero exactly when no byte differed; the number of steps does not depend on
  what the buffers hold.
\<close>

lemma word_or_zero: "(a :: byte) OR b = 0 \<longleftrightarrow> a = 0 \<and> b = 0"
  by (auto simp: bit_eq_iff bit_or_iff)

lemma word_xor_zero: "(a :: byte) XOR b = 0 \<longleftrightarrow> a = b"
  by (auto simp: bit_eq_iff bit_xor_iff)

lemma cmp_loop_zero:
  "n \<le> length pa \<Longrightarrow> n \<le> length pb \<Longrightarrow> cmp_loop pa pb n diff = 0 \<longleftrightarrow> diff = 0 \<and> take n pa = take n pb"
proof (induction pa pb n diff rule: cmp_loop.induct)
  case (2 pa pb n diff)
  then obtain a as b bs where "pa = a # as" "pb = b # bs" by (cases pa; cases pb) auto
  with 2 show ?case by (auto simp: word_or_zero word_xor_zero)
qed simp

lemma memcmp_const_equal:
  "len \<le> length a \<Longrightarrow> len \<le> length b \<Longrightarrow> memcmp_const a b len = (if take len a = take len b then 1 else 0)"
  by (simp add: memcmp_const_def cmp_loop_zero)

text \<open>The wipe leaves no byte of the secret and nothing else changes.\<close>

lemma memwipe_wipes:
  assumes "len \<le> length buf"
  shows "length (memwipe buf len) = length buf \<and> take len (memwipe buf len) = replicate len 0
    \<and> drop len (memwipe buf len) = drop len buf"
  using assms by (auto simp: memwipe_def)

end
