(* ===== verification/Resources.thy ===== *)
theory Resources
  imports Keys Memory "HOL-Library.State_Monad" "HOL-Library.Multiset"
begin

text \<open>
  What \<^verbatim>\<open>src/crypto/keys.c\<close> and \<^verbatim>\<open>signatures.c\<close> allocate and release. \<open>Keys\<close> says what the
  functions compute when every allocation succeeds; here each allocation may be refused, null
  pointers may be passed, and the objects that are alive, the releases of objects that are not,
  and what a released key pair still held in memory are part of the state.
\<close>

section \<open>The heap\<close>

text \<open>
  An object of one of the libraries, or a block of \<^verbatim>\<open>malloc\<close>, by the number of the request
  that made it. \<open>granted\<close> says which requests succeed.
\<close>

datatype object = Context nat | Key nat | Number nat | Curve_point nat | Ecdsa_sig nat | Pair_block nat

record heap =
  granted :: "nat \<Rightarrow> bool"
  requests :: nat
  live :: "object list"
  bad_frees :: nat
  remains :: "bytes list"

type_synonym 'a c_code = "(heap, 'a) state"

definition request :: "bool c_code" where
  "request = State (\<lambda>h. (granted h (requests h), h\<lparr>requests := Suc (requests h)\<rparr>))"

text \<open>Null is \<open>None\<close>.\<close>

definition alloc :: "(nat \<Rightarrow> object) \<Rightarrow> object option c_code" where
  "alloc mk = State (\<lambda>h.
     (if granted h (requests h) then Some (mk (requests h)) else None,
      h\<lparr>live := if granted h (requests h) then mk (requests h) # live h else live h,
        requests := Suc (requests h)\<rparr>))"

definition free :: "object \<Rightarrow> unit c_code" where
  "free x = State (\<lambda>h. ((),
     if x \<in> set (live h) then h\<lparr>live := remove1 x (live h)\<rparr> else h\<lparr>bad_frees := Suc (bad_frees h)\<rparr>))"

text \<open>\<^verbatim>\<open>BN_free\<close> does nothing for null.\<close>

definition free_opt :: "object option \<Rightarrow> unit c_code" where
  "free_opt p = (case p of None \<Rightarrow> State_Monad.return () | Some x \<Rightarrow> free x)"

text \<open>The block of a key pair is released with what its bytes hold at that time.\<close>

definition free_block :: "object \<Rightarrow> bytes \<Rightarrow> unit c_code" where
  "free_block x bs = do { free x; State (\<lambda>h. ((), h\<lparr>remains := bs # remains h\<rparr>)) }"


section \<open>The OpenSSL back end\<close>

text \<open>
  An \<^verbatim>\<open>EC_KEY\<close> and what it holds; the public key is missing when it was never set. A key pair is
  a block that holds a pointer to it, so that no byte of the secret is in the block.
\<close>

record ('bn, 'pt) ossl_pair =
  op_block :: object
  op_ec :: object
  op_priv :: 'bn
  op_pub :: "'pt option"

definition ec_key_new :: "('bn, 'pt) openssl \<Rightarrow> (object \<times> 'bn \<times> 'pt) option c_code" where
  "ec_key_new lib = do {
     key \<leftarrow> alloc Key;
     case key of None \<Rightarrow> State_Monad.return None
     | Some key \<Rightarrow>
         (case EC_KEY_generate_key lib of
            None \<Rightarrow> do { free key; State_Monad.return None }
          | Some (d, q) \<Rightarrow> State_Monad.return (Some (key, d, q)))
   }"

definition ossl_create :: "('bn, 'pt) openssl \<Rightarrow> ('bn, 'pt) ossl_pair option c_code" where
  "ossl_create lib = do {
     ec \<leftarrow> ec_key_new lib;
     case ec of None \<Rightarrow> State_Monad.return None
     | Some (ec, d, q) \<Rightarrow> do {
         kp \<leftarrow> alloc Pair_block;
         case kp of None \<Rightarrow> do { free ec; State_Monad.return None }
         | Some kp \<Rightarrow> State_Monad.return (Some \<lparr>op_block = kp, op_ec = ec, op_priv = d, op_pub = Some q\<rparr>)
       }
   }"

text \<open>\<^verbatim>\<open>EC_KEY_set_public_key\<close> copies the point, which may fail; its result is not looked at.\<close>

definition set_public_key :: "'pt \<Rightarrow> 'pt option c_code" where
  "set_public_key q = do { ok \<leftarrow> request; State_Monad.return (if ok then Some q else None) }"

definition ossl_from_priv :: "('bn, 'pt) openssl \<Rightarrow> bytes option \<Rightarrow> ('bn, 'pt) ossl_pair option c_code" where
  "ossl_from_priv lib priv32 = (case priv32 of None \<Rightarrow> State_Monad.return None | Some priv32 \<Rightarrow> do {
     ec \<leftarrow> alloc Key;
     case ec of None \<Rightarrow> State_Monad.return None
     | Some ec \<Rightarrow> do {
         bn \<leftarrow> alloc Number;
         case bn of None \<Rightarrow> do { free ec; State_Monad.return None }
         | Some bn \<Rightarrow>
             let d = BN_bin2bn lib priv32
             in if \<not> EC_KEY_set_private_key lib d then do { free bn; free ec; State_Monad.return None }
             else do {
               pub \<leftarrow> alloc Curve_point;
               case (pub, EC_POINT_mul lib d) of
                 (Some pub, Some q) \<Rightarrow> do {
                   q \<leftarrow> set_public_key q;
                   free pub;
                   free bn;
                   kp \<leftarrow> alloc Pair_block;
                   case kp of None \<Rightarrow> do { free ec; State_Monad.return None }
                   | Some kp \<Rightarrow> State_Monad.return (Some \<lparr>op_block = kp, op_ec = ec, op_priv = d, op_pub = q\<rparr>)
                 }
               | _ \<Rightarrow> do { free_opt pub; free bn; free ec; State_Monad.return None }
             }
       }
   })"

text \<open>
  The functions that only read the key pair, with the buffer of the caller; the last is for
  OpenSSL only. A key pair always holds a private key. Encoding a point that is null is an error of
  the caller that OpenSSL does not report: the outer \<open>None\<close>.
\<close>

definition ossl_pubkey_get ::
    "('bn, 'pt) openssl \<Rightarrow> ('bn, 'pt) ossl_pair option \<Rightarrow> bytes option \<Rightarrow> bytes option option" where
  "ossl_pubkey_get lib key out33 = (case (key, out33) of
     (Some kp, Some _) \<Rightarrow>
       (case op_pub kp of
          None \<Rightarrow> None
        | Some q \<Rightarrow> Some (let out33 = EC_POINT_point2oct lib q in if length out33 = 33 then Some out33 else None))
   | _ \<Rightarrow> Some None)"

definition ossl_privkey_get ::
    "('bn, 'pt) openssl \<Rightarrow> ('bn, 'pt) ossl_pair option \<Rightarrow> bytes option \<Rightarrow> bytes option" where
  "ossl_privkey_get lib key out32 = (case (key, out32) of
     (Some kp, Some _) \<Rightarrow>
       (let bn = op_priv kp; n = BN_num_bytes lib bn
        in if 32 < n then None else Some (replicate (32 - n) 0 @ BN_bn2bin lib bn))
   | _ \<Rightarrow> None)"

definition ossl_get_ec_key :: "('bn, 'pt) ossl_pair option \<Rightarrow> object option" where
  "ossl_get_ec_key key = map_option op_ec key"

definition ossl_destroy :: "('bn, 'pt) ossl_pair option \<Rightarrow> unit c_code" where
  "ossl_destroy key = (case key of None \<Rightarrow> State_Monad.return ()
   | Some kp \<Rightarrow> do { free (op_ec kp); free_block (op_block kp) (replicate 8 0) })"

text \<open>The caller passes a buffer \<open>sig\<close> and its length; the buffer comes back written.\<close>

definition ossl_sign ::
    "('bn, 'pt) openssl \<Rightarrow> ('bn, 'pt) ossl_pair option \<Rightarrow> bytes option \<Rightarrow> bytes option \<Rightarrow> nat option \<Rightarrow> bytes option c_code" where
  "ossl_sign lib key hash32 sig sig_len =
     (case (key, hash32, sig, sig_len) of
        (Some key, Some hash32, Some sig, Some n) \<Rightarrow>
          if n < 64 then State_Monad.return None
          else
            (case (ossl_get_ec_key (Some key), ECDSA_do_sign lib hash32 (op_priv key)) of
               (None, _) \<Rightarrow> State_Monad.return None
             | (_, None) \<Rightarrow> State_Monad.return None
             | (Some ec, Some (r, s)) \<Rightarrow> do {
                 sg \<leftarrow> alloc Ecdsa_sig;
                 case sg of None \<Rightarrow> State_Monad.return None
                 | Some sg \<Rightarrow>
                     let r_len = BN_num_bytes lib r; s_len = BN_num_bytes lib s
                     in if 32 < r_len \<or> 32 < s_len then do { free sg; State_Monad.return None }
                     else
                       let sig = memcpy_at sig 0 (replicate 64 0);
                           sig = memcpy_at sig (32 - r_len) (BN_bn2bin lib r);
                           sig = memcpy_at sig (32 + (32 - s_len)) (BN_bn2bin lib s)
                       in do { free sg; State_Monad.return (Some sig) }
               })
      | _ \<Rightarrow> State_Monad.return None)"

text \<open>\<^verbatim>\<open>ECDSA_SIG_set0\<close> gives the two numbers to the signature, which releases them with itself.\<close>

definition sig_free :: "object \<Rightarrow> object option \<Rightarrow> object option \<Rightarrow> unit c_code" where
  "sig_free sg r s = do { free_opt r; free_opt s; free sg }"

text \<open>A verification key that has no public key does not verify anything.\<close>

definition ossl_verify ::
    "('bn, 'pt) openssl \<Rightarrow> bytes option \<Rightarrow> bytes option \<Rightarrow> bytes option \<Rightarrow> nat \<Rightarrow> bool c_code" where
  "ossl_verify lib pubkey33 hash32 sig sig_len =
     (case (pubkey33, hash32, sig) of
        (Some pubkey33, Some hash32, Some sig) \<Rightarrow> do {
          ec \<leftarrow> alloc Key;
          case ec of None \<Rightarrow> State_Monad.return False
          | Some ec \<Rightarrow> do {
              pub \<leftarrow> alloc Curve_point;
              case (pub, EC_POINT_oct2point lib pubkey33) of
                (Some pub, Some q) \<Rightarrow> do {
                  q \<leftarrow> set_public_key q;
                  free pub;
                  if sig_len \<noteq> 64 then do { free ec; State_Monad.return False }
                  else do {
                    r \<leftarrow> alloc Number;
                    s \<leftarrow> alloc Number;
                    if r = None \<or> s = None then do { free_opt r; free_opt s; free ec; State_Monad.return False }
                    else do {
                      sg \<leftarrow> alloc Ecdsa_sig;
                      case sg of None \<Rightarrow> do { free_opt r; free_opt s; free ec; State_Monad.return False }
                      | Some sg \<Rightarrow>
                          let rs = (BN_bin2bn lib (take 32 sig), BN_bin2bn lib (take 32 (drop 32 sig)));
                              verified = (case q of None \<Rightarrow> False | Some q \<Rightarrow> ECDSA_do_verify lib hash32 rs q)
                          in do { sig_free sg r s; free ec; State_Monad.return verified }
                    }
                  }
                }
              | _ \<Rightarrow> do { free_opt pub; free ec; State_Monad.return False }
            }
        }
      | _ \<Rightarrow> State_Monad.return False)"


section \<open>The libsecp256k1 back end\<close>

text \<open>Here the block of a key pair holds the secret key next to the pointer to the context.\<close>

record secp_pair =
  sp_block :: object
  sp_ctx :: object
  sp_seckey :: bytes

definition secp_destroy :: "secp_pair option \<Rightarrow> unit c_code" where
  "secp_destroy key = (case key of None \<Rightarrow> State_Monad.return ()
   | Some kp \<Rightarrow> do { free (sp_ctx kp); free_block (sp_block kp) (memwipe (sp_seckey kp) 32) })"

text \<open>The \<^verbatim>\<open>memset\<close> that follows the wipe writes zeros over zeros.\<close>

text \<open>
  The loop of \<open>Keys\<close> draws the key into the block; \<open>garbage\<close> is what the block holds when the
  random source fails. The outer \<open>None\<close> is a loop that does not return.
\<close>

definition secp_create ::
    "('pk, 'sig) libsecp256k1 \<Rightarrow> (nat \<Rightarrow> nat \<Rightarrow> bytes option) \<Rightarrow> bytes \<Rightarrow> heap \<Rightarrow> (secp_pair option \<times> heap) option" where
  "secp_create lib draws garbage h =
     (case run_state (alloc Context) h of
        (None, h) \<Rightarrow> Some (None, h)
      | (Some ctx, h) \<Rightarrow>
          (case run_state (alloc Pair_block) h of
             (None, h) \<Rightarrow> Some (None, snd (run_state (free ctx) h))
           | (Some kp, h) \<Rightarrow>
               (case draw_seckey lib draws 0 of
                  None \<Rightarrow> None
                | Some None \<Rightarrow>
                    Some (None, snd (run_state (secp_destroy (Some \<lparr>sp_block = kp, sp_ctx = ctx, sp_seckey = garbage\<rparr>)) h))
                | Some (Some seckey) \<Rightarrow>
                    Some (Some \<lparr>sp_block = kp, sp_ctx = ctx, sp_seckey = seckey\<rparr>, h))))"

definition secp_from_priv :: "('pk, 'sig) libsecp256k1 \<Rightarrow> bytes option \<Rightarrow> secp_pair option c_code" where
  "secp_from_priv lib priv32 = (case priv32 of None \<Rightarrow> State_Monad.return None | Some priv32 \<Rightarrow> do {
     ctx \<leftarrow> alloc Context;
     case ctx of None \<Rightarrow> State_Monad.return None
     | Some ctx \<Rightarrow>
         if \<not> seckey_verify lib priv32 then do { free ctx; State_Monad.return None }
         else do {
           kp \<leftarrow> alloc Pair_block;
           case kp of None \<Rightarrow> do { free ctx; State_Monad.return None }
           | Some kp \<Rightarrow> State_Monad.return (Some \<lparr>sp_block = kp, sp_ctx = ctx, sp_seckey = priv32\<rparr>)
         }
   })"

definition secp_check_sig ::
    "('pk, 'sig) libsecp256k1 \<Rightarrow> bytes option \<Rightarrow> bytes option \<Rightarrow> bytes option \<Rightarrow> nat \<Rightarrow> bool c_code" where
  "secp_check_sig lib pubkey33 hash32 sig sig_len =
     (case (pubkey33, hash32, sig) of
        (Some pubkey33, Some hash32, Some sig) \<Rightarrow> do {
          ctx \<leftarrow> alloc Context;
          case ctx of None \<Rightarrow> State_Monad.return False
          | Some ctx \<Rightarrow>
              (case ec_pubkey_parse lib pubkey33 of
                 None \<Rightarrow> do { free ctx; State_Monad.return False }
               | Some pub \<Rightarrow>
                   (case (if sig_len \<noteq> 64 then None else signature_parse_compact lib sig) of
                      None \<Rightarrow> do { free ctx; State_Monad.return False }
                    | Some secp_sig \<Rightarrow>
                        let ret = ecdsa_verify lib secp_sig hash32 pub
                        in do { free ctx; State_Monad.return ret }))
        }
      | _ \<Rightarrow> State_Monad.return False)"


section \<open>Running the code\<close>

text \<open>Rules that execute a program, one branch after the other.\<close>

lemma run_request: "run_state request h = (granted h (requests h), h\<lparr>requests := Suc (requests h)\<rparr>)"
  by (simp add: request_def)

lemma run_alloc:
  "run_state (alloc mk) h =
     (if granted h (requests h) then (Some (mk (requests h)), h\<lparr>live := mk (requests h) # live h, requests := Suc (requests h)\<rparr>)
      else (None, h\<lparr>requests := Suc (requests h)\<rparr>))"
  by (simp add: alloc_def)

lemma run_free:
  "run_state (free x) h =
     ((), if x \<in> set (live h) then h\<lparr>live := remove1 x (live h)\<rparr> else h\<lparr>bad_frees := Suc (bad_frees h)\<rparr>)"
  by (simp add: free_def)

lemma run_free_opt:
  "run_state (free_opt p) h = (case p of None \<Rightarrow> ((), h) | Some x \<Rightarrow> run_state (free x) h)"
  by (simp add: free_opt_def split: option.split)

lemma run_free_block:
  "run_state (free_block x bs) h = (let h' = snd (run_state (free x) h) in ((), h'\<lparr>remains := bs # remains h'\<rparr>))"
  by (simp add: free_block_def Let_def run_free)

lemmas run_code = run_request run_alloc run_free run_free_opt run_free_block Let_def

text \<open>
  A heap after a function: the same objects are alive but for the ones it returned, nothing was
  released twice, and only zeros were left in released key pairs.
\<close>

definition tidy :: "object list \<Rightarrow> heap \<Rightarrow> heap \<Rightarrow> bool" where
  "tidy owned h h' \<longleftrightarrow> live h' = owned @ live h \<and> bad_frees h' = bad_frees h \<and>
     (\<exists>bss. remains h' = bss @ remains h \<and> (\<forall>bs \<in> set bss. list_all (\<lambda>b. b = 0) bs))"

lemma tidy_same: "remains h' = remains h \<Longrightarrow> tidy owned h h' \<longleftrightarrow> live h' = owned @ live h \<and> bad_frees h' = bad_frees h"
  by (auto simp: tidy_def)

definition ossl_owned :: "('bn, 'pt) ossl_pair option \<Rightarrow> object list" where
  "ossl_owned r = (case r of None \<Rightarrow> [] | Some kp \<Rightarrow> [op_block kp, op_ec kp])"

definition secp_owned :: "secp_pair option \<Rightarrow> object list" where
  "secp_owned r = (case r of None \<Rightarrow> [] | Some kp \<Rightarrow> [sp_block kp, sp_ctx kp])"

lemma ossl_create_tidy:
  "run_state (ossl_create lib) h = (r, h') \<Longrightarrow> tidy (ossl_owned r) h h'"
  by (auto simp: ossl_create_def ec_key_new_def run_code ossl_owned_def tidy_same split: option.splits if_splits)

lemma ossl_from_priv_tidy:
  "run_state (ossl_from_priv lib p) h = (r, h') \<Longrightarrow> tidy (ossl_owned r) h h'"
  by (auto simp: ossl_from_priv_def set_public_key_def run_code ossl_owned_def tidy_same split: option.splits if_splits)

lemma ossl_sign_tidy:
  "run_state (ossl_sign lib key hash32 sig n) h = (r, h') \<Longrightarrow> tidy [] h h'"
  by (auto simp: ossl_sign_def ossl_get_ec_key_def run_code tidy_same split: option.splits if_splits)

lemma ossl_verify_tidy:
  "run_state (ossl_verify lib pub hash32 sig n) h = (r, h') \<Longrightarrow> tidy [] h h'"
  by (auto simp: ossl_verify_def set_public_key_def sig_free_def run_code tidy_same split: option.splits if_splits)

lemma secp_from_priv_tidy:
  "run_state (secp_from_priv lib p) h = (r, h') \<Longrightarrow> tidy (secp_owned r) h h'"
  by (auto simp: secp_from_priv_def run_code secp_owned_def tidy_same split: option.splits if_splits)

lemma secp_check_sig_tidy:
  "run_state (secp_check_sig lib pub hash32 sig n) h = (r, h') \<Longrightarrow> tidy [] h h'"
  by (auto simp: secp_check_sig_def run_code tidy_same split: option.splits if_splits)

lemma release_pair:
  assumes "{#x, y#} \<subseteq># mset (live h)"
  shows "\<exists>h'. run_state (do { free x; free_block y bs }) h = ((), h') \<and> mset (live h') = mset (live h) - {#x, y#}
    \<and> bad_frees h' = bad_frees h \<and> remains h' = bs # remains h"
proof -
  have "y \<in># mset (remove1 x (live h))" "x \<in># mset (live h)"
    using assms by (simp_all add: insert_subset_eq_iff)
  then have "x \<in> set (live h)" "y \<in> set (remove1 x (live h))" by (simp_all only: set_mset_mset)
  then show ?thesis by (simp add: run_code add_mset_commute)
qed

text \<open>The key pairs a call adds to those a program has.\<close>

definition the_list :: "'a option \<Rightarrow> 'a list" where
  "the_list r = (case r of None \<Rightarrow> [] | Some x \<Rightarrow> [x])"

lemma wiped_key: "length key = 32 \<Longrightarrow> list_all (\<lambda>b. b = 0) (memwipe key 32)"
  by (simp add: memwipe_def list_all_iff)

text \<open>With every request granted, the functions return what \<open>Keys\<close> says.\<close>

definition pair_value :: "('bn, 'pt) ossl_pair \<Rightarrow> ('bn, 'pt) EC_KEY" where
  "pair_value kp = \<lparr>ec_priv = op_priv kp, ec_pub = the (op_pub kp)\<rparr>"

lemma ossl_create_result:
  "granted h = (\<lambda>_. True) \<Longrightarrow>
     map_option pair_value (fst (run_state (ossl_create lib) h)) = openssl_keypair_create lib"
  by (simp add: ossl_create_def ec_key_new_def run_code openssl_keypair_create_def pair_value_def split: option.split)

lemma ossl_from_priv_result:
  "granted h = (\<lambda>_. True) \<Longrightarrow>
     map_option pair_value (fst (run_state (ossl_from_priv lib (Some p)) h)) = openssl_keypair_from_priv lib p"
  by (simp add: ossl_from_priv_def set_public_key_def run_code openssl_keypair_from_priv_def pair_value_def split: option.split)

lemma ossl_sign_result:
  "granted h = (\<lambda>_. True) \<Longrightarrow> length buf = 64 \<Longrightarrow>
     fst (run_state (ossl_sign lib (Some kp) (Some hash32) (Some buf) (Some n)) h) = openssl_sign lib (pair_value kp) hash32 n"
  by (simp add: ossl_sign_def ossl_get_ec_key_def run_code openssl_sign_def pair_value_def memcpy_at_def [of buf] split: option.split)

lemma ossl_verify_result:
  "granted h = (\<lambda>_. True) \<Longrightarrow>
     fst (run_state (ossl_verify lib (Some pub) (Some hash32) (Some sig) (length sig)) h) = openssl_verify lib pub hash32 sig"
  by (simp add: ossl_verify_def sig_free_def set_public_key_def run_code openssl_verify_def split: option.split)

lemma secp_from_priv_result:
  "granted h = (\<lambda>_. True) \<Longrightarrow>
     map_option sp_seckey (fst (run_state (secp_from_priv lib (Some p)) h)) = secp_keypair_from_priv lib p"
  by (simp add: secp_from_priv_def run_code secp_keypair_from_priv_def)

lemma secp_check_sig_result:
  "granted h = (\<lambda>_. True) \<Longrightarrow>
     fst (run_state (secp_check_sig lib (Some pub) (Some hash32) (Some sig) (length sig)) h) = secp_verify lib pub hash32 sig"
  by (simp add: secp_check_sig_def run_code secp_verify_def split: option.split)

lemma secp_create_result:
  "granted h = (\<lambda>_. True) \<Longrightarrow>
     map_option (\<lambda>r. map_option sp_seckey (fst r)) (secp_create lib draws garbage h) = secp_keypair_create lib draws"
  by (simp add: secp_create_def run_code secp_keypair_create_def split: option.split)


section \<open>A program that uses key pairs\<close>

text \<open>
  Any sequence of calls, with any arguments, among them null pointers: \<open>kps\<close> are the key pairs
  the program has obtained and not destroyed.
\<close>

inductive ossl_program :: "('bn, 'pt) openssl \<Rightarrow> heap \<Rightarrow> ('bn, 'pt) ossl_pair list \<Rightarrow> heap \<Rightarrow> bool"
  for lib h0 where
  begins: "ossl_program lib h0 [] h0"
| creates: "ossl_program lib h0 kps h \<Longrightarrow> run_state (ossl_create lib) h = (r, h') \<Longrightarrow>
    ossl_program lib h0 (the_list r @ kps) h'"
| loads: "ossl_program lib h0 kps h \<Longrightarrow> run_state (ossl_from_priv lib p) h = (r, h') \<Longrightarrow>
    ossl_program lib h0 (the_list r @ kps) h'"
| signs: "ossl_program lib h0 kps h \<Longrightarrow> run_state (ossl_sign lib key hash32 sig n) h = (b, h') \<Longrightarrow>
    ossl_program lib h0 kps h'"
| verifies: "ossl_program lib h0 kps h \<Longrightarrow> run_state (ossl_verify lib pub hash32 sig n) h = (v, h') \<Longrightarrow>
    ossl_program lib h0 kps h'"
| destroys: "ossl_program lib h0 kps h \<Longrightarrow> kp \<in> set kps \<Longrightarrow> run_state (ossl_destroy (Some kp)) h = (u, h') \<Longrightarrow>
    ossl_program lib h0 (remove1 kp kps) h'"
| ignores: "ossl_program lib h0 kps h \<Longrightarrow> 
    run_state (ossl_destroy (None :: ('bn, 'pt) ossl_pair option)) h = (u, h') \<Longrightarrow> ossl_program lib h0 kps h'"


inductive secp_program :: "('pk, 'sig) libsecp256k1 \<Rightarrow> heap \<Rightarrow> secp_pair list \<Rightarrow> heap \<Rightarrow> bool"
  for lib h0 where
  begins: "secp_program lib h0 [] h0"
| creates: "secp_program lib h0 kps h \<Longrightarrow> (\<And>k bs. draws k 32 = Some bs \<Longrightarrow> length bs = 32) \<Longrightarrow> length garbage = 32 \<Longrightarrow>
    secp_create lib draws garbage h = Some (r, h') \<Longrightarrow> secp_program lib h0 (the_list r @ kps) h'"
| loads: "secp_program lib h0 kps h \<Longrightarrow> (\<And>bs. p = Some bs \<Longrightarrow> length bs = 32) \<Longrightarrow>
    run_state (secp_from_priv lib p) h = (r, h') \<Longrightarrow> secp_program lib h0 (the_list r @ kps) h'"
| verifies: "secp_program lib h0 kps h \<Longrightarrow> run_state (secp_check_sig lib pub hash32 sig n) h = (v, h') \<Longrightarrow>
    secp_program lib h0 kps h'"
| destroys: "secp_program lib h0 kps h \<Longrightarrow> kp \<in> set kps \<Longrightarrow> run_state (secp_destroy (Some kp)) h = (u, h') \<Longrightarrow>
    secp_program lib h0 (remove1 kp kps) h'"
| ignores: "secp_program lib h0 kps h \<Longrightarrow> run_state (secp_destroy None) h = (u, h') \<Longrightarrow> secp_program lib h0 kps h'"

text \<open>
  Alive are the objects that were alive at the beginning and those of the key pairs the program
  has; nothing else.
\<close>

definition accounted :: "object list \<Rightarrow> heap \<Rightarrow> heap \<Rightarrow> bool" where
  "accounted owned h0 h \<longleftrightarrow> mset (live h) = mset (live h0) + mset owned \<and> bad_frees h = bad_frees h0 \<and>
     (\<exists>bss. remains h = bss @ remains h0 \<and> (\<forall>bs \<in> set bss. list_all (\<lambda>b. b = 0) bs))"

lemma accounted_refl: "accounted [] h h"
  by (simp add: accounted_def)

lemma accounted_tidy:
  assumes "accounted owned h0 h" "tidy new h h'"
  shows "accounted (new @ owned) h0 h'"
proof -
  obtain bss where a: "mset (live h) = mset (live h0) + mset owned" "bad_frees h = bad_frees h0"
    "remains h = bss @ remains h0" "\<forall>bs \<in> set bss. list_all (\<lambda>b. b = 0) bs"
    using assms(1) by (auto simp: accounted_def)
  obtain bss' where t: "live h' = new @ live h" "bad_frees h' = bad_frees h"
    "remains h' = bss' @ remains h" "\<forall>bs \<in> set bss'. list_all (\<lambda>b. b = 0) bs"
    using assms(2) by (auto simp: tidy_def)
  have "remains h' = (bss' @ bss) @ remains h0" "\<forall>bs \<in> set (bss' @ bss). list_all (\<lambda>b. b = 0) bs"
    using a t by auto
  with a(1,2) t(1,2) show ?thesis unfolding accounted_def by (intro conjI exI [of _ "bss' @ bss"]) simp_all
qed

lemma accounted_release:
  assumes "accounted owned h0 h" "{#x, y#} \<subseteq># mset owned" "list_all (\<lambda>b. b = 0) bs"
    and "run_state (do { free x; free_block y bs }) h = (u, h')" "mset owned' = mset owned - {#x, y#}"
  shows "accounted owned' h0 h'"
proof -
  obtain bss where a: "mset (live h) = mset (live h0) + mset owned" "bad_frees h = bad_frees h0"
    "remains h = bss @ remains h0" "\<forall>bs \<in> set bss. list_all (\<lambda>b. b = 0) bs"
    using assms(1) by (auto simp: accounted_def)
  have "{#x, y#} \<subseteq># mset (live h)" using assms(2) a(1) by (simp add: subset_mset.add_increasing)
  then have r: "mset (live h') = mset (live h) - {#x, y#}" "bad_frees h' = bad_frees h" "remains h' = bs # remains h"
    using release_pair [of x y h bs] assms(4) by auto
  have "mset (live h') = mset (live h0) + mset owned'"
    using r(1) a(1) assms(2,5) by (simp only: multiset_diff_union_assoc)
  moreover have "remains h' = (bs # bss) @ remains h0" "\<forall>bs \<in> set (bs # bss). list_all (\<lambda>b. b = 0) bs"
    using r(3) a(3,4) assms(3) by simp_all
  ultimately show ?thesis
    using r(2) a(2) unfolding accounted_def by (intro conjI exI [of _ "bs # bss"]) simp_all
qed

definition ossl_objects :: "('bn, 'pt) ossl_pair list \<Rightarrow> object list" where
  "ossl_objects kps = concat (map (\<lambda>kp. [op_block kp, op_ec kp]) kps)"

definition secp_objects :: "secp_pair list \<Rightarrow> object list" where
  "secp_objects kps = concat (map (\<lambda>kp. [sp_block kp, sp_ctx kp]) kps)"

lemma pair_objects:
  assumes "kp \<in> set kps"
  shows "{#g kp, f kp#} \<subseteq># mset (concat (map (\<lambda>kp. [f kp, g kp]) kps))"
    and "mset (concat (map (\<lambda>kp. [f kp, g kp]) (remove1 kp kps))) = mset (concat (map (\<lambda>kp. [f kp, g kp]) kps)) - {#g kp, f kp#}"
proof -
  have s: "mset (concat (map (\<lambda>kp. [f kp, g kp]) kps))
      = {#g kp, f kp#} + mset (concat (map (\<lambda>kp. [f kp, g kp]) (remove1 kp kps)))"
    using assms by (induction kps) (auto simp: add_mset_commute)
  show "{#g kp, f kp#} \<subseteq># mset (concat (map (\<lambda>kp. [f kp, g kp]) kps))" unfolding s by simp
  show "mset (concat (map (\<lambda>kp. [f kp, g kp]) (remove1 kp kps))) = mset (concat (map (\<lambda>kp. [f kp, g kp]) kps)) - {#g kp, f kp#}"
    unfolding s by simp
qed

lemma ossl_objects_simps [simp]: "ossl_objects [] = []" "ossl_objects (the_list r @ kps) = ossl_owned r @ ossl_objects kps"
  by (simp_all add: ossl_objects_def ossl_owned_def the_list_def split: option.split)

lemma secp_objects_simps [simp]: "secp_objects [] = []" "secp_objects (the_list r @ kps) = secp_owned r @ secp_objects kps"
  by (simp_all add: secp_objects_def secp_owned_def the_list_def split: option.split)

lemma ossl_program_accounted: "ossl_program lib h0 kps h \<Longrightarrow> accounted (ossl_objects kps) h0 h"
proof (induction rule: ossl_program.induct)
  case begins
  show ?case by (simp add: accounted_refl)
next
  case (creates kps h r h')
  from accounted_tidy [OF creates.IH ossl_create_tidy [OF creates.hyps(2)]] show ?case by simp
next
  case (loads kps h p r h')
  from accounted_tidy [OF loads.IH ossl_from_priv_tidy [OF loads.hyps(2)]] show ?case by simp
next
  case (signs kps h key hash32 sig n b h')
  from accounted_tidy [OF signs.IH ossl_sign_tidy [OF signs.hyps(2)]] show ?case by simp
next
  case (verifies kps h pub hash32 sig n v h')
  from accounted_tidy [OF verifies.IH ossl_verify_tidy [OF verifies.hyps(2)]] show ?case by simp
next
  case (destroys kps h kp u h')
  have run: "run_state (do { free (op_ec kp); free_block (op_block kp) (replicate 8 0) }) h = (u, h')"
    using destroys.hyps(3) by (simp add: ossl_destroy_def)
  note o = pair_objects [OF destroys.hyps(2), where g = op_ec and f = op_block, folded ossl_objects_def]
  show ?case by (rule accounted_release [OF destroys.IH o(1) _ run o(2)]) (simp add: list_all_iff)
next
  case (ignores kps h u h')
  then show ?case by (simp add: ossl_destroy_def)
qed

lemma secp_create_tidy:
  assumes "secp_create lib draws garbage h = Some (r, h')" "length garbage = 32"
  shows "tidy (secp_owned r) h h'"
proof (cases "granted h (requests h) \<and> granted h (Suc (requests h))")
  case True
  show ?thesis
  proof (cases "draw_seckey lib draws 0")
    case None
    with True assms(1) show ?thesis by (simp add: secp_create_def run_code)
  next
    case (Some key)
    then show ?thesis
      using True assms(1) wiped_key [OF assms(2)]
      by (cases key) (auto simp: secp_create_def secp_destroy_def run_code secp_owned_def tidy_def)
  qed
next
  case False
  then show ?thesis using assms(1)
    by (auto simp: secp_create_def run_code secp_owned_def tidy_same split: if_splits)
qed

lemma secp_create_length:
  assumes "secp_create lib draws garbage h = Some (Some kp, h')" "\<And>k bs. draws k 32 = Some bs \<Longrightarrow> length bs = 32"
  shows "length (sp_seckey kp) = 32"
proof -
  have "draw_seckey lib draws 0 = Some (Some (sp_seckey kp))"
    using assms(1) by (auto simp: secp_create_def split: option.splits prod.splits)
  then show ?thesis using draw_seckey_returned assms(2) by blast
qed

lemma secp_from_priv_key: "run_state (secp_from_priv lib p) h = (Some kp, h') \<Longrightarrow> p = Some (sp_seckey kp)"
  by (auto simp: secp_from_priv_def run_code split: option.splits if_splits)

lemma secp_program_accounted:
  "secp_program lib h0 kps h \<Longrightarrow> accounted (secp_objects kps) h0 h \<and> (\<forall>kp \<in> set kps. length (sp_seckey kp) = 32)"
proof (induction rule: secp_program.induct)
  case begins
  show ?case by (simp add: accounted_refl)
next
  case (creates kps h draws garbage r h')
  from accounted_tidy [OF conjunct1 [OF creates.IH] secp_create_tidy [OF creates.hyps(4,3)]]
  have "accounted (secp_objects (the_list r @ kps)) h0 h'" by simp
  moreover have "length (sp_seckey kp) = 32" if "r = Some kp" for kp
    using creates.hyps(4) unfolding that by (rule secp_create_length) (rule creates.hyps(2))
  then have "\<forall>kp \<in> set (the_list r). length (sp_seckey kp) = 32"
    by (simp add: the_list_def split: option.split)
  ultimately show ?case using creates.IH by (intro conjI) auto
next
  case (loads kps h p r h')
  from accounted_tidy [OF conjunct1 [OF loads.IH] secp_from_priv_tidy [OF loads.hyps(3)]]
  have "accounted (secp_objects (the_list r @ kps)) h0 h'" by simp
  moreover have "length (sp_seckey kp) = 32" if "r = Some kp" for kp
    using loads.hyps(3) unfolding that by (intro loads.hyps(2)) (rule secp_from_priv_key)
  then have "\<forall>kp \<in> set (the_list r). length (sp_seckey kp) = 32"
    by (simp add: the_list_def split: option.split)
  ultimately show ?case using loads.IH by (intro conjI) auto
next
  case (verifies kps h pub hash32 sig n v h')
  from accounted_tidy [OF conjunct1 [OF verifies.IH] secp_check_sig_tidy [OF verifies.hyps(2)]] verifies.IH
  show ?case by simp
next
  case (destroys kps h kp u h')
  have run: "run_state (do { free (sp_ctx kp); free_block (sp_block kp) (memwipe (sp_seckey kp) 32) }) h = (u, h')"
    using destroys.hyps(3) by (simp add: secp_destroy_def)
  have z: "list_all (\<lambda>b. b = 0) (memwipe (sp_seckey kp) 32)" using destroys.IH destroys.hyps(2) by (simp add: wiped_key)
  note o = pair_objects [OF destroys.hyps(2), where g = sp_ctx and f = sp_block, folded secp_objects_def]
  have "accounted (secp_objects (remove1 kp kps)) h0 h'"
    by (rule accounted_release [OF conjunct1 [OF destroys.IH] o(1) z run o(2)])
  then show ?case using destroys.IH notin_set_remove1 by fastforce
next
  case (ignores kps h u h')
  then show ?case by (simp add: secp_destroy_def)
qed


section \<open>Properties\<close>

definition fresh_heap :: "(nat \<Rightarrow> bool) \<Rightarrow> heap" where
  "fresh_heap g = \<lparr>granted = g, requests = 0, live = [], bad_frees = 0, remains = []\<rparr>"

text \<open>
  The result of \<^verbatim>\<open>EC_KEY_set_public_key\<close> is not looked at: when its copy of the point is
  refused, loading a private key succeeds with a key pair that has no public key, and reading the
  public key then passes a null pointer to OpenSSL.
\<close>

lemma pair_without_public_key:
  assumes "EC_KEY_set_private_key lib (BN_bin2bn lib p)" "EC_POINT_mul lib (BN_bin2bn lib p) = Some q"
    and "granted h = (\<lambda>i. i \<noteq> requests h + 3)"
  shows "\<exists>kp. fst (run_state (ossl_from_priv lib (Some p)) h) = Some kp \<and> op_pub kp = None
    \<and> ossl_pubkey_get lib (Some kp) (Some buf) = None"
  using assms by (simp add: ossl_from_priv_def set_public_key_def run_code ossl_pubkey_get_def)

text \<open>
  C31. Nothing leaks. Whatever a program calls of \<^verbatim>\<open>keys.c\<close> and \<^verbatim>\<open>signatures.c\<close>, with null
  pointers, and whichever allocations are refused on the way: the objects alive are those that
  were alive before and two for each key pair that it has not destroyed, nothing has been released
  twice, and with libsecp256k1 the blocks of released key pairs held only zeros.
\<close>

theorem keys_leak_nothing:
  assumes "ossl_program ol h0 kps h" "secp_program sl g0 sps g"
  shows "mset (live h) = mset (live h0) + mset (ossl_objects kps) \<and> bad_frees h = bad_frees h0
    \<and> mset (live g) = mset (live g0) + mset (secp_objects sps) \<and> bad_frees g = bad_frees g0
    \<and> (\<exists>bss. remains g = bss @ remains g0 \<and> (\<forall>bs \<in> set bss. list_all (\<lambda>b. b = 0) bs))"
  using ossl_program_accounted [OF assms(1)] secp_program_accounted [OF assms(2)]
  by (simp add: accounted_def)

theorem keys_leak_nothing_witness:
  "live (snd (run_state (ossl_from_priv toy_openssl (Some (replicate 32 1))) (fresh_heap (\<lambda>i. i \<noteq> 2)))) = []
   \<and> (\<exists>g. secp_program toy_secp (fresh_heap (\<lambda>_. True)) [] g \<and> live g = [] \<and> remains g = [replicate 32 0])"
proof -
  define lk where "lk = ossl_from_priv toy_openssl (Some (replicate 32 1))"
  define h0 where "h0 = fresh_heap (\<lambda>i. i \<noteq> 2)"
  define g0 where "g0 = fresh_heap (\<lambda>_. True)"
  let ?kp = "\<lparr>sp_block = Pair_block 1, sp_ctx = Context 0, sp_seckey = replicate 32 1\<rparr>"
  have "fst (run_state lk h0) = None"
    by (simp add: lk_def h0_def ossl_from_priv_def run_code fresh_heap_def split: option.split)
  moreover have "run_state lk h0 = (fst (run_state lk h0), snd (run_state lk h0))" by simp
  ultimately have p: "ossl_program toy_openssl h0 [] (snd (run_state lk h0))"
    using ossl_program.loads [OF ossl_program.begins, of toy_openssl "Some (replicate 32 1)" h0 None]
    by (simp add: lk_def the_list_def)
  let ?g1 = "g0\<lparr>live := [Pair_block 1, Context 0], requests := 2\<rparr>"
  have "replicate 32 1 \<noteq> (replicate 32 0 :: bytes)" by simp
  then have "run_state (secp_from_priv toy_secp (Some (replicate 32 1))) g0 = (Some ?kp, ?g1)"
    by (simp add: secp_from_priv_def run_code g0_def fresh_heap_def toy_secp_def)
  from secp_program.loads [OF secp_program.begins _ this] have "secp_program toy_secp g0 [?kp] ?g1"
    by (simp add: the_list_def)
  moreover have "run_state (secp_destroy (Some ?kp)) ?g1 = ((), ?g1\<lparr>live := [], remains := [replicate 32 0]\<rparr>)"
    by (simp add: secp_destroy_def run_code g0_def fresh_heap_def memwipe_def)
  ultimately have q: "secp_program toy_secp g0 [] (?g1\<lparr>live := [], remains := [replicate 32 0]\<rparr>)"
    using secp_program.destroys [of toy_secp g0 "[?kp]" ?g1 ?kp] by simp
  have "live (snd (run_state lk h0)) = []"
    using keys_leak_nothing [OF p q] by (simp add: h0_def fresh_heap_def ossl_objects_def)
  moreover have "\<exists>g. secp_program toy_secp g0 [] g \<and> live g = [] \<and> remains g = [replicate 32 0]"
    by (rule exI, rule conjI, rule q) simp
  ultimately show ?thesis unfolding lk_def h0_def g0_def ..
qed

text \<open>
  When every request is granted, the functions return what \<open>Keys\<close> says they compute: the
  properties of signatures and key pairs proved there are properties of this code.
\<close>

theorem granted_results:
  assumes "granted h = (\<lambda>_. True)" "length buf = 64"
  shows "map_option pair_value (fst (run_state (ossl_create ol) h)) = openssl_keypair_create ol
    \<and> map_option pair_value (fst (run_state (ossl_from_priv ol (Some p)) h)) = openssl_keypair_from_priv ol p
    \<and> fst (run_state (ossl_sign ol (Some kp) (Some m) (Some buf) (Some n)) h) = openssl_sign ol (pair_value kp) m n
    \<and> fst (run_state (ossl_verify ol (Some pub) (Some m) (Some sig) (length sig)) h) = openssl_verify ol pub m sig
    \<and> map_option (\<lambda>r. map_option sp_seckey (fst r)) (secp_create sl draws garbage h) = secp_keypair_create sl draws
    \<and> map_option sp_seckey (fst (run_state (secp_from_priv sl (Some p)) h)) = secp_keypair_from_priv sl p
    \<and> fst (run_state (secp_check_sig sl (Some pub) (Some m) (Some sig) (length sig)) h) = secp_verify sl pub m sig"
  using assms
  by (simp only: ossl_create_result ossl_from_priv_result ossl_sign_result ossl_verify_result
      secp_create_result secp_from_priv_result secp_check_sig_result simp_thms)

theorem granted_results_witness:
  "map_option sp_seckey (fst (run_state (secp_from_priv toy_secp (Some (replicate 32 1))) (fresh_heap (\<lambda>_. True))))
     = Some (replicate 32 1)"
proof -
  have "replicate 32 1 \<noteq> (replicate 32 0 :: bytes)" by simp
  then show ?thesis
    using granted_results [of "fresh_heap (\<lambda>_. True)" "replicate 64 0" toy_openssl "replicate 32 1" undefined "[]" 64 "[]" "[]"
        toy_secp "\<lambda>_ _. None" "[]"]
    by (simp add: fresh_heap_def secp_keypair_from_priv_def toy_secp_def)
qed

end
