(* ===== verification/RpcService.thy ===== *)
theory RpcService
  imports Server
begin

text \<open>
  \<^verbatim>\<open>RpcServer\<close> of \<^verbatim>\<open>src/rpc/server.cpp\<close>: starting and stopping the thread that serves. One thread
  owns the object and calls \<^verbatim>\<open>start\<close>, \<^verbatim>\<open>stop\<close> and the destructor; the thread it starts runs the HTTP
  library, which serves until it returns or throws, for instance because the port is taken.
  \<^verbatim>\<open>Server\<close> has what it does with a request.
\<close>

section \<open>The object\<close>

text \<open>
  A thread serves, or the library is done with it. The thread member is joinable exactly when
  \<open>server_thread\<close> is not \<open>None\<close>. The owner is in the \<^verbatim>\<open>join\<close> of \<^verbatim>\<open>stop\<close> while \<open>joining\<close> holds;
  \<open>rpc_alive\<close> is false when \<^verbatim>\<open>std::terminate\<close> has ended the process.
\<close>

datatype http_thread = Serving | Over

record RpcServer =
  has_ctx :: bool
  rpc_running :: bool
  server_thread :: "http_thread option"
  joining :: bool
  destroyed :: bool
  rpc_alive :: bool

definition new_server :: "bool \<Rightarrow> RpcServer" where
  "new_server ctx = \<lparr>has_ctx = ctx, rpc_running = False, server_thread = None, joining = False,
     destroyed = False, rpc_alive = True\<rparr>"

text \<open>Assigning a new thread destroys the old one, which must not be joinable.\<close>

definition server_start :: "RpcServer \<Rightarrow> bool \<times> RpcServer" where
  "server_start s =
     (if \<not> has_ctx s then (False, s)
      else if rpc_running s then (True, s)
      else (True, s\<lparr>rpc_running := True, rpc_alive := server_thread s = None, server_thread := Some Serving\<rparr>))"

definition server_stop :: "RpcServer \<Rightarrow> RpcServer" where
  "server_stop s =
     (if \<not> rpc_running s then s else s\<lparr>rpc_running := False, joining := server_thread s \<noteq> None\<rparr>)"

text \<open>The class has no destructor of its own; that of the thread member wants it joined.\<close>

definition server_destroy :: "RpcServer \<Rightarrow> RpcServer" where
  "server_destroy s = s\<lparr>destroyed := True, rpc_alive := server_thread s = None\<rparr>"

text \<open>Without the HTTP library there is only the flag.\<close>

definition stub_start :: "RpcServer \<Rightarrow> bool \<times> RpcServer" where
  "stub_start s = (True, s\<lparr>rpc_running := True\<rparr>)"

definition stub_stop :: "RpcServer \<Rightarrow> RpcServer" where
  "stub_stop s = s\<lparr>rpc_running := False\<rparr>"


section \<open>Runs\<close>

datatype rpc_event = Server_started bool | Server_over | Server_stopped | Server_joined | Server_destroyed

abbreviation idle_owner :: "RpcServer \<Rightarrow> bool" where
  "idle_owner s \<equiv> rpc_alive s \<and> \<not> joining s \<and> \<not> destroyed s"

inductive rpc_step :: "RpcServer \<Rightarrow> rpc_event \<Rightarrow> RpcServer \<Rightarrow> bool" where
  starts: "idle_owner s \<Longrightarrow> server_start s = (r, s') \<Longrightarrow> rpc_step s (Server_started r) s'"
| over: "rpc_alive s \<Longrightarrow> server_thread s = Some Serving \<Longrightarrow> rpc_step s Server_over (s\<lparr>server_thread := Some Over\<rparr>)"
| stops: "idle_owner s \<Longrightarrow> rpc_step s Server_stopped (server_stop s)"
| joined: "rpc_alive s \<Longrightarrow> joining s \<Longrightarrow> server_thread s = Some Over \<Longrightarrow>
    rpc_step s Server_joined (s\<lparr>server_thread := None, joining := False\<rparr>)"
| destroys: "idle_owner s \<Longrightarrow> rpc_step s Server_destroyed (server_destroy s)"

inductive rpc_runs :: "RpcServer \<Rightarrow> rpc_event list \<Rightarrow> RpcServer \<Rightarrow> bool" where
  none: "rpc_runs s [] s"
| step: "rpc_step s e s' \<Longrightarrow> rpc_runs s' es s'' \<Longrightarrow> rpc_runs s (e # es) s''"

inductive_cases rpc_stepE: "rpc_step s e s'"
inductive_cases rpc_runs_ConsE: "rpc_runs s (e # es) s'"
inductive_simps rpc_runs_Nil: "rpc_runs s [] s'"

text \<open>The flag tells whether there is a thread to join, except while the owner joins it.\<close>

definition rpc_inv :: "RpcServer \<Rightarrow> bool" where
  "rpc_inv s \<longleftrightarrow>
     (rpc_alive s \<longrightarrow> (if joining s then \<not> rpc_running s \<and> server_thread s \<noteq> None
                      else rpc_running s = (server_thread s \<noteq> None)))
     \<and> (\<not> rpc_alive s \<longrightarrow> destroyed s \<and> rpc_running s) \<and> (joining s \<longrightarrow> \<not> destroyed s)"

lemma rpc_step_inv: "rpc_step s e s' \<Longrightarrow> rpc_inv s \<Longrightarrow> rpc_inv s'"
  by (erule rpc_stepE)
    (auto simp: rpc_inv_def server_start_def server_stop_def server_destroy_def split: if_splits)

lemma rpc_runs_inv: "rpc_runs s es s' \<Longrightarrow> rpc_inv s \<Longrightarrow> rpc_inv s'"
  by (induction rule: rpc_runs.induct) (auto intro: rpc_step_inv)

lemma new_server_inv: "rpc_inv (new_server ctx)"
  by (simp add: rpc_inv_def new_server_def)

text \<open>While the owner joins, only the end of the library lets it go on.\<close>

lemma joining_step:
  "rpc_step s e s' \<Longrightarrow> joining s \<Longrightarrow> server_thread s = Some Serving \<Longrightarrow> e = Server_over \<and> joining s'"
  by (erule rpc_stepE) auto

lemma over_starts:
  "rpc_runs s es s' \<Longrightarrow> has_ctx s \<Longrightarrow> rpc_running s \<Longrightarrow> server_thread s = Some Over \<Longrightarrow>
     set es \<subseteq> range Server_started \<Longrightarrow> s' = s \<and> set es \<subseteq> {Server_started True}"
proof (induction rule: rpc_runs.induct)
  case (step s e s' es s'')
  from step.hyps(1) step.prems have "s' = s" "e = Server_started True"
    by (auto elim!: rpc_stepE simp: server_start_def)
  with step.IH step.prems show ?case by simp
qed simp

text \<open>
  The life of the server. Nothing but the destructor can end the process, and only when it meets a
  server that was not stopped. \<^verbatim>\<open>stop\<close> does nothing to the thread: it returns when the library
  does, so that it waits for ever while the library serves. And a server whose thread has
  failed counts as running: every further \<^verbatim>\<open>start\<close> answers true and serves nothing.
\<close>

theorem rpc_server_life:
  assumes "rpc_runs (new_server ctx) es s"
  shows "(\<not> rpc_alive s \<longrightarrow> destroyed s \<and> rpc_running s)
    \<and> (joining s \<and> server_thread s = Some Serving \<longrightarrow> (\<forall>e s'. rpc_step s e s' \<longrightarrow> e = Server_over \<and> joining s'))
    \<and> (has_ctx s \<and> rpc_running s \<and> server_thread s = Some Over \<longrightarrow>
        (\<forall>es' s'. rpc_runs s es' s' \<and> set es' \<subseteq> range Server_started \<longrightarrow> s' = s \<and> set es' \<subseteq> {Server_started True}))"
  using rpc_runs_inv [OF assms new_server_inv] joining_step over_starts
  unfolding rpc_inv_def by blast

text \<open>The states it speaks of are reached: one start, and a port that is taken; then a stop.\<close>

lemma failed_server:
  "rpc_runs (new_server True) [Server_started True, Server_over]
     \<lparr>has_ctx = True, rpc_running = True, server_thread = Some Over, joining = False, destroyed = False, rpc_alive = True\<rparr>"
proof -
  let ?s = "\<lparr>has_ctx = True, rpc_running = True, server_thread = Some Serving, joining = False, destroyed = False, rpc_alive = True\<rparr>"
  have "rpc_step (new_server True) (Server_started True) ?s"
    by (rule rpc_step.starts) (simp_all add: new_server_def server_start_def)
  moreover have "rpc_step ?s Server_over (?s\<lparr>server_thread := Some Over\<rparr>)"
    by (rule rpc_step.over) simp_all
  ultimately show ?thesis by (auto intro: rpc_runs.intros)
qed

lemma waiting_server:
  "\<exists>s. rpc_runs (new_server True) [Server_started True, Server_stopped] s \<and> joining s \<and> server_thread s = Some Serving"
proof -
  let ?s = "\<lparr>has_ctx = True, rpc_running = True, server_thread = Some Serving, joining = False, destroyed = False, rpc_alive = True\<rparr>"
  have "rpc_step (new_server True) (Server_started True) ?s"
    by (rule rpc_step.starts) (simp_all add: new_server_def server_start_def)
  moreover have "rpc_step ?s Server_stopped (server_stop ?s)" by (rule rpc_step.stops) simp
  ultimately have "rpc_runs (new_server True) [Server_started True, Server_stopped] (server_stop ?s)"
    by (auto intro: rpc_runs.intros)
  then show ?thesis by (intro exI conjI) (assumption, simp_all add: server_stop_def)
qed

end
