(* ===== verification/Test_Suite.thy ===== *)
theory Test_Suite
  imports Mining Wallet
begin

text \<open>
  The repository's own tests (\<^verbatim>\<open>tests/test_blockchain.cpp\<close>, \<^verbatim>\<open>test_mempool.cpp\<close>,
  \<^verbatim>\<open>test_miner.cpp\<close>, \<^verbatim>\<open>test_wallet.cpp\<close>) as definitions over the model, one for each \<^verbatim>\<open>TEST\<close>:
  the value is whether every assertion of the test holds. The two that generate a phrase are
  \<open>None\<close> where doing so reads one of the words that the list lacks. That they all hold is what
  the repository expects of its code, and so a check of the model.
\<close>

section \<open>The tests\<close>

definition test_genesis :: "hasher \<Rightarrow> bool" where
  "test_genesis sha =
     (let chain = new_blockchain sha;
          genesis = makeGenesisBlock sha
      in length (transactions genesis) = 1 \<and> isCoinbase (transactions genesis ! 0)
         \<and> getHeight chain = 0
         \<and> getBestBlockHash chain = getHash sha genesis)"

definition test_get_block_by_height :: "hasher \<Rightarrow> bool" where
  "test_get_block_by_height sha =
     (let chain = new_blockchain sha
      in case getBlockByHeight chain 0 of
           None \<Rightarrow> False
         | Some block \<Rightarrow> getHash sha block = getBestBlockHash chain)"

definition test_get_block_subsidy :: bool where
  "test_get_block_subsidy \<longleftrightarrow>
     getBlockSubsidy 0 = 25 * COIN \<and> getBlockSubsidy 209999 = 25 * COIN
     \<and> getBlockSubsidy 210000 = 25 * COIN div 2 \<and> getBlockSubsidy 419999 = 25 * COIN div 2
     \<and> getBlockSubsidy 420000 = 25 * COIN div 4"

definition test_add_and_template :: "hasher \<Rightarrow> feed \<Rightarrow> bool" where
  "test_add_and_template sha f =
     (let tx = \<lparr>tx_version = 1,
            inputs = [\<lparr>prev_tx_hash = uint256_zero, output_index = 0, signature = [], pubkey = []\<rparr>],
            outputs = [\<lparr>amount = 1 * COIN, script_pubkey = [0x76, 0xa9, 0x14] @ replicate 20 0 @ [0x88, 0xac]\<rparr>],
            lock_time = 0, cached_txid = None\<rparr>;
          (added, mp, f) = mempool_add sha tx 1000 [] f;
          tmpl = getBlockTemplate mp
      in added \<and> mempool_size mp = 1 \<and> length tmpl = 1)"

definition test_block :: "u64 \<Rightarrow> bytes \<Rightarrow> Blockchain \<Rightarrow> Block" where
  "test_block now hash chain =
     (let coinbase = \<lparr>tx_version = 1,
            inputs = [\<lparr>prev_tx_hash = uint256_zero, output_index = 0xffffffff, signature = [], pubkey = []\<rparr>],
            outputs = [\<lparr>amount = getBlockSubsidy (getHeight chain + 1),
              script_pubkey = [0x76, 0xa9, 0x14] @ hash @ [0x88, 0xac]\<rparr>],
            lock_time = 0, cached_txid = None\<rparr>
      in \<lparr>header = \<lparr>hdr_version = 1, previous_hash = getBestBlockHash chain, merkle_root = uint256_zero,
            timestamp = now, difficulty_target = 0, nonce = 0\<rparr>, transactions = [coinbase]\<rparr>)"

definition test_coinbase_payout :: "'kp crypto \<Rightarrow> (string \<Rightarrow> bool) \<Rightarrow> u64 \<Rightarrow> u64 \<Rightarrow> files \<Rightarrow> bool option" where
  "test_coinbase_payout env can_write now now' fs =
     (let chain = new_blockchain (SHA256 env)
      in case create env [] new_wallet of
        None \<Rightarrow> None
      | Some (created, w) \<Rightarrow> Some (created \<and>
          (let (addr, w) = generateNewAddress env w;
               seed = mnemonicToSeed (KDF env) (mnemonic w) [];
               hd = snd (setSeed seed \<lparr>seed = []\<rparr>);
               priv = derivePrivateKey env hd 0
           in length priv = 32 \<and>
              (case keypair_from_priv (key_backend env) priv of
                 None \<Rightarrow> False
               | Some key \<Rightarrow>
                   (case pubkey_get (key_backend env) key of
                      None \<Rightarrow> False
                    | Some pub \<Rightarrow>
                        (let hash = shawncoin_hash160 (SHA256 env) (RIPEMD160 env) pub;
                             block = test_block now hash chain;
                             (mined, block) = mineBlock (SHA256 env) block EASY_MINE_DIFFICULTY;
                             newHeight = getHeight chain + 1;
                             (ok, chain, fs) = addBlock (SHA256 env) can_write now' block newHeight chain fs
                         in length hash = 20 \<and> mined \<and> ok))))))"

definition test_create_save_load :: "'kp crypto \<Rightarrow> (string \<Rightarrow> bool) \<Rightarrow> files \<Rightarrow> bool option" where
  "test_create_save_load env can_write fs =
     (case create env [] new_wallet of
        None \<Rightarrow> None
      | Some (created, w) \<Rightarrow> Some (created \<and>
          (let m1 = mnemonic w;
               path = ''wallet_test.dat'';
               (saved, fs) = saveToFile env can_write path ''testpass'' w fs;
               (loaded, w2) = loadFromFile env path ''testpass'' fs new_wallet;
               m2 = mnemonic w2
           in m1 \<noteq> [] \<and> saved \<and> loaded \<and> m1 = m2)))"


section \<open>They hold\<close>

lemma test_genesis_holds: "test_genesis sha"
  by (simp add: test_genesis_def new_blockchain_def makeGenesisBlock_def Let_def getHeight_def getBestBlockHash_def
      getTxid_def genesis_coinbase_def isCoinbase_def)

lemma test_get_block_by_height_holds: "test_get_block_by_height sha"
  by (simp add: test_get_block_by_height_def new_blockchain_def Let_def getBlockByHeight_def getBestBlockHash_def)

lemma test_get_block_subsidy_holds: "test_get_block_subsidy"
  by (simp add: test_get_block_subsidy_def getBlockSubsidy_def coin_params Let_def word_le_nat_alt)

lemma test_add_and_template_holds: "test_add_and_template sha f"
  by (simp add: test_add_and_template_def mempool_add_def validateTransactionStructure_def isCoinbase_def
      mempool_size_def getBlockTemplate_eq MAX_MEMPOOL_SIZE_def coin_params Let_def split: prod.split)

lemma test_block_accepted:
  assumes "checkProofOfWork sha (header (set_nonce (mining_block sha (test_block now hash (new_blockchain sha)) EASY_MINE_DIFFICULTY) n))"
    and "now \<le> now' + 7200"
  shows "\<exists>b. mineBlock sha (test_block now hash (new_blockchain sha)) EASY_MINE_DIFFICULTY = (True, b)
    \<and> fst (addBlock sha w now' b (getHeight (new_blockchain sha) + 1) (new_blockchain sha) fs)"
proof -
  let ?c = "new_blockchain sha" and ?t = "test_block now hash (new_blockchain sha)"
  let ?b = "\<lambda>n. set_nonce (mining_block sha ?t EASY_MINE_DIFFICULTY) n"
  obtain n where n: "mineBlock sha ?t EASY_MINE_DIFFICULTY = (True, ?b n)" "checkProofOfWork sha (header (?b n))"
    using mineBlock_found [OF assms(1)]
      LeastI [where P = "\<lambda>n. checkProofOfWork sha (header (?b n))", OF assms(1)] by blast
  obtain cb where cb: "transactions ?t = [cb]" "isCoinbase cb"
    by (simp add: test_block_def isCoinbase_def Let_def)
  then have tx: "transactions (?b n) = [memo_txid sha cb]" by (simp add: mining_block_def)
  have hd: "merkle_root (header (?b n)) = computeMerkleRoot sha (transactions ?t)"
    "timestamp (header (?b n)) = now" "difficulty_target (header (?b n)) = EASY_MINE_DIFFICULTY"
    "previous_hash (header (?b n)) = bestBlockHash ?c"
    by (simp_all add: mining_block_def test_block_def getBestBlockHash_def Let_def)
  have "computeMerkleRoot sha [memo_txid sha cb] = computeMerkleRoot sha [cb]"
    using merkle_memo [of sha "[cb]"] by simp
  then have "validateBlockStructure sha now' (?b n)"
    using n(2) cb assms(2) hd unfolding validateBlockStructure_def tx hd
    by (simp add: EASY_MINE_DIFFICULTY_def not_less Let_def)
  moreover have "checkDifficulty ?c (header (?b n))"
    by (simp add: checkDifficulty_def new_blockchain_def getHeight_def Let_def)
  moreover have "drop 1 (transactions (?b n)) = []" unfolding tx by simp
  ultimately have "connectable sha now' (?b n) ?c" "distinct (block_spends (?b n))"
    by (simp_all add: connectable_def block_spends_def del: set_nonce_simps)
  moreover have "map_ok (bc_utxo ?c)" by (simp add: new_blockchain_def genesis_utxo(1) Let_def)
  ultimately have "fst (addBlock sha w now' (?b n) (height ?c + 1) ?c fs)"
    using addBlock_accepts [OF _ _ refl hd(4), of sha now' w fs]
    by (cases "map_find (blockCache ?c) (getHash sha (?b n)) = None") (auto simp: addBlock_def Let_def)
  then show ?thesis using n(1) by (auto simp: getHeight_def)
qed

text \<open>
  The two tests with a wallet hold when the calls of the libraries succeed: the wallet is created
  and saved, a key pair can be made of the derived key, and some nonce gives a hash that is small
  enough (one hash in 256 is).
\<close>

lemma test_coinbase_payout_holds:
  assumes "create env [] new_wallet = Some (True, w)"
    and "length (derivePrivateKey env (hd_wallet w) 0) = 32"
    and "keypair_from_priv (key_backend env) (derivePrivateKey env (hd_wallet w) 0) = Some key"
    and "pubkey_get (key_backend env) key = Some pub"
    and "hash = shawncoin_hash160 (SHA256 env) (RIPEMD160 env) pub" "length hash = 20"
    and "checkProofOfWork (SHA256 env) (header (set_nonce (mining_block (SHA256 env)
           (test_block now hash (new_blockchain (SHA256 env))) EASY_MINE_DIFFICULTY) n))"
    and "now \<le> now' + 7200"
  shows "test_coinbase_payout env can_write now now' fs = Some True"
proof -
  obtain b where b: "mineBlock (SHA256 env) (test_block now hash (new_blockchain (SHA256 env))) EASY_MINE_DIFFICULTY = (True, b)"
    "fst (addBlock (SHA256 env) can_write now' b (getHeight (new_blockchain (SHA256 env)) + 1) (new_blockchain (SHA256 env)) fs)"
    using test_block_accepted [OF assms(7,8), of can_write fs] by blast
  have s: "snd (setSeed (mnemonicToSeed (KDF env) (mnemonic w) []) \<lparr>seed = []\<rparr>) = hd_wallet w"
    using assms(1) by (auto simp: create_def setSeed_def new_wallet_def Let_def split: option.splits if_splits)
  have m: "mnemonic (snd (generateNewAddress env w)) = mnemonic w"
    by (simp add: generateNewAddress_def Let_def)
  show ?thesis
    unfolding test_coinbase_payout_def Let_def assms(1)
    using assms(2,3,4,6) b m s
    by (simp add: split_beta assms(5) [symmetric])
qed

lemma test_create_save_load_holds:
  assumes "crypto_ok env" "create env [] new_wallet = Some (True, w)"
    and "saveToFile env can_write ''wallet_test.dat'' ''testpass'' w fs = (True, fs')"
  shows "test_create_save_load env can_write fs = Some True"
proof -
  have "loadFromFile env ''wallet_test.dat'' ''testpass'' fs' new_wallet = restore env (mnemonic w) [] new_wallet"
    using assms(1,3) by (rule load_saved_wallet)
  moreover have "fst (restore env (mnemonic w) [] new_wallet)" "mnemonic (snd (restore env (mnemonic w) [] new_wallet)) = mnemonic w"
    "mnemonic w \<noteq> []"
    using assms(2) by (auto simp: create_def restore_def setSeed_def new_wallet_def Let_def split: option.splits if_splits)
  ultimately show ?thesis
    by (auto simp: test_create_save_load_def assms(2,3) Let_def split: prod.split)
qed

end
