(* ===== verification/Spec2Isabelle.thy ===== *)
theory Spec2Isabelle
  imports Node_System Database MinerThreads CoinRace Stratum Logger Realtime Resources RpcService Test_Suite
begin

text \<open>
  A verification development for ShawnCoin (\<^verbatim>\<open>src/shawncoin\<close>), a node of a small
  proof-of-work currency with its wallet, command line client and wallet tool. Paths below are
  relative to \<^verbatim>\<open>src/shawncoin/src\<close>.

  \<^bold>\<open>The program.\<close> The daemon (\<^verbatim>\<open>main.cpp\<close>) reads its configuration, builds a block chain with a
  store behind it, a memory pool, a wallet and a miner, and lets the miner work until a signal
  arrives. The miner builds a block on the best one from a coinbase and the pool, searches a
  nonce and hands the block to the chain. The chain checks it, connects it to the UTXO set and
  saves it. An RPC server in front of these components answers JSON requests; the command line
  client writes such requests and prints the answers; the wallet tool makes wallets offline.

  \<^bold>\<open>Theories and code.\<close>

  \<^item> \<open>Prelude\<close>: words, the 32-byte array, little-endian bytes, shared rules. \<open>StdMap\<close>:
    \<^verbatim>\<open>std::map\<close> and the interface \<open>key_value\<close>.
  \<^item> \<open>Serialize\<close> (\<^verbatim>\<open>util/serialize.hpp\<close>), with the interfaces \<open>reader\<close> and \<open>codec\<close>, each
    interpreted on every encoder and decoder of the program; \<open>Util\<close> (\<^verbatim>\<open>util/util.cpp\<close>).
  \<^item> \<open>CoreTypes\<close> (\<^verbatim>\<open>core/types.cpp\<close>, \<^verbatim>\<open>crypto/hash.c\<close>), \<open>Tx\<close> (\<^verbatim>\<open>core/transaction.cpp\<close>), \<open>TxId\<close>,
    \<open>Blocks\<close> (\<^verbatim>\<open>core/block.cpp\<close>), \<open>Merkle\<close> (\<^verbatim>\<open>mining/merkle.cpp\<close>), \<open>Subsidy\<close> (the issue schedule).
  \<^item> \<open>Pow\<close>: \<^verbatim>\<open>checkProofOfWork\<close> and the nonce search \<^verbatim>\<open>Miner::mineBlock\<close>. \<open>Difficulty\<close> and
    \<open>HashRate\<close>: \<^verbatim>\<open>mining/difficulty.cpp\<close>, on machine integers and on doubles.
  \<^item> \<open>Utxo\<close> (\<^verbatim>\<open>core/utxo.cpp\<close>, connecting and disconnecting blocks of \<^verbatim>\<open>core/consensus.cpp\<close>),
    \<open>ChainStore\<close> (\<^verbatim>\<open>storage/chainstate.cpp\<close>) with the interface \<open>chain_state\<close>, \<open>Database\<close>
    (\<^verbatim>\<open>storage/database.cpp\<close>) with the interface \<open>database\<close>, \<open>Chain\<close> (\<^verbatim>\<open>core/blockchain.cpp\<close> and the
    rules of \<^verbatim>\<open>core/consensus.cpp\<close>), \<open>ChainInv\<close> and \<open>ChainProps\<close>; \<open>CoinRace\<close>: \<^verbatim>\<open>connectBlockUTXO\<close>
    in two threads.
  \<^item> \<open>Mempool\<close> (\<^verbatim>\<open>core/mempool.cpp\<close>), \<open>Mining\<close>, \<open>MinerLoop\<close> and \<open>MinerThreads\<close> (\<^verbatim>\<open>mining/miner.cpp\<close>), \<open>Stratum\<close>
    (\<^verbatim>\<open>mining/stratum.cpp\<close>), \<open>Realtime\<close> (\<^verbatim>\<open>util/realtime.cpp\<close>), \<open>Logger\<close> (\<^verbatim>\<open>util/logger.cpp\<close>).
  \<^item> \<open>Base58\<close> (\<^verbatim>\<open>crypto/address.cpp\<close>) with the interface \<open>carry_loop\<close>, \<open>Keys\<close> (\<^verbatim>\<open>crypto/keys.c\<close>,
    \<^verbatim>\<open>crypto/signatures.c\<close>, both back ends), \<open>Memory\<close> (\<^verbatim>\<open>crypto/secure_random.c\<close>), \<open>Resources\<close>
    (what the key functions allocate and release), \<open>Mnemonic\<close> (\<^verbatim>\<open>wallet/mnemonic.cpp\<close>), \<open>Wallet\<close> (\<^verbatim>\<open>wallet/wallet.cpp\<close>, \<^verbatim>\<open>wallet/hdwallet.cpp\<close>).
  \<^item> \<open>Network\<close> (\<^verbatim>\<open>network\<close>), \<open>Config\<close> (\<^verbatim>\<open>util/config.cpp\<close>), \<open>Json\<close>, \<open>Rpc\<close> (\<^verbatim>\<open>rpc/api.cpp\<close>), \<open>Server\<close>
    and \<open>RpcService\<close> (\<^verbatim>\<open>rpc/server.cpp\<close>: its requests, and the life of its thread).
  \<^item> \<open>Base64\<close>, \<open>Amounts\<close>, \<open>Cli\<close>: the client (\<^verbatim>\<open>../cli/shawncoin-cli.cpp\<close>). \<open>Daemon\<close>: \<^verbatim>\<open>main.cpp\<close>.
    \<open>WalletTool\<close>: \<^verbatim>\<open>../tools/wallet_tool.cpp\<close>. \<open>Node_System\<close>: the components together, as
    \<^verbatim>\<open>RpcContext\<close> ties them. \<open>Test_Suite\<close>: the assertions of \<^verbatim>\<open>../tests\<close>, which hold of the model.

  A class is a record of its members, a method a function from the state to its result and the
  new state, with every early return a branch. Integers keep their width. Exceptions, undefined
  behaviour and loops that do not end are values: \<open>None\<close>, or a constructor of an outcome type. A
  mutex makes a method one step; where the code releases it half-way (\<^verbatim>\<open>addBlock\<close>) the two halves
  are separate steps (\<open>ChainProps\<close>), and \<open>CoinRace\<close> runs \<^verbatim>\<open>connectBlockUTXO\<close> one operation of the UTXO
  set at a time, for schedules of two threads. The stratum server and the RPC server, each with
  its owner, and the miner's threads are step relations, because they interleave. The C code of \<open>Resources\<close> is in the state
  monad of the library, over a heap whose requests may each be refused.

  \<^bold>\<open>What the lemmas show.\<close> The encoders and decoders are inverse to each other,
  and what the decoders refuse is stated. \<open>ChainInv\<close> relates a node to the abstract
  list of accepted blocks: one caller at a time keeps a valid chain whose replay the UTXO set is, no
  outpoint is spent twice, and the store mirrors the chain; \<open>ChainProps\<close> adds what
  \<^verbatim>\<open>addBlock\<close> decides and where it falls short: refused blocks that burn
  coins, amounts that nobody checks, two threads that break the chain; \<open>CoinRace\<close> shows two threads that spend one
  coin. \<open>MinerThreads\<close> states what every interleaving of the miner's threads keeps. The proof-of-work check is a
  comparison of numbers, and the search returns the least nonce that passes it. A round of the miner
  extends the chain or leaves it; the loop reports what it did. Addresses do not read back, so the
  wallet is blind to what it is paid; signatures of either back end verify with the key pair's public
  key, and whatever is refused on the way, a program that destroys its key pairs has nothing left
  allocated and leaves no secret behind in a released block. Requests answer \<open>null\<close> whatever they
  do, so the client fails on every answer it reads; \<open>Daemon\<close> and \<open>Node_System\<close> state what holds of all runs of the
  whole: the chain is the miner's alone and starts anew at each start, the pool stays empty, no coin
  moves, and the data keeps its shape.

  \<^bold>\<open>Parameters and hypotheses.\<close> Not in the repository and therefore arguments of the model: the
  digests (\<^verbatim>\<open>SHA256\<close>, \<^verbatim>\<open>RIPEMD160\<close>), PBKDF2 and AES, the curve libraries (a record of functions per
  library, with the documented laws as hypotheses of the signature lemmas), RocksDB (\<open>rocksdb_ok\<close>),
  the HTTP library between client and server (\<open>http_library\<close>), the random source, the clock, the
  file system (a partial map from paths to contents, with the paths that can be written),
  \<^verbatim>\<open>std::stod\<close>, and the text of a NaN. Each theorem with such a hypothesis is applied at a
  concrete instance.

  \<^bold>\<open>Loops.\<close> The nonce search runs over \<open>2 ^ 32\<close> nonces and terminates by that measure. The supply
  loop and the drawing of a secret key may run forever and are partial functions; where they
  return is proved. The rounds of the miner and the requests of a run are lists or an inductive
  run of any length; where heights could overflow, the theorem bounds the number of rounds.

  \<^bold>\<open>Not modelled.\<close> Colours, pictograms and help texts of the console programs; log lines in the
  components that write them; the listening side of the RPC server, which is the HTTP library's;
  memory allocation failures outside \<open>Resources\<close>; signal handlers; more than two threads inside
  \<^verbatim>\<open>connectBlockUTXO\<close>.
\<close>

end
